(* ===== verification/Prelude.thy ===== *)
theory Prelude
  imports Main "HOL-Library.Word" "HOL-Library.AList" "HOL-Library.Sublist"
begin

text \<open>
  What every component shares: the machine integers of the daemon, the Rust formatting of
  numbers, the error values of \<open>std::io\<close>, and the generic facts on association lists and
  words that the component proofs use.

  A byte is a HOL \<open>char\<close> (an 8-bit value); a file's contents, a path and a Rust \<open>String\<close>
  (UTF-8) are lists of bytes, so string literals of the source are literals here.
\<close>

section \<open>Machine integers and bytes\<close>

type_synonym u8 = "8 word"
type_synonym u32 = "32 word"
type_synonym u64 = "64 word"
type_synonym byte = char
type_synonym bytes = "char list"

named_theorems triple_intro \<open>Hoare rules of the modelled calls\<close>
named_theorems path_simps \<open>how paths name keys of the file system\<close>

text \<open>\<open>u64::saturating_mul\<close>.\<close>

definition saturating_mul :: "u64 \<Rightarrow> u64 \<Rightarrow> u64" where
  "saturating_mul a b = (if unat a * unat b < 2 ^ 64 then a * b else - 1)"

lemma saturating_mul_unat: "unat (saturating_mul a b) = min (unat a * unat b) (2 ^ 64 - 1)"
proof (cases "unat a * unat b < 2 ^ 64")
  case True
  then have "unat (a * b) = unat a * unat b"
    by (simp add: unat_word_ariths)
  with True show ?thesis by (simp add: saturating_mul_def)
next
  case False
  moreover have "unat (- 1 :: u64) = 2 ^ 64 - 1"
    by (simp add: unsigned_minus_1_eq_mask mask_eq_exp_minus_1)
  ultimately show ?thesis by (simp add: saturating_mul_def)
qed

lemma saturating_mul_exact:
  "unat a * unat b < 2 ^ 64 \<Longrightarrow> unat (saturating_mul a b) = unat a * unat b"
  by (simp add: saturating_mul_unat)

lemma word_of_nat_unat_eq: "n < 2 ^ 64 \<Longrightarrow> unat (of_nat n :: u64) = n"
  by (simp add: unat_of_nat take_bit_nat_eq_self)

section \<open>Formatting of numbers\<close>

text \<open>\<open>{n}\<close>: a number in decimal.\<close>

definition digit_char :: "nat \<Rightarrow> char" where
  "digit_char d = char_of (48 + d)"

fun show_nat :: "nat \<Rightarrow> string" where
  "show_nat n = (if n < 10 then [digit_char n] else show_nat (n div 10) @ [digit_char (n mod 10)])"

declare show_nat.simps [simp del]

lemma show_nat_small: "n < 10 \<Longrightarrow> show_nat n = [digit_char n]"
  by (simp add: show_nat.simps)

lemma show_nat_large: "10 \<le> n \<Longrightarrow> show_nat n = show_nat (n div 10) @ [digit_char (n mod 10)]"
  by (subst show_nat.simps) simp

lemma show_nat_not_Nil [simp]: "show_nat n \<noteq> []"
  by (subst show_nat.simps) simp

definition is_digit :: "char \<Rightarrow> bool" where
  "is_digit c \<longleftrightarrow> 48 \<le> (of_char c :: nat) \<and> (of_char c :: nat) \<le> 57"

lemma of_char_digit_char: "d < 10 \<Longrightarrow> (of_char (digit_char d) :: nat) = 48 + d"
  by (simp add: digit_char_def)

lemma is_digit_digit_char: "d < 10 \<Longrightarrow> is_digit (digit_char d)"
  by (simp add: is_digit_def of_char_digit_char)

lemma show_nat_digits: "c \<in> set (show_nat n) \<Longrightarrow> is_digit c"
proof (induction n rule: show_nat.induct)
  case (1 n)
  show ?case
  proof (cases "n < 10")
    case True
    with "1.prems" show ?thesis by (simp add: show_nat_small is_digit_digit_char)
  next
    case False
    with "1.prems" have "c \<in> set (show_nat (n div 10)) \<or> c = digit_char (n mod 10)"
      by (auto simp: show_nat_large)
    with False "1.IH" show ?thesis by (auto intro: is_digit_digit_char)
  qed
qed

text \<open>Reading a decimal back: printing numbers is injective.\<close>

definition read_digits :: "string \<Rightarrow> nat" where
  "read_digits s = foldl (\<lambda>a c. 10 * a + (of_char c - 48)) 0 s"

lemma read_show_nat: "read_digits (show_nat n) = n"
proof (induction n rule: show_nat.induct)
  case (1 n)
  show ?case
  proof (cases "n < 10")
    case True
    then show ?thesis by (simp add: show_nat_small read_digits_def of_char_digit_char)
  next
    case False
    with 1 have "read_digits (show_nat (n div 10)) = n div 10" by simp
    with False show ?thesis
      by (simp add: show_nat_large read_digits_def of_char_digit_char)
  qed
qed

lemma show_nat_inject [simp]: "show_nat m = show_nat n \<longleftrightarrow> m = n"
  by (metis read_show_nat)

text \<open>\<open>{n:02}\<close>, \<open>{n:04}\<close>: padded with zeros to a width; the sign counts.\<close>

definition pad0 :: "nat \<Rightarrow> nat \<Rightarrow> string" where
  "pad0 width n = replicate (width - length (show_nat n)) CHR ''0'' @ show_nat n"

definition pad0_int :: "nat \<Rightarrow> int \<Rightarrow> string" where
  "pad0_int width i = (if i < 0 then CHR ''-'' # pad0 (width - 1) (nat (- i)) else pad0 width (nat i))"

text \<open>\<open>{b:02X}\<close>: a byte as two upper-case hexadecimal digits.\<close>

definition hex_upper :: "nat \<Rightarrow> char" where
  "hex_upper d = (if d < 10 then char_of (48 + d) else char_of (55 + d))"

definition hex02 :: "char \<Rightarrow> string" where
  "hex02 b = [hex_upper (of_char b div 16), hex_upper (of_char b mod 16)]"

text \<open>The em dash and the arrow of the daemon's messages, in UTF-8.\<close>

definition em_dash :: string where
  "em_dash = [CHR 0xE2, CHR 0x80, CHR 0x94]"

definition arrow :: string where
  "arrow = [CHR 0xE2, CHR 0x86, CHR 0x92]"

section \<open>Errors of std::io\<close>

datatype error_kind = NotFound | PermissionDenied | AlreadyExists | InvalidInput | InvalidData
  | AddrInUse | ConnectionRefused | CrossesDevices | IsADirectory | NotADirectory
  | DirectoryNotEmpty | FileTooLarge | StorageFull | OtherKind

text \<open>An \<open>io::Error\<close>: one the operating system returned, or \<open>io::Error::new(kind, text)\<close>.\<close>

datatype io_error = Os error_kind | Custom error_kind string

fun error_kind_of :: "io_error \<Rightarrow> error_kind" where
  "error_kind_of (Os k) = k"
| "error_kind_of (Custom k s) = k"

section \<open>Association lists\<close>

lemma map_of_update [simp]: "map_of (AList.update k v f) = (map_of f)(k \<mapsto> v)"
  by (rule AList.update_conv')

lemma map_of_delete [simp]: "map_of (AList.delete k f) = (map_of f)(k := None)"
  by (rule AList.delete_conv')

lemma map_of_filter_key:
  "map_of (filter (\<lambda>(k, v). P k) f) k = (if P k then map_of f k else None)"
  by (induction f) auto

end
