(* ===== verification/Utf8.thy ===== *)
theory Utf8
  imports Prelude
begin

text \<open>
  UTF-8 as the Rust standard library reads it: \<open>str::from_utf8\<close> (which byte strings are text)
  and \<open>String::from_utf8_lossy\<close> / \<open>OsStr::to_string_lossy\<close> (each maximal broken piece becomes
  one replacement character). The daemon turns every file name into a \<open>String\<close> this way.
\<close>

definition byte_in :: "nat \<Rightarrow> nat \<Rightarrow> bytes \<Rightarrow> nat \<Rightarrow> bool" where
  "byte_in lo hi s i \<longleftrightarrow> i < length s \<and> lo \<le> of_char (s ! i) \<and> of_char (s ! i) \<le> hi"

definition is_cont :: "bytes \<Rightarrow> nat \<Rightarrow> bool" where
  "is_cont s i \<longleftrightarrow> byte_in 0x80 0xBF s i"

text \<open>The bounds on the second byte of a three- or four-byte sequence.\<close>

definition second3 :: "nat \<Rightarrow> bytes \<Rightarrow> bool" where
  "second3 b s = (if b = 0xE0 then byte_in 0xA0 0xBF s 1
                  else if b = 0xED then byte_in 0x80 0x9F s 1 else is_cont s 1)"

definition second4 :: "nat \<Rightarrow> bytes \<Rightarrow> bool" where
  "second4 b s = (if b = 0xF0 then byte_in 0x90 0xBF s 1
                  else if b = 0xF4 then byte_in 0x80 0x8F s 1 else is_cont s 1)"

text \<open>How many bytes the next piece of a non-empty string takes, and whether it is a character.\<close>

definition utf8_step :: "bytes \<Rightarrow> nat \<times> bool" where
  "utf8_step s =
     (let b = of_char (hd s) :: nat
      in if b < 0x80 then (1, True)
         else if 0xC2 \<le> b \<and> b \<le> 0xDF then (if is_cont s 1 then (2, True) else (1, False))
         else if 0xE0 \<le> b \<and> b \<le> 0xEF then
           (if \<not> second3 b s then (1, False)
            else if \<not> is_cont s 2 then (2, False) else (3, True))
         else if 0xF0 \<le> b \<and> b \<le> 0xF4 then
           (if \<not> second4 b s then (1, False)
            else if \<not> is_cont s 2 then (2, False)
            else if \<not> is_cont s 3 then (3, False) else (4, True))
         else (1, False))"

lemma utf8_step_pos: "0 < fst (utf8_step s)"
  by (simp add: utf8_step_def Let_def)

lemma is_cont_length: "is_cont s i \<Longrightarrow> i < length s"
  by (simp add: is_cont_def byte_in_def)

lemma utf8_step_le:
  assumes "s \<noteq> []"
  shows "fst (utf8_step s) \<le> length s"
proof -
  have "1 \<le> length s" using assms by (cases s) auto
  moreover have "second3 b s \<Longrightarrow> 2 \<le> length s" "second4 b s \<Longrightarrow> 2 \<le> length s" for b
    by (auto simp: second3_def second4_def is_cont_def byte_in_def split: if_splits)
  ultimately show ?thesis
    using is_cont_length[of s 1] is_cont_length[of s 2] is_cont_length[of s 3]
    by (fastforce simp: utf8_step_def Let_def)
qed

definition replacement :: bytes where
  "replacement = [CHR 0xEF, CHR 0xBF, CHR 0xBD]"

function from_utf8_lossy :: "bytes \<Rightarrow> string" where
  "from_utf8_lossy [] = []"
| "from_utf8_lossy (c # s) =
     (let (n, ok) = utf8_step (c # s)
      in (if ok then take n (c # s) else replacement) @ from_utf8_lossy (drop n (c # s)))"
  by pat_completeness auto
termination
  by (relation "measure length") (use utf8_step_pos in \<open>auto, metis fst_conv diff_Suc_less length_Cons zero_less_Suc diff_less\<close>)

function valid_utf8 :: "bytes \<Rightarrow> bool" where
  "valid_utf8 [] = True"
| "valid_utf8 (c # s) = (let (n, ok) = utf8_step (c # s) in ok \<and> valid_utf8 (drop n (c # s)))"
  by pat_completeness auto
termination
  by (relation "measure length") (use utf8_step_pos in \<open>auto, metis fst_conv diff_Suc_less length_Cons zero_less_Suc diff_less\<close>)

declare from_utf8_lossy.simps(2) [simp del] valid_utf8.simps(2) [simp del]

lemma lossy_valid: "valid_utf8 s \<Longrightarrow> from_utf8_lossy s = s"
  by (induction s rule: valid_utf8.induct)
    (auto simp: from_utf8_lossy.simps(2) valid_utf8.simps(2) Let_def split: prod.splits)

lemma lossy_set: "set (from_utf8_lossy s) \<subseteq> set s \<union> set replacement"
proof (induction s rule: from_utf8_lossy.induct)
  case (2 c s)
  obtain n ok where st: "utf8_step (c # s) = (n, ok)" by fastforce
  have "set (take n (c # s)) \<subseteq> set (c # s)" "set (drop n (c # s)) \<subseteq> set (c # s)"
    by (rule set_take_subset, rule set_drop_subset)
  with 2[OF st[symmetric] refl] st show ?case
    by (auto simp: from_utf8_lossy.simps(2))
qed simp

lemma lossy_no_slash: "CHR ''/'' \<notin> set n \<Longrightarrow> CHR ''/'' \<notin> set (from_utf8_lossy n)"
  using lossy_set[of n] by (auto simp: replacement_def)

lemma lossy_no_nul: "CHR 0x00 \<notin> set n \<Longrightarrow> CHR 0x00 \<notin> set (from_utf8_lossy n)"
  using lossy_set[of n] by (auto simp: replacement_def)

lemma utf8_step_invalid: "utf8_step s = (n, False) \<Longrightarrow> n \<le> 3"
  by (auto simp: utf8_step_def Let_def split: if_splits)

text \<open>A replacement is never shorter than what it replaces.\<close>

lemma length_lossy: "length s \<le> length (from_utf8_lossy s)"
proof (induction s rule: from_utf8_lossy.induct)
  case (2 c s)
  obtain n ok where st: "utf8_step (c # s) = (n, ok)" by fastforce
  have "n \<le> length (c # s)" using st utf8_step_le[of "c # s"] by simp
  moreover have "ok \<or> n \<le> 3" using st utf8_step_invalid by (cases ok) auto
  ultimately show ?case
    using 2[OF st[symmetric] refl] st by (auto simp: from_utf8_lossy.simps(2) replacement_def)
qed simp

lemma valid_utf8_ascii: "(\<And>c. c \<in> set s \<Longrightarrow> (of_char c :: nat) < 0x80) \<Longrightarrow> valid_utf8 s"
  by (induction s) (auto simp: valid_utf8.simps(2) utf8_step_def Let_def)

lemma lossy_ascii: "(\<And>c. c \<in> set s \<Longrightarrow> (of_char c :: nat) < 0x80) \<Longrightarrow> from_utf8_lossy s = s"
  by (intro lossy_valid valid_utf8_ascii)

text \<open>Text after text is text.\<close>

lemma byte_in_append: "byte_in lo hi s i \<Longrightarrow> byte_in lo hi (s @ t) i"
  by (auto simp: byte_in_def nth_append)

lemma leads_append:
  "is_cont s i \<Longrightarrow> is_cont (s @ t) i" "second3 b s \<Longrightarrow> second3 b (s @ t)" "second4 b s \<Longrightarrow> second4 b (s @ t)"
  by (auto simp: is_cont_def second3_def second4_def byte_in_append split: if_splits)

lemma utf8_step_append:
  assumes "s \<noteq> []" "snd (utf8_step s)"
  shows "utf8_step (s @ t) = utf8_step s"
proof -
  define b where "b = (of_char (hd s) :: nat)"
  have b: "of_char (hd s) = b" "of_char (hd (s @ t)) = b" using assms(1) by (simp_all add: b_def)
  note mono = leads_append[where s = s and t = t]
  show ?thesis
    using assms(2) unfolding utf8_step_def Let_def b
    by (cases "b < 0x80"; cases "0xC2 \<le> b \<and> b \<le> 0xDF"; cases "0xE0 \<le> b \<and> b \<le> 0xEF"; cases "0xF0 \<le> b \<and> b \<le> 0xF4";
        simp only: if_True if_False simp_thms HOL.if_cancel; cases "is_cont s 1"; cases "is_cont s 2"; cases "is_cont s 3";
        cases "second3 b s"; cases "second4 b s"; simp only: if_True if_False simp_thms mono snd_conv)
qed

lemma valid_utf8_append: "valid_utf8 s \<Longrightarrow> valid_utf8 (s @ t) = valid_utf8 t"
proof (induction s rule: valid_utf8.induct)
  case (2 c s)
  obtain n ok where st: "utf8_step (c # s) = (n, ok)" by fastforce
  with 2(2) have ok: ok and v: "valid_utf8 (drop n (c # s))" by (simp_all add: valid_utf8.simps(2))
  have "utf8_step ((c # s) @ t) = (n, ok)"
    using utf8_step_append[of "c # s" t] st ok by simp
  moreover have "n \<le> length (c # s)" using utf8_step_le[of "c # s"] st by simp
  then have "drop n ((c # s) @ t) = drop n (c # s) @ t" by (simp only: drop_append diff_is_0_eq[THEN iffD2] drop_0)
  ultimately show ?case
    using 2(1)[OF st[symmetric] refl v] ok by (simp add: valid_utf8.simps(2))
qed simp

end
