(* ===== verification/Paths.thy ===== *)
theory Paths
  imports Prelude
begin

text \<open>
  Paths as the daemon handles them: \<open>std::path\<close> on Unix over raw bytes (\<open>components\<close>,
  \<open>file_name\<close>, \<open>parent\<close>, \<open>join\<close> and the equality of \<open>PathBuf\<close>), and the key under which
  the kernel finds a path (the list of names from the root; no symbolic links). The lemmas
  say how \<open>join\<close>, \<open>parent\<close> and \<open>file_name\<close> act on keys.
\<close>

type_synonym path = string
type_synonym key = "string list"

section \<open>Splitting at separators\<close>

fun split_slash :: "string \<Rightarrow> string list" where
  "split_slash [] = [[]]"
| "split_slash (c # s) =
     (if c = CHR ''/'' then [] # split_slash s
      else (case split_slash s of [] \<Rightarrow> [[c]] | p # ps \<Rightarrow> (c # p) # ps))"

fun join_slash :: "string list \<Rightarrow> string" where
  "join_slash [] = []"
| "join_slash [p] = p"
| "join_slash (p # q # ps) = p @ CHR ''/'' # join_slash (q # ps)"

lemma split_slash_not_Nil [simp]: "split_slash s \<noteq> []"
  by (induction s) (auto split: list.splits)

lemma split_slash_append: "split_slash (a @ CHR ''/'' # b) = split_slash a @ split_slash b"
  by (induction a) (auto split: list.splits simp: append_eq_Cons_conv)

lemma split_slash_plain: "CHR ''/'' \<notin> set n \<Longrightarrow> split_slash n = [n]"
  by (induction n) auto

lemma split_slash_no_slash: "p \<in> set (split_slash s) \<Longrightarrow> CHR ''/'' \<notin> set p"
  by (induction s arbitrary: p) (auto split: list.splits if_splits)

lemma split_join_slash:
  "ps \<noteq> [] \<Longrightarrow> (\<And>p. p \<in> set ps \<Longrightarrow> CHR ''/'' \<notin> set p) \<Longrightarrow> split_slash (join_slash ps) = ps"
  by (induction ps rule: join_slash.induct) (simp_all add: split_slash_plain split_slash_append)

lemma join_split_slash: "join_slash (split_slash s) = s"
proof (induction s)
  case Nil
  then show ?case by simp
next
  case (Cons c s)
  obtain p ps where s: "split_slash s = p # ps"
    using split_slash_not_Nil by (meson list.exhaust)
  with Cons.IH show ?case by (cases ps) auto
qed

section \<open>std::path\<close>

datatype component = RootDir | CurDir | ParentDir | Normal string

definition trivial :: "string \<Rightarrow> bool" where
  "trivial p \<longleftrightarrow> p = [] \<or> p = ''.''"

definition has_root :: "path \<Rightarrow> bool" where
  "has_root s \<longleftrightarrow> (case s of [] \<Rightarrow> False | c # _ \<Rightarrow> c = CHR ''/'')"

text \<open>The root separator or the leading \<open>.\<close> of a relative path, which \<open>Components\<close> keeps.\<close>

definition path_prefix :: "path \<Rightarrow> string" where
  "path_prefix s =
     (if has_root s then ''/''
      else if s = ''.'' \<or> take 2 s = ''./'' then ''.'' else [])"

definition path_body :: "path \<Rightarrow> string" where
  "path_body s = drop (length (path_prefix s)) s"

definition body_names :: "path \<Rightarrow> string list" where
  "body_names s = filter (\<lambda>p. \<not> trivial p) (split_slash (path_body s))"

definition component_of :: "string \<Rightarrow> component" where
  "component_of p = (if p = ''..'' then ParentDir else Normal p)"

definition components :: "path \<Rightarrow> component list" where
  "components s =
     (if path_prefix s = ''/'' then [RootDir] else if path_prefix s = ''.'' then [CurDir] else [])
     @ map component_of (body_names s)"

text \<open>\<open>PathBuf == PathBuf\<close> compares components, not bytes.\<close>

definition path_eq :: "path \<Rightarrow> path \<Rightarrow> bool" where
  "path_eq a b \<longleftrightarrow> components a = components b"

definition file_name :: "path \<Rightarrow> string option" where
  "file_name s =
     (case rev (body_names s) of [] \<Rightarrow> None | p # _ \<Rightarrow> if p = ''..'' then None else Some p)"

text \<open>\<open>parent\<close>: drop the last component and whatever empty or \<open>.\<close> parts stand around it.\<close>

definition strip_trivial :: "string list \<Rightarrow> string list" where
  "strip_trivial ps = rev (dropWhile trivial (rev ps))"

definition parent :: "path \<Rightarrow> path option" where
  "parent s =
     (let ps = strip_trivial (split_slash (path_body s))
      in if ps \<noteq> [] then Some (path_prefix s @ join_slash (strip_trivial (butlast ps)))
         else if path_prefix s = ''.'' then Some [] else None)"

text \<open>\<open>Path::join\<close>: an absolute argument replaces the base.\<close>

definition path_join :: "path \<Rightarrow> path \<Rightarrow> path" where
  "path_join d x =
     (if has_root x then x
      else if d \<noteq> [] \<and> last d \<noteq> CHR ''/'' then d @ CHR ''/'' # x else d @ x)"

text \<open>\<open>Path::extension\<close>, of a file name.\<close>

definition extension :: "path \<Rightarrow> string option" where
  "extension s =
     (case file_name s of None \<Rightarrow> None
      | Some n \<Rightarrow> (let suffix = takeWhile (\<lambda>c. c \<noteq> CHR ''.'') (rev n)
          in if length suffix + 1 < length n then Some (rev suffix) else None))"

text \<open>\<open>Path::with_extension\<close>: the extension of the file name is replaced, or one is added.\<close>

definition file_stem_of :: "string \<Rightarrow> string" where
  "file_stem_of n =
     (let suffix = takeWhile (\<lambda>c. c \<noteq> CHR ''.'') (rev n)
      in if length suffix + 1 < length n then take (length n - length suffix - 1) n else n)"

definition with_extension :: "path \<Rightarrow> string \<Rightarrow> path" where
  "with_extension p ext =
     (case file_name p of
        None \<Rightarrow> p
      | Some n \<Rightarrow>
          path_prefix p
          @ join_slash (butlast (strip_trivial (split_slash (path_body p))) @ [file_stem_of n])
          @ (if ext = [] then [] else CHR ''.'' # ext))"

section \<open>Keys\<close>

fun resolve :: "key \<Rightarrow> string list \<Rightarrow> key" where
  "resolve k [] = k"
| "resolve k (p # ps) =
     (if trivial p then resolve k ps
      else if p = ''..'' then resolve (butlast k) ps
      else resolve (k @ [p]) ps)"

definition path_key :: "key \<Rightarrow> path \<Rightarrow> key" where
  "path_key cwd s = resolve (if has_root s then [] else cwd) (split_slash s)"

definition normal_name :: "string \<Rightarrow> bool" where
  "normal_name n \<longleftrightarrow> n \<noteq> [] \<and> n \<noteq> ''.'' \<and> n \<noteq> ''..'' \<and> CHR ''/'' \<notin> set n"

lemma normal_nameD:
  "normal_name n \<Longrightarrow> \<not> trivial n" "normal_name n \<Longrightarrow> n \<noteq> ''..''"
  "normal_name n \<Longrightarrow> CHR ''/'' \<notin> set n" "normal_name n \<Longrightarrow> \<not> has_root n"
  by (auto simp: normal_name_def trivial_def has_root_def split: list.splits)

lemma resolve_append: "resolve k (ps @ qs) = resolve (resolve k ps) qs"
  by (induction ps arbitrary: k) auto

lemma resolve_filter: "resolve k (filter (\<lambda>p. \<not> trivial p) ps) = resolve k ps"
  by (induction ps arbitrary: k) auto

lemma resolve_trivial: "(\<And>p. p \<in> set ps \<Longrightarrow> trivial p) \<Longrightarrow> resolve k ps = k"
  by (induction ps) auto

lemma strip_trivial_append:
  obtains qs where "ps = strip_trivial ps @ qs" "\<And>q. q \<in> set qs \<Longrightarrow> trivial q"
proof
  show "ps = strip_trivial ps @ rev (takeWhile trivial (rev ps))"
    unfolding strip_trivial_def
    by (metis rev_append rev_rev_ident takeWhile_dropWhile_id)
  show "\<And>q. q \<in> set (rev (takeWhile trivial (rev ps))) \<Longrightarrow> trivial q"
    by (auto dest: set_takeWhileD)
qed

lemma resolve_strip: "resolve k (strip_trivial ps) = resolve k ps"
proof -
  obtain qs where "ps = strip_trivial ps @ qs" "\<And>q. q \<in> set qs \<Longrightarrow> trivial q"
    by (rule strip_trivial_append[of ps]) blast
  then show ?thesis by (metis resolve_append resolve_trivial)
qed

lemma strip_trivial_last: "strip_trivial ps \<noteq> [] \<Longrightarrow> \<not> trivial (last (strip_trivial ps))"
  by (metis dropWhile_eq_Nil_conv hd_dropWhile last_rev rev_is_Nil_conv strip_trivial_def)

lemma filter_strip_trivial:
  "filter (\<lambda>p. \<not> trivial p) (strip_trivial ps) = filter (\<lambda>p. \<not> trivial p) ps"
proof -
  obtain qs where "ps = strip_trivial ps @ qs" "\<And>q. q \<in> set qs \<Longrightarrow> trivial q"
    by (rule strip_trivial_append[of ps]) blast
  then show ?thesis
    by (metis (no_types, lifting) append_Nil2 filter_False filter_append)
qed

lemma path_prefix_body: "s = path_prefix s @ path_body s"
proof -
  have "take (length (path_prefix s)) s = path_prefix s"
    by (cases s; cases "tl s") (auto simp: path_prefix_def has_root_def)
  then show ?thesis unfolding path_body_def by (metis append_take_drop_id)
qed

lemma path_prefix_cases:
  obtains (root) "path_prefix s = ''/''" "has_root s"
  | (dot) "path_prefix s = ''.''" "\<not> has_root s" "path_body s = [] \<or> (\<exists>b. path_body s = CHR ''/'' # b)"
  | (none) "path_prefix s = []" "\<not> has_root s" "path_body s = s"
proof -
  have "path_body s = [] \<or> (\<exists>b. path_body s = CHR ''/'' # b)" if "path_prefix s = ''.''"
  proof -
    have "s = ''.'' \<or> take 2 s = ''./''"
      using that by (auto simp: path_prefix_def split: if_splits)
    then show ?thesis
    proof
      assume "s = ''.''"
      with that show ?thesis by (simp add: path_body_def)
    next
      assume "take 2 s = ''./''"
      then obtain b where "s = ''./'' @ b" by (metis append_take_drop_id)
      with that show ?thesis by (simp add: path_body_def)
    qed
  qed
  moreover have "path_prefix s = ''/'' \<longleftrightarrow> has_root s"
    by (simp add: path_prefix_def)
  moreover have "path_prefix s \<in> {''/'', ''.'', []}"
    by (simp add: path_prefix_def)
  moreover have "path_body s = s" if "path_prefix s = []"
    using that by (simp add: path_body_def)
  ultimately show ?thesis
    using root dot none by blast
qed

lemma path_key_body: "path_key cwd s = resolve (if has_root s then [] else cwd) (split_slash (path_body s))"
proof (cases s rule: path_prefix_cases)
  case root
  then have "s = CHR ''/'' # path_body s" using path_prefix_body[of s] by simp
  then have "split_slash s = [] # split_slash (path_body s)"
    by (metis split_slash.simps(2))
  with root show ?thesis by (simp add: path_key_def trivial_def)
next
  case dot
  then have s: "s = ''.'' @ path_body s" using path_prefix_body[of s] by simp
  from dot(3) show ?thesis
  proof
    assume "path_body s = []"
    with s dot show ?thesis by (simp add: path_key_def trivial_def)
  next
    assume "\<exists>b. path_body s = CHR ''/'' # b"
    then obtain b where b: "path_body s = CHR ''/'' # b" ..
    with s have "split_slash s = ''.'' # split_slash b"
      using split_slash_append[of "''.''" b] by simp
    with b dot show ?thesis by (simp add: path_key_def trivial_def)
  qed
next
  case none
  then show ?thesis by (simp add: path_key_def)
qed

section \<open>How path operations act on keys\<close>

lemma body_names_eq: "body_names s = filter (\<lambda>p. \<not> trivial p) (strip_trivial (split_slash (path_body s)))"
  by (simp add: body_names_def filter_strip_trivial)

lemma path_key_names: "path_key cwd s = resolve (if has_root s then [] else cwd) (body_names s)"
  by (simp add: path_key_body body_names_def resolve_filter)

lemma strip_trivial_set: "set (strip_trivial ps) \<subseteq> set ps"
  by (auto simp: strip_trivial_def dest: set_dropWhileD)

lemma file_name_last:
  assumes "file_name s = Some n"
  shows "strip_trivial (split_slash (path_body s)) \<noteq> []"
    and "last (strip_trivial (split_slash (path_body s))) = n"
    and "normal_name n"
proof -
  let ?ps = "strip_trivial (split_slash (path_body s))"
  from assms show ne: "?ps \<noteq> []"
    by (auto simp: file_name_def body_names_eq)
  then have nt: "\<not> trivial (last ?ps)" by (rule strip_trivial_last)
  have "?ps = butlast ?ps @ [last ?ps]" using ne by simp
  then have "filter (\<lambda>p. \<not> trivial p) ?ps
      = filter (\<lambda>p. \<not> trivial p) (butlast ?ps) @ filter (\<lambda>p. \<not> trivial p) [last ?ps]"
    by (metis filter_append)
  then have "body_names s = filter (\<lambda>p. \<not> trivial p) (butlast ?ps) @ [last ?ps]"
    using nt by (simp only: body_names_eq) simp
  with assms have n: "last ?ps = n \<and> n \<noteq> ''..''"
    by (auto simp: file_name_def split: if_splits)
  then show "last ?ps = n" by simp
  have "last ?ps \<in> set (split_slash (path_body s))"
    using ne strip_trivial_set by (metis last_in_set subsetD)
  with n nt show "normal_name n"
    by (auto simp: normal_name_def trivial_def dest: split_slash_no_slash)
qed

lemma body_names_split: "body_names s = filter (\<lambda>p. \<not> trivial p) (split_slash s)"
proof (cases s rule: path_prefix_cases)
  case root
  then have "s = CHR ''/'' # path_body s" using path_prefix_body[of s] by simp
  then have "split_slash s = [] # split_slash (path_body s)" by (metis split_slash.simps(2))
  then show ?thesis by (simp add: body_names_def trivial_def)
next
  case dot
  then have s: "s = ''.'' @ path_body s" using path_prefix_body[of s] by simp
  from dot(3) show ?thesis
  proof
    assume "path_body s = []"
    with s show ?thesis by (simp add: body_names_def trivial_def)
  next
    assume "\<exists>b. path_body s = CHR ''/'' # b"
    then obtain b where b: "path_body s = CHR ''/'' # b" ..
    with s have "split_slash s = ''.'' # split_slash b"
      using split_slash_append[of "''.''" b] by simp
    with b show ?thesis by (simp add: body_names_def trivial_def)
  qed
qed (simp add: body_names_def)

text \<open>A path put together from a prefix and parts names the key the parts resolve to.\<close>

lemma path_key_prefix_join:
  assumes slash: "\<And>p. p \<in> set qs \<Longrightarrow> CHR ''/'' \<notin> set p"
    and dot: "path_prefix s = ''.'' \<Longrightarrow> qs \<noteq> [] \<Longrightarrow> hd qs = []"
    and none: "path_prefix s = [] \<Longrightarrow> qs \<noteq> [] \<Longrightarrow> hd qs \<noteq> []"
    and last: "qs \<noteq> [] \<Longrightarrow> \<not> trivial (last qs)"
  shows "path_key cwd (path_prefix s @ join_slash qs) = resolve (if has_root s then [] else cwd) qs"
proof (cases "qs = []")
  case True
  then show ?thesis
    by (cases s rule: path_prefix_cases) (auto simp: path_key_def trivial_def has_root_def)
next
  case False
  have sj: "split_slash (join_slash qs) = qs"
    using False slash by (rule split_join_slash)
  show ?thesis
  proof (cases s rule: path_prefix_cases)
    case root
    with sj show ?thesis by (simp add: path_key_def has_root_def trivial_def)
  next
    case (dot)
    then have "hd qs = []" using False assms(2) by simp
    with False last obtain q qs' where qs: "qs = [] # q # qs'"
      by (cases qs; cases "tl qs") (auto simp: trivial_def)
    have sq: "split_slash (join_slash (q # qs')) = q # qs'"
      using slash qs by (intro split_join_slash) auto
    have "path_prefix s @ join_slash qs = ''.'' @ CHR ''/'' # join_slash (q # qs')"
      using dot qs by simp
    then show ?thesis
      using dot qs sq by (simp only: path_key_def split_slash_append) (simp add: has_root_def trivial_def)
  next
    case (none)
    then have "hd qs \<noteq> []" using False assms(3) by simp
    then have "\<not> has_root (join_slash qs)"
      using sj by (auto simp: has_root_def split: list.splits)
    with none sj show ?thesis by (simp add: path_key_def)
  qed
qed

text \<open>The parts a file's path consists of, up to its name.\<close>

lemma file_name_parts:
  assumes fn: "file_name s = Some n"
  defines "ps \<equiv> strip_trivial (split_slash (path_body s))"
  shows "ps = butlast ps @ [n]"
    and "p \<in> set (butlast ps) \<Longrightarrow> CHR ''/'' \<notin> set p"
    and "path_prefix s = ''.'' \<Longrightarrow> butlast ps \<noteq> [] \<and> hd (butlast ps) = []"
    and "path_prefix s = [] \<Longrightarrow> butlast ps \<noteq> [] \<Longrightarrow> hd (butlast ps) \<noteq> []"
proof -
  note ln = file_name_last[OF fn, folded ps_def]
  show ps': "ps = butlast ps @ [n]" using ln by (metis append_butlast_last_id)
  show "p \<in> set (butlast ps) \<Longrightarrow> CHR ''/'' \<notin> set p"
    using strip_trivial_set split_slash_no_slash unfolding ps_def by (meson in_set_butlastD subset_iff)
  obtain qs where qs: "split_slash (path_body s) = ps @ qs"
    using strip_trivial_append[of "split_slash (path_body s)"] unfolding ps_def by metis
  have n: "n \<noteq> []" using ln(3) by (simp add: normal_name_def)
  have hd: "hd (split_slash (path_body s)) = (if butlast ps = [] then n else hd (butlast ps))"
    using qs ps' by (metis append_Nil append_is_Nil_conv hd_append2 list.sel(1) not_Cons_self2 append_Cons)
  show "path_prefix s = ''.'' \<Longrightarrow> butlast ps \<noteq> [] \<and> hd (butlast ps) = []"
    using hd n by (cases s rule: path_prefix_cases) (auto split: if_splits)
  show "path_prefix s = [] \<Longrightarrow> butlast ps \<noteq> [] \<Longrightarrow> hd (butlast ps) \<noteq> []"
  proof (cases s rule: path_prefix_cases)
    case none
    assume "butlast ps \<noteq> []"
    moreover have "hd (split_slash s) \<noteq> []" if "s \<noteq> []"
      using that none(2) by (cases s) (auto simp: has_root_def split: list.splits)
    moreover have "s \<noteq> []"
      using ln(1) none unfolding ps_def by (auto simp: strip_trivial_def trivial_def)
    ultimately show "hd (butlast ps) \<noteq> []" using hd none by simp
  qed simp_all
qed

lemma path_key_parent:
  assumes fn: "file_name s = Some n"
  obtains d where "parent s = Some d" "path_key cwd s = path_key cwd d @ [n]"
proof -
  let ?ps = "strip_trivial (split_slash (path_body s))"
  let ?qs = "strip_trivial (butlast ?ps)"
  let ?base = "if has_root s then [] else cwd"
  note ps = file_name_last[OF fn] and parts = file_name_parts[OF fn]
  have d: "parent s = Some (path_prefix s @ join_slash ?qs)"
    using ps(1) by (simp add: parent_def Let_def)
  have hd: "butlast ?ps \<noteq> [] \<and> hd ?qs = hd (butlast ?ps)" if ne: "?qs \<noteq> []"
  proof -
    obtain ts where "butlast ?ps = ?qs @ ts" by (rule strip_trivial_append[of "butlast ?ps"]) metis
    with ne show ?thesis by (metis append_is_Nil_conv hd_append2)
  qed
  have "path_key cwd s = resolve ?base ?ps"
    by (simp add: path_key_body resolve_strip)
  also have "\<dots> = resolve (resolve ?base (butlast ?ps)) [n]"
    using parts(1) by (metis resolve_append)
  also have "\<dots> = resolve ?base ?qs @ [n]"
    using ps(3) by (simp add: normal_nameD resolve_strip)
  also have "resolve ?base ?qs = path_key cwd (path_prefix s @ join_slash ?qs)"
  proof (rule path_key_prefix_join[symmetric])
    show "\<And>p. p \<in> set ?qs \<Longrightarrow> CHR ''/'' \<notin> set p"
      using parts(2) strip_trivial_set by blast
    show "path_prefix s = ''.'' \<Longrightarrow> ?qs \<noteq> [] \<Longrightarrow> hd ?qs = []"
      using hd parts(3) by simp
    show "path_prefix s = [] \<Longrightarrow> ?qs \<noteq> [] \<Longrightarrow> hd ?qs \<noteq> []"
      using hd parts(4) by simp
    show "?qs \<noteq> [] \<Longrightarrow> \<not> trivial (last ?qs)" by (rule strip_trivial_last)
  qed
  finally show thesis using that d by blast
qed

lemma path_key_join [path_simps]:
  assumes "normal_name n"
  shows "path_key cwd (path_join d n) = path_key cwd d @ [n]"
proof -
  have n: "split_slash n = [n]" "\<not> has_root n" "\<not> trivial n" "n \<noteq> ''..''"
    using assms by (auto simp: normal_nameD split_slash_plain)
  have hr: "has_root (d @ x) = has_root d" if "d \<noteq> []" for x
    using that by (cases d) (auto simp: has_root_def)
  consider "d = []" | "d \<noteq> []" "last d \<noteq> CHR ''/''" | d' where "d = d' @ ''/''"
    by (metis append_butlast_last_id)
  then show ?thesis
  proof cases
    case 1
    with n show ?thesis by (simp add: path_join_def path_key_def has_root_def trivial_def)
  next
    case 2
    with n hr show ?thesis
      by (simp add: path_join_def path_key_def split_slash_append resolve_append)
  next
    case 3
    have "split_slash (d @ n) = split_slash d' @ [n]"
      using 3 n split_slash_append[of d' n] by simp
    moreover have "split_slash d = split_slash d' @ [[]]"
      using 3 split_slash_append[of d' "[]"] by simp
    ultimately show ?thesis
      using 3 n hr[of n] by (simp add: path_join_def path_key_def resolve_append trivial_def)
  qed
qed

lemma path_eq_key: "path_eq a b \<Longrightarrow> path_key cwd a = path_key cwd b"
proof -
  assume "path_eq a b"
  moreover have "path_prefix s = ''/'' \<longleftrightarrow> has_root s" for s
    by (simp add: path_prefix_def)
  moreover have "inj component_of"
    by (auto simp: inj_def component_of_def split: if_splits)
  moreover have "RootDir \<noteq> component_of z" "CurDir \<noteq> component_of z"
    "component_of z \<noteq> RootDir" "component_of z \<noteq> CurDir" for z
    by (simp_all add: component_of_def)
  ultimately show ?thesis
    unfolding path_eq_def components_def path_key_names
    by (auto simp: inj_map_eq_map Cons_eq_map_conv map_eq_Cons_conv split: if_splits)
qed

lemma join_slash_snoc: "join_slash (xs @ [x]) @ y = join_slash (xs @ [x @ y])"
  by (induction xs rule: join_slash.induct) auto

lemma with_extension_key:
  assumes fn: "file_name p = Some n" and x: "normal_name (file_stem_of n @ CHR ''.'' # ext)" "ext \<noteq> []"
    and d: "parent p = Some d"
  shows "path_key cwd (with_extension p ext) = path_key cwd d @ [file_stem_of n @ CHR ''.'' # ext]"
proof -
  let ?x = "file_stem_of n @ CHR ''.'' # ext"
  let ?bs = "butlast (strip_trivial (split_slash (path_body p)))"
  let ?base = "if has_root p then [] else cwd"
  note parts = file_name_parts[OF fn]
  have "with_extension p ext = path_prefix p @ join_slash (?bs @ [?x])"
    using fn x(2) by (simp add: with_extension_def join_slash_snoc)
  also have "path_key cwd \<dots> = resolve ?base (?bs @ [?x])"
  proof (rule path_key_prefix_join)
    show "\<And>q. q \<in> set (?bs @ [?x]) \<Longrightarrow> CHR ''/'' \<notin> set q"
      using parts(2) x(1) by (auto simp: normal_name_def)
    show "path_prefix p = ''.'' \<Longrightarrow> hd (?bs @ [?x]) = []"
      using parts(3) by simp
    show "path_prefix p = [] \<Longrightarrow> hd (?bs @ [?x]) \<noteq> []"
      using parts(4) by (cases "?bs = []") auto
    show "\<not> trivial (last (?bs @ [?x]))"
      using x(1) by (simp add: normal_nameD)
  qed
  also have "\<dots> = resolve ?base ?bs @ [?x]"
    using x(1) by (simp add: resolve_append normal_nameD)
  finally have w: "path_key cwd (with_extension p ext) = resolve ?base ?bs @ [?x]" .
  have "path_key cwd p = resolve ?base (?bs @ [n])"
    using parts(1) by (metis path_key_body resolve_strip)
  also have "\<dots> = resolve ?base ?bs @ [n]"
    using file_name_last(3)[OF fn] by (simp add: resolve_append normal_nameD)
  finally have "resolve ?base ?bs = path_key cwd d"
    using path_key_parent[OF fn, of cwd] d by (metis butlast_snoc option.inject)
  with w show ?thesis by simp
qed

lemma file_name_join [path_simps]:
  assumes "normal_name n"
  shows "file_name (path_join d n) = Some n"
proof -
  have n: "split_slash n = [n]" "\<not> has_root n" "\<not> trivial n" "n \<noteq> ''..''"
    using assms by (auto simp: normal_nameD split_slash_plain)
  have "\<exists>ps. split_slash (path_join d n) = ps @ [n]"
  proof (cases "d = [] \<or> last d = CHR ''/''")
    case True
    then consider "d = []" | d' where "d = d' @ ''/''" by (metis append_butlast_last_id)
    then show ?thesis
    proof cases
      case 2
      then have "split_slash (d @ n) = split_slash d' @ [n]"
        using n split_slash_append[of d' n] by simp
      with 2 n show ?thesis by (simp add: path_join_def)
    qed (use n in \<open>simp add: path_join_def\<close>)
  qed (use n in \<open>simp add: path_join_def split_slash_append\<close>)
  with n show ?thesis by (auto simp: file_name_def body_names_split)
qed

lemma parent_join_key [path_simps]:
  assumes "normal_name n"
  obtains d' where "parent (path_join d n) = Some d'" "path_key cwd d' = path_key cwd d"
  using path_key_parent[OF file_name_join[OF assms], of d cwd] path_key_join[OF assms, of cwd d]
  by (metis butlast_snoc)

section \<open>Characters of a path\<close>

lemma split_slash_set: "p \<in> set (split_slash s) \<Longrightarrow> c \<in> set p \<Longrightarrow> c \<in> set s"
proof (induction s arbitrary: p)
  case (Cons a s)
  obtain q qs where "split_slash s = q # qs" by (cases "split_slash s") auto
  with Cons show ?case by (fastforce split: if_splits)
qed simp

lemma join_slash_set: "c \<in> set (join_slash ps) \<Longrightarrow> c = CHR ''/'' \<or> (\<exists>p\<in>set ps. c \<in> set p)"
  by (induction ps rule: join_slash.induct) auto

lemma path_body_set: "c \<in> set (path_body s) \<Longrightarrow> c \<in> set s"
  by (auto simp: path_body_def dest: in_set_dropD)

lemma file_name_no_nul:
  assumes "file_name s = Some n" "CHR 0x00 \<notin> set s"
  shows "CHR 0x00 \<notin> set n"
proof -
  let ?ps = "strip_trivial (split_slash (path_body s))"
  have "n \<in> set ?ps"
    using file_name_last(1,2)[OF assms(1)] last_in_set by metis
  then have "n \<in> set (split_slash (path_body s))" using strip_trivial_set by blast
  with assms(2) show ?thesis by (blast dest: split_slash_set path_body_set)
qed

lemma parent_cases:
  assumes "parent s = Some d"
  shows "d = [] \<or> d = path_prefix s @ join_slash (strip_trivial (butlast (strip_trivial (split_slash (path_body s)))))"
  using assms by (auto simp: parent_def Let_def split: if_splits)

lemma parent_no_nul:
  assumes "parent s = Some d" "CHR 0x00 \<notin> set s"
  shows "CHR 0x00 \<notin> set d"
proof
  let ?ps = "butlast (strip_trivial (split_slash (path_body s)))"
  assume nul: "CHR 0x00 \<in> set d"
  have "CHR 0x00 \<notin> set (path_prefix s)" by (simp add: path_prefix_def)
  with nul parent_cases[OF assms(1)] have "CHR 0x00 \<in> set (join_slash (strip_trivial ?ps))" by auto
  from join_slash_set[OF this] obtain p where p: "p \<in> set (strip_trivial ?ps)" "CHR 0x00 \<in> set p" by auto
  have "p \<in> set ?ps" using p(1) strip_trivial_set by (rule subsetD[rotated])
  then have "p \<in> set (strip_trivial (split_slash (path_body s)))" by (rule in_set_butlastD)
  then have "p \<in> set (split_slash (path_body s))" by (rule subsetD[OF strip_trivial_set])
  from path_body_set[OF split_slash_set[OF this p(2)]] assms(2) show False by contradiction
qed

lemma path_join_set: "c \<in> set (path_join d x) \<Longrightarrow> c \<in> set d \<or> c = CHR ''/'' \<or> c \<in> set x"
  by (auto simp: path_join_def split: if_splits)

lemma path_join_not_Nil: "x \<noteq> [] \<Longrightarrow> path_join d x \<noteq> []"
  by (auto simp: path_join_def)

end
