(* ===== verification/World.thy ===== *)
theory World
  imports Paths
begin

text \<open>
  The world the daemon's calls act on, and how they act on it: the part of \<open>std::fs\<close> the
  sources use, over a file system of keys.

  Every call is one step at a tick of the clock. What the machine around the process does
  is the \<open>env\<close>: a fixed but arbitrary description of which call fails and how
  (\<open>e_fault\<close>), when the process is killed (\<open>e_kill\<close>), what a read returns for the bytes that
  are there (\<open>e_read\<close>: a short read, an early end of file, rotten bytes), what the medium keeps
  of a write (\<open>e_write\<close>, and \<open>e_torn\<close> bytes of it when the write fails half way), and what other
  processes do to the file system between two calls (\<open>e_other\<close>). The theorems quantify over it.

  Because \<open>e_kill\<close> is a tick, every run is finite: a loop that a hostile medium could keep
  going for ever ends as \<open>Killed\<close>, and never with a made-up result. A run that returns is
  therefore one for which \<open>e_kill\<close> is large enough, and the theorems that the daemon does return
  say how large that is.

  Not modelled: hard and symbolic links, permissions (a refused call is an \<open>e_fault\<close>), and open
  descriptors that outlive a rename of their file (a descriptor is the key it was opened under).
\<close>

section \<open>File systems\<close>

text \<open>
  A regular file carries its bytes and whether they are on stable storage: a write clears the
  mark and \<open>sync_all\<close> sets it. A socket file carries whether a process accepts on it.
\<close>

datatype node = File bytes bool | Dir | Sock bool

type_synonym fs = "(key \<times> node) list"

definition fs_children :: "fs \<Rightarrow> key \<Rightarrow> string list" where
  "fs_children f d = remdups (map last (filter (\<lambda>k. k \<noteq> [] \<and> butlast k = d) (map fst f)))"

definition fs_remove_tree :: "key \<Rightarrow> fs \<Rightarrow> fs" where
  "fs_remove_tree a f = filter (\<lambda>(k, n). \<not> prefix a k) f"

definition fs_move_tree :: "key \<Rightarrow> key \<Rightarrow> fs \<Rightarrow> fs" where
  "fs_move_tree a b f =
     map (\<lambda>(k, n). (b @ drop (length a) k, n)) (filter (\<lambda>(k, n). prefix a k) f)
     @ filter (\<lambda>(k, n). \<not> prefix a k \<and> \<not> prefix b k) f"

text \<open>Bytes written at an offset; a gap reads as zeros.\<close>

definition write_at :: "nat \<Rightarrow> bytes \<Rightarrow> bytes \<Rightarrow> bytes" where
  "write_at off s c =
     take off c @ replicate (off - length c) (CHR 0x00) @ s @ drop (off + length s) c"

definition put_data :: "key \<Rightarrow> nat \<Rightarrow> bytes \<Rightarrow> fs \<Rightarrow> fs" where
  "put_data k off s f =
     (case map_of f k of Some (File c d) \<Rightarrow> AList.update k (File (write_at off s c) False) f | _ \<Rightarrow> f)"

text \<open>The largest file the kernel accepts (\<open>off_t\<close> is signed).\<close>

definition MAX_FILE :: nat where
  "MAX_FILE = 2 ^ 63 - 1"

section \<open>The environment and the world\<close>

record statvfs =
  f_blocks :: u64
  f_bavail :: u64
  f_frsize :: u64
  f_bsize :: u64

record env =
  e_cwd :: key
  e_dev :: "key \<Rightarrow> nat"
  e_cow :: "nat \<Rightarrow> bool"
  e_dirlen :: "key \<Rightarrow> u64"
  e_kill :: nat
  e_fault :: "nat \<Rightarrow> error_kind option"
  e_read :: "nat \<Rightarrow> bytes \<Rightarrow> bytes"
  e_write :: "nat \<Rightarrow> bytes \<Rightarrow> bytes"
  e_torn :: "nat \<Rightarrow> nat"
  e_other :: "nat \<Rightarrow> fs \<Rightarrow> fs"
  e_statvfs :: "key \<Rightarrow> statvfs"
  e_strerror :: "error_kind \<Rightarrow> string"
  e_vars :: "string \<Rightarrow> string option"
  e_now :: "nat \<Rightarrow> int"
  e_date_z :: "string option"

text \<open>\<open>w_cap\<close> is what the progress callback of a transfer has captured and may change.\<close>

record 's world =
  w_env :: env
  w_fs :: fs
  w_tick :: nat
  w_cap :: 's

section \<open>Fallible, stateful computations\<close>

datatype ('e, 'a) res = Ok 'a | Err 'e | Killed

type_synonym ('e, 'a, 's) io = "'s world \<Rightarrow> ('e, 'a) res \<times> 's world"

definition ret :: "'a \<Rightarrow> ('e, 'a, 's) io" where
  "ret a w = (Ok a, w)"

definition fail :: "'e \<Rightarrow> ('e, 'a, 's) io" where
  "fail e w = (Err e, w)"

text \<open>\<open>match m { Ok(a) => f(a), Err(e) => g(e) }\<close>; a killed process does neither.\<close>

definition io_match ::
  "('e, 'a, 's) io \<Rightarrow> ('a \<Rightarrow> ('d, 'b, 's) io) \<Rightarrow> ('e \<Rightarrow> ('d, 'b, 's) io) \<Rightarrow> ('d, 'b, 's) io" where
  "io_match m f g w =
     (case m w of (Ok a, w1) \<Rightarrow> f a w1 | (Err e, w1) \<Rightarrow> g e w1 | (Killed, w1) \<Rightarrow> (Killed, w1))"

text \<open>\<open>let a = m?; f(a)\<close>\<close>

definition io_bind :: "('e, 'a, 's) io \<Rightarrow> ('a \<Rightarrow> ('e, 'b, 's) io) \<Rightarrow> ('e, 'b, 's) io" where
  "io_bind m f = io_match m f fail"

text \<open>\<open>let _ = m; f\<close>\<close>

definition io_discard :: "('d, 'a, 's) io \<Rightarrow> ('e, 'b, 's) io \<Rightarrow> ('e, 'b, 's) io" where
  "io_discard m f = io_match m (\<lambda>_. f) (\<lambda>_. f)"

definition map_err :: "('e \<Rightarrow> 'd) \<Rightarrow> ('e, 'a, 's) io \<Rightarrow> ('d, 'a, 's) io" where
  "map_err h m = io_match m ret (\<lambda>e. fail (h e))"

text \<open>\<open>m.map(h).unwrap_or(d)\<close>\<close>

definition map_unwrap_or :: "('a \<Rightarrow> 'b) \<Rightarrow> 'b \<Rightarrow> ('d, 'a, 's) io \<Rightarrow> ('e, 'b, 's) io" where
  "map_unwrap_or h d m = io_match m (\<lambda>a. ret (h a)) (\<lambda>_. ret d)"

section \<open>Calls\<close>

text \<open>One call: killed, or refused by a fault, or done on the file system as it then is.\<close>

definition sys :: "(env \<Rightarrow> nat \<Rightarrow> fs \<Rightarrow> io_error + 'a \<times> fs) \<Rightarrow> (io_error, 'a, 's) io" where
  "sys op w =
     (let E = w_env w; t = w_tick w
      in if e_kill E \<le> t then (Killed, w)
         else let f = e_other E t (w_fs w); w1 = w\<lparr>w_fs := f, w_tick := Suc t\<rparr>
              in case e_fault E t of
                   Some k \<Rightarrow> (Err (Os k), w1)
                 | None \<Rightarrow>
                     (case op E t f of
                        Inl e \<Rightarrow> (Err e, w1)
                      | Inr (a, f') \<Rightarrow> (Ok a, w1\<lparr>w_fs := f'\<rparr>)))"

text \<open>A path the kernel cannot be given, and the empty path, which names nothing.\<close>

definition at_path :: "path \<Rightarrow> env \<Rightarrow> (key \<Rightarrow> io_error + 'b) \<Rightarrow> io_error + 'b" where
  "at_path p E h =
     (if CHR 0x00 \<in> set p then Inl (Custom InvalidInput ''file name contained an unexpected NUL byte'')
      else if p = [] then Inl (Os NotFound)
      else h (path_key (e_cwd E) p))"

record meta =
  md_len :: u64
  md_is_dir :: bool
  md_is_socket :: bool
  md_dev :: nat

fun node_meta :: "env \<Rightarrow> key \<Rightarrow> node \<Rightarrow> meta" where
  "node_meta E k (File c d) = \<lparr>md_len = of_nat (length c), md_is_dir = False, md_is_socket = False, md_dev = e_dev E k\<rparr>"
| "node_meta E k Dir = \<lparr>md_len = e_dirlen E k, md_is_dir = True, md_is_socket = False, md_dev = e_dev E k\<rparr>"
| "node_meta E k (Sock b) = \<lparr>md_len = 0, md_is_dir = False, md_is_socket = True, md_dev = e_dev E k\<rparr>"

definition metadata :: "path \<Rightarrow> (io_error, meta, 's) io" where
  "metadata p = sys (\<lambda>E t f. at_path p E (\<lambda>k.
     case map_of f k of None \<Rightarrow> Inl (Os NotFound) | Some n \<Rightarrow> Inr (node_meta E k n, f)))"

text \<open>\<open>Path::exists\<close>: any error of \<open>metadata\<close> counts as absent.\<close>

definition path_exists :: "path \<Rightarrow> ('e, bool, 's) io" where
  "path_exists p = map_unwrap_or (\<lambda>_. True) False (metadata p)"

definition path_is_dir :: "path \<Rightarrow> ('e, bool, 's) io" where
  "path_is_dir p = map_unwrap_or md_is_dir False (metadata p)"

definition remove_file :: "path \<Rightarrow> (io_error, unit, 's) io" where
  "remove_file p = sys (\<lambda>E t f. at_path p E (\<lambda>k.
     case map_of f k of
       None \<Rightarrow> Inl (Os NotFound)
     | Some Dir \<Rightarrow> Inl (Os IsADirectory)
     | Some _ \<Rightarrow> Inr ((), AList.delete k f)))"

definition remove_dir_all :: "path \<Rightarrow> (io_error, unit, 's) io" where
  "remove_dir_all p = sys (\<lambda>E t f. at_path p E (\<lambda>k.
     case map_of f k of
       None \<Rightarrow> Inl (Os NotFound)
     | Some Dir \<Rightarrow> Inr ((), fs_remove_tree k f)
     | Some _ \<Rightarrow> Inl (Os NotADirectory)))"

text \<open>
  \<open>rename(2)\<close>: within one device, into an existing directory, over a file but never over a
  directory that has entries, and a directory never into itself.
\<close>

definition fs_rename :: "env \<Rightarrow> key \<Rightarrow> key \<Rightarrow> fs \<Rightarrow> io_error + fs" where
  "fs_rename E a b f =
     (case map_of f a of
        None \<Rightarrow> Inl (Os NotFound)
      | Some n \<Rightarrow>
          if a = [] \<or> b = [] then Inl (Os OtherKind)
          else if map_of f (butlast b) \<noteq> Some Dir then Inl (Os NotFound)
          else if e_dev E (butlast a) \<noteq> e_dev E (butlast b) then Inl (Os CrossesDevices)
          else if a = b then Inr f
          else (case n of
                  Dir \<Rightarrow>
                    if prefix a b then Inl (Os InvalidInput)
                    else (case map_of f b of
                            None \<Rightarrow> Inr (fs_move_tree a b f)
                          | Some Dir \<Rightarrow> if fs_children f b = [] then Inr (fs_move_tree a b f)
                                        else Inl (Os DirectoryNotEmpty)
                          | Some _ \<Rightarrow> Inl (Os NotADirectory))
                | _ \<Rightarrow>
                    (case map_of f b of
                       Some Dir \<Rightarrow> Inl (Os IsADirectory)
                     | _ \<Rightarrow> Inr (AList.update b n (AList.delete a f)))))"

definition rename :: "path \<Rightarrow> path \<Rightarrow> (io_error, unit, 's) io" where
  "rename p q = sys (\<lambda>E t f. at_path p E (\<lambda>a. at_path q E (\<lambda>b.
     case fs_rename E a b f of Inl e \<Rightarrow> Inl e | Inr f' \<Rightarrow> Inr ((), f'))))"

fun mkdirs :: "key \<Rightarrow> key \<Rightarrow> fs \<Rightarrow> io_error + fs" where
  "mkdirs p [] f = Inr f"
| "mkdirs p (n # ns) f =
     (case map_of f (p @ [n]) of
        None \<Rightarrow> mkdirs (p @ [n]) ns (AList.update (p @ [n]) Dir f)
      | Some Dir \<Rightarrow> mkdirs (p @ [n]) ns f
      | Some _ \<Rightarrow> Inl (Os (if ns = [] then AlreadyExists else NotADirectory)))"

definition create_dir_all :: "path \<Rightarrow> (io_error, unit, 's) io" where
  "create_dir_all p =
     (if p = [] then ret ()
      else sys (\<lambda>E t f. at_path p E (\<lambda>k.
        case mkdirs [] k f of Inl e \<Rightarrow> Inl e | Inr f' \<Rightarrow> Inr ((), f'))))"

text \<open>Opening: the handle is the key. \<open>open_create\<close> is write, create and truncate.\<close>

definition open_read :: "path \<Rightarrow> (io_error, key, 's) io" where
  "open_read p = sys (\<lambda>E t f. at_path p E (\<lambda>k.
     case map_of f k of
       None \<Rightarrow> Inl (Os NotFound) | Some (Sock b) \<Rightarrow> Inl (Os OtherKind) | Some _ \<Rightarrow> Inr (k, f)))"

definition open_write :: "path \<Rightarrow> (io_error, key, 's) io" where
  "open_write p = sys (\<lambda>E t f. at_path p E (\<lambda>k.
     case map_of f k of
       None \<Rightarrow> Inl (Os NotFound) | Some Dir \<Rightarrow> Inl (Os IsADirectory)
     | Some (Sock b) \<Rightarrow> Inl (Os OtherKind) | Some (File c d) \<Rightarrow> Inr (k, f)))"

definition open_create :: "path \<Rightarrow> (io_error, key, 's) io" where
  "open_create p = sys (\<lambda>E t f. at_path p E (\<lambda>k.
     case map_of f k of
       None \<Rightarrow> if k \<noteq> [] \<and> map_of f (butlast k) = Some Dir
               then Inr (k, AList.update k (File [] False) f) else Inl (Os NotFound)
     | Some Dir \<Rightarrow> Inl (Os IsADirectory)
     | Some (Sock b) \<Rightarrow> Inl (Os OtherKind)
     | Some (File c d) \<Rightarrow> Inr (k, AList.update k (File [] False) f)))"

text \<open>\<open>seek\<close>, and \<open>posix_fadvise\<close>: a call that changes nothing a later call can see.\<close>

definition no_effect :: "(io_error, unit, 's) io" where
  "no_effect = sys (\<lambda>E t f. Inr ((), f))"

text \<open>
  One \<open>read\<close> into a buffer of \<open>n\<close> bytes at an offset. The medium may return any bytes for
  those that are there, and fewer of them, and none at all.
\<close>

definition read_at :: "key \<Rightarrow> nat \<Rightarrow> nat \<Rightarrow> (io_error, bytes, 's) io" where
  "read_at k off n = sys (\<lambda>E t f.
     case map_of f k of
       Some (File c d) \<Rightarrow> Inr (take n (e_read E t (drop off c)), f)
     | Some Dir \<Rightarrow> Inl (Os IsADirectory)
     | _ \<Rightarrow> Inr (take n (e_read E t []), f))"

text \<open>\<open>write_all\<close> at an offset. It may fail with part of the bytes written.\<close>

definition write_all :: "key \<Rightarrow> nat \<Rightarrow> bytes \<Rightarrow> (io_error, unit, 's) io" where
  "write_all k off b w =
     (let E = w_env w; t = w_tick w; s = e_write E t b
      in if e_kill E \<le> t then (Killed, w\<lparr>w_fs := put_data k off (take (e_torn E t) s) (w_fs w)\<rparr>)
         else let f = e_other E t (w_fs w); w1 = w\<lparr>w_fs := f, w_tick := Suc t\<rparr>
              in if MAX_FILE < off + length b then (Err (Os FileTooLarge), w1)
                 else case e_fault E t of
                        Some kd \<Rightarrow> (Err (Os kd), w1\<lparr>w_fs := put_data k off (take (e_torn E t) s) f\<rparr>)
                      | None \<Rightarrow> (Ok (), w1\<lparr>w_fs := put_data k off s f\<rparr>))"

definition sync_all :: "key \<Rightarrow> (io_error, unit, 's) io" where
  "sync_all k = sys (\<lambda>E t f.
     case map_of f k of
       Some (File c d) \<Rightarrow> Inr ((), AList.update k (File c True) f) | _ \<Rightarrow> Inr ((), f))"

text \<open>\<open>ioctl(dst, FICLONE, src)\<close>: both on one device that can share extents.\<close>

definition ficlone :: "key \<Rightarrow> key \<Rightarrow> (io_error, unit, 's) io" where
  "ficlone d s = sys (\<lambda>E t f.
     if e_dev E d \<noteq> e_dev E s \<or> \<not> e_cow E (e_dev E d) then Inl (Os OtherKind)
     else case (map_of f s, map_of f d) of
            (Some (File c b), Some (File c' b')) \<Rightarrow> Inr ((), AList.update d (File c False) f)
          | _ \<Rightarrow> Inl (Os OtherKind))"

text \<open>\<open>fs::read\<close> and \<open>fs::write\<close>.\<close>

definition fs_read :: "path \<Rightarrow> (io_error, bytes, 's) io" where
  "fs_read p = sys (\<lambda>E t f. at_path p E (\<lambda>k.
     case map_of f k of
       None \<Rightarrow> Inl (Os NotFound) | Some Dir \<Rightarrow> Inl (Os IsADirectory)
     | Some (Sock b) \<Rightarrow> Inl (Os OtherKind) | Some (File c d) \<Rightarrow> Inr (e_read E t c, f)))"

definition fs_write :: "path \<Rightarrow> bytes \<Rightarrow> (io_error, unit, 's) io" where
  "fs_write p b = io_bind (open_create p) (\<lambda>k. write_all k 0 b)"

definition read_dir :: "path \<Rightarrow> (io_error, string list, 's) io" where
  "read_dir p = sys (\<lambda>E t f. at_path p E (\<lambda>k.
     case map_of f k of
       None \<Rightarrow> Inl (Os NotFound) | Some Dir \<Rightarrow> Inr (fs_children f k, f)
     | Some _ \<Rightarrow> Inl (Os NotADirectory)))"

text \<open>\<open>canonicalize\<close>: with no symbolic links, the absolute spelling of the key.\<close>

definition key_path :: "key \<Rightarrow> path" where
  "key_path k = CHR ''/'' # join_slash k"

definition canonicalize :: "path \<Rightarrow> (io_error, path, 's) io" where
  "canonicalize p = sys (\<lambda>E t f. at_path p E (\<lambda>k.
     case map_of f k of None \<Rightarrow> Inl (Os NotFound) | Some _ \<Rightarrow> Inr (key_path k, f)))"

text \<open>The call of the progress closure: it changes what it captured, and nothing else.\<close>

definition on_cap :: "('s \<Rightarrow> 's) \<Rightarrow> ('e, unit, 's) io" where
  "on_cap h w = (Ok (), w\<lparr>w_cap := h (w_cap w)\<rparr>)"

definition get_env :: "('e, env, 's) io" where
  "get_env w = (Ok (w_env w), w)"

definition get_tick :: "('e, nat, 's) io" where
  "get_tick w = (Ok (w_tick w), w)"

text \<open>The text of an error, as \<open>Display\<close> gives it.\<close>

fun show_io_error :: "env \<Rightarrow> io_error \<Rightarrow> string" where
  "show_io_error E (Os k) = e_strerror E k"
| "show_io_error E (Custom k s) = s"

text \<open>
  Losing power: bytes that were never made durable come back as the medium pleases
  (\<open>keep\<close>); durable files stay.
\<close>

definition power_loss :: "(key \<Rightarrow> bytes \<Rightarrow> bytes) \<Rightarrow> fs \<Rightarrow> fs" where
  "power_loss keep f =
     map (\<lambda>(k, n). (k, case n of File c False \<Rightarrow> File (keep k c) False | _ \<Rightarrow> n)) f"

end
