(* ===== verification/Tier.thy ===== *)
theory Tier
  imports Utf8 World
begin

text \<open>
  \<open>daemon/src/tier.rs\<close> and \<open>daemon/src/error.rs\<close>: what was established about a committed file,
  the order on it, the words shown for it, and the errors of a transfer with their texts.
\<close>

section \<open>Verification tiers\<close>

datatype verification_tier = SharedExtents | Checksummed | SizeChecked

fun strength :: "verification_tier \<Rightarrow> u8" where
  "strength SharedExtents = 3"
| "strength Checksummed = 2"
| "strength SizeChecked = 1"

definition weakest :: "verification_tier \<Rightarrow> verification_tier \<Rightarrow> verification_tier" where
  "weakest a b = (if strength a \<le> strength b then a else b)"

fun tier_label :: "verification_tier \<Rightarrow> string" where
  "tier_label SharedExtents = ''Shared extents''"
| "tier_label Checksummed = ''Checksummed''"
| "tier_label SizeChecked = ''Size checked''"

fun tier_detail :: "verification_tier \<Rightarrow> u64 \<Rightarrow> string" where
  "tier_detail SharedExtents bytes = ''same data as the source '' @ em_dash @ '' cannot diverge''"
| "tier_detail Checksummed bytes = ''bytes read back and matched the source''"
| "tier_detail SizeChecked bytes = show_nat (unat bytes) @ '' bytes, exactly as expected''"

lemma strength_inject: "strength a = strength b \<longleftrightarrow> a = b"
  by (cases a; cases b) auto

text \<open>The tiers form a linear order by strength, and \<open>weakest\<close> is its minimum.\<close>

instantiation verification_tier :: linorder
begin

definition less_eq_verification_tier :: "verification_tier \<Rightarrow> verification_tier \<Rightarrow> bool" where
  "less_eq_verification_tier a b \<longleftrightarrow> strength a \<le> strength b"

definition less_verification_tier :: "verification_tier \<Rightarrow> verification_tier \<Rightarrow> bool" where
  "less_verification_tier a b \<longleftrightarrow> strength a < strength b"

instance
proof
  fix a b c :: verification_tier
  show "(a < b) = (a \<le> b \<and> \<not> b \<le> a)" "a \<le> a" "a \<le> b \<or> b \<le> a"
    by (auto simp: less_eq_verification_tier_def less_verification_tier_def)
  show "a \<le> b \<Longrightarrow> b \<le> c \<Longrightarrow> a \<le> c"
    by (simp add: less_eq_verification_tier_def)
  show "a \<le> b \<Longrightarrow> b \<le> a \<Longrightarrow> a = b"
    using strength_inject by (auto simp: less_eq_verification_tier_def)
qed

end

lemma weakest_min: "weakest a b = min a b"
  by (simp add: weakest_def min_def less_eq_verification_tier_def)

lemma tier_order: "SizeChecked < Checksummed" "Checksummed < SharedExtents"
  by (simp_all add: less_verification_tier_def)

section \<open>Errors of a transfer\<close>

datatype transfer_error =
    SizeMismatch path u64 u64
  | ChecksumMismatch path
  | Io io_error

fun show_transfer_error :: "env \<Rightarrow> transfer_error \<Rightarrow> string" where
  "show_transfer_error E (SizeMismatch p expected got) =
     from_utf8_lossy p @ '': expected '' @ show_nat (unat expected) @ '' bytes, got ''
     @ show_nat (unat got) @ '' '' @ em_dash @ '' nothing was written''"
| "show_transfer_error E (ChecksumMismatch p) =
     from_utf8_lossy p @ '': checksum mismatch on retry '' @ em_dash @ '' nothing was written''"
| "show_transfer_error E (Io e) = show_io_error E e"

text \<open>The \<open>?\<close> that turns an \<open>io::Error\<close> into a \<open>TransferError\<close>.\<close>

abbreviation try_io :: "(io_error, 'a, 's) io \<Rightarrow> (transfer_error, 'a, 's) io" where
  "try_io \<equiv> map_err Io"

end
