(* ===== verification/Logic.thy ===== *)
theory Logic
  imports World
begin

text \<open>
  Hoare triples for the calls of the world, with one postcondition per way a computation can
  end (returned, failed, killed), and the frame and update rules of every call. The rules
  speak about the \<open>view\<close> of a set of keys: what those keys hold, when no other process
  touches them.
\<close>

section \<open>Triples\<close>

definition triple ::
  "('s world \<Rightarrow> bool) \<Rightarrow> ('e, 'a, 's) io \<Rightarrow> ('a \<Rightarrow> 's world \<Rightarrow> bool) \<Rightarrow> ('e \<Rightarrow> 's world \<Rightarrow> bool)
    \<Rightarrow> ('s world \<Rightarrow> bool) \<Rightarrow> bool" where
  "triple P m Q X C \<longleftrightarrow>
     (\<forall>w. P w \<longrightarrow> (case m w of (Ok a, w1) \<Rightarrow> Q a w1 | (Err e, w1) \<Rightarrow> X e w1 | (Killed, w1) \<Rightarrow> C w1))"

lemma tripleI:
  "(\<And>w r w1. P w \<Longrightarrow> m w = (r, w1) \<Longrightarrow> (case r of Ok a \<Rightarrow> Q a w1 | Err e \<Rightarrow> X e w1 | Killed \<Rightarrow> C w1))
   \<Longrightarrow> triple P m Q X C"
  by (auto simp: triple_def split: prod.split res.split)

lemma tripleD:
  assumes "triple P m Q X C" "P w"
  shows "m w = (Ok a, w1) \<Longrightarrow> Q a w1" "m w = (Err e, w1) \<Longrightarrow> X e w1" "m w = (Killed, w1) \<Longrightarrow> C w1"
  using assms by (auto simp: triple_def split: prod.splits res.splits)

lemma triple_conseq:
  assumes "triple P' m Q' X' C'"
    and "\<And>w. P w \<Longrightarrow> P' w" "\<And>a w. Q' a w \<Longrightarrow> Q a w" "\<And>e w. X' e w \<Longrightarrow> X e w" "\<And>w. C' w \<Longrightarrow> C w"
  shows "triple P m Q X C"
  using assms by (fastforce simp: triple_def split: prod.splits res.splits)

lemma triple_pre: "triple P' m Q X C \<Longrightarrow> (\<And>w. P w \<Longrightarrow> P' w) \<Longrightarrow> triple P m Q X C"
  by (auto simp: triple_def)

lemma triple_ex:
  assumes "\<And>x. triple (P x) m Q X C"
  shows "triple (\<lambda>w. \<exists>x. P x w) m Q X C"
proof (rule tripleI)
  fix w r w1
  assume "\<exists>x. P x w" and run: "m w = (r, w1)"
  then obtain x where "P x w" by blast
  from tripleD[OF assms this] run show "case r of Ok a \<Rightarrow> Q a w1 | Err e \<Rightarrow> X e w1 | Killed \<Rightarrow> C w1"
    by (cases r) auto
qed

lemma triple_conj: "(p \<Longrightarrow> triple P m Q X C) \<Longrightarrow> triple (\<lambda>w. p \<and> P w) m Q X C"
  by (auto simp: triple_def)

lemma triple_ret: "(\<And>w. P w \<Longrightarrow> Q a w) \<Longrightarrow> triple P (ret a) Q X C"
  by (simp add: triple_def ret_def)

lemma triple_fail: "(\<And>w. P w \<Longrightarrow> X e w) \<Longrightarrow> triple P (fail e) Q X C"
  by (simp add: triple_def fail_def)

lemma triple_match:
  assumes "triple P m R S C" "\<And>a. triple (R a) (f a) Q X C" "\<And>e. triple (S e) (g e) Q X C"
  shows "triple P (io_match m f g) Q X C"
  using assms by (fastforce simp: triple_def io_match_def split: prod.splits res.splits)

lemma triple_bind:
  assumes "triple P m R X C" "\<And>a. triple (R a) (f a) Q X C"
  shows "triple P (io_bind m f) Q X C"
  unfolding io_bind_def by (rule triple_match[OF assms]) (rule triple_fail)

lemma triple_discard:
  assumes "triple P m R S C" "\<And>a. triple (R a) f Q X C" "\<And>e. triple (S e) f Q X C"
  shows "triple P (io_discard m f) Q X C"
  unfolding io_discard_def by (rule triple_match[OF assms])

lemma triple_map_err:
  assumes "triple P m Q (\<lambda>e. X (h e)) C"
  shows "triple P (map_err h m) Q X C"
  unfolding map_err_def by (rule triple_match[OF assms]) (auto intro: triple_ret triple_fail)

lemma triple_on_cap:
  assumes "\<And>w. P w \<Longrightarrow> Q () (w\<lparr>w_cap := h (w_cap w)\<rparr>)"
  shows "triple P (on_cap h) Q X C"
  using assms by (simp add: triple_def on_cap_def)

lemma triple_if:
  "(b \<Longrightarrow> triple P m Q X C) \<Longrightarrow> (\<not> b \<Longrightarrow> triple P n Q X C) \<Longrightarrow> triple P (if b then m else n) Q X C"
  by simp

lemma triple_option:
  "(r = None \<Longrightarrow> triple P m Q X C) \<Longrightarrow> (\<And>a. r = Some a \<Longrightarrow> triple P (n a) Q X C) \<Longrightarrow>
   triple P (case r of None \<Rightarrow> m | Some a \<Rightarrow> n a) Q X C"
  by (cases r) auto

section \<open>The view of a set of keys\<close>

definition quiet :: "env \<Rightarrow> key set \<Rightarrow> bool" where
  "quiet E S \<longleftrightarrow> (\<forall>t f. \<forall>k\<in>S. map_of (e_other E t f) k = map_of f k)"

definition view :: "env \<Rightarrow> key set \<Rightarrow> (key \<Rightarrow> node option) \<Rightarrow> 's world \<Rightarrow> bool" where
  "view E S g w \<longleftrightarrow> w_env w = E \<and> quiet E S \<and> (\<forall>k\<in>S. map_of (w_fs w) k = g k)"

definition keeps :: "env \<Rightarrow> key set \<Rightarrow> (key \<Rightarrow> node option) \<Rightarrow> ('e, 'a, 's) io \<Rightarrow> bool" where
  "keeps E S g m \<longleftrightarrow> triple (view E S g) m (\<lambda>_. view E S g) (\<lambda>_. view E S g) (view E S g)"

lemma keeps_triple:
  assumes "keeps E S g m" "\<And>w. view E S g w \<Longrightarrow> C w" "\<And>e w. view E S g w \<Longrightarrow> X e w"
  shows "triple (view E S g) m (\<lambda>_. view E S g) X C"
  by (rule triple_conseq[OF assms(1)[unfolded keeps_def]]) (use assms in auto)

lemma quiet_mono: "quiet E S \<Longrightarrow> T \<subseteq> S \<Longrightarrow> quiet E T"
  by (auto simp: quiet_def)

lemma view_mono: "view E S g w \<Longrightarrow> T \<subseteq> S \<Longrightarrow> view E T g w"
  by (auto simp: view_def intro: quiet_mono)

lemma view_cong: "view E S g w \<Longrightarrow> (\<And>k. k \<in> S \<Longrightarrow> g k = h k) \<Longrightarrow> view E S h w"
  by (auto simp: view_def)

lemma view_start: "quiet (w_env w) S \<Longrightarrow> view (w_env w) S (map_of (w_fs w)) w"
  by (simp add: view_def)

lemma view_look: "view E S g w \<Longrightarrow> k \<in> S \<Longrightarrow> map_of (w_fs w) k = g k"
  by (simp add: view_def)

lemma view_UNIV: "view E UNIV g w \<Longrightarrow> map_of (w_fs w) = g"
  by (auto simp: view_def)

lemma view_cap [simp]: "view E S g (w\<lparr>w_cap := c\<rparr>) = view E S g w"
  by (simp add: view_def)

lemma view_forget: "view E S (g(k := n)) w \<Longrightarrow> view E (S - {k}) g w"
  by (auto simp: view_def intro: quiet_mono)

lemma view_outside [simp]: "view E (S - {k}) (g(k := n)) w = view E (S - {k}) g w"
  by (auto simp: view_def)

text \<open>One call: every rule below is an instance.\<close>

lemma triple_sys:
  fixes Q :: "'a \<Rightarrow> 's world \<Rightarrow> bool"
  assumes op: "\<And>t w. view E S g w \<Longrightarrow>
      (case op E t (w_fs w) of Inl e \<Rightarrow> X e w | Inr (a, f') \<Rightarrow> Q a (w\<lparr>w_fs := f'\<rparr>))"
    and X: "\<And>k w. view E S g w \<Longrightarrow> X (Os k) w"
    and C: "\<And>w. view E S g w \<Longrightarrow> C w"
  shows "triple (view E S g) (sys op) Q X C"
proof (rule tripleI)
  fix w :: "'s world" and r w1
  assume v: "view E S g w" and run: "sys op w = (r, w1)"
  let ?f = "e_other (w_env w) (w_tick w) (w_fs w)"
  let ?w = "w\<lparr>w_fs := ?f, w_tick := Suc (w_tick w)\<rparr>"
  have v1: "view E S g ?w" using v by (auto simp: view_def quiet_def)
  have E: "w_env w = E" using v by (simp add: view_def)
  show "case r of Ok a \<Rightarrow> Q a w1 | Err e \<Rightarrow> X e w1 | Killed \<Rightarrow> C w1"
    using run E C[OF v] X[OF v1] op[OF v1, of "w_tick w"]
    by (auto simp: sys_def Let_def split: if_splits option.splits sum.splits)
qed

lemma keeps_sys:
  assumes "\<And>t f a f' k. quiet E S \<Longrightarrow> (\<And>k. k \<in> S \<Longrightarrow> map_of f k = g k) \<Longrightarrow>
      op E t f = Inr (a, f') \<Longrightarrow> k \<in> S \<Longrightarrow> map_of f' k = map_of f k"
  shows "keeps E S g (sys op)"
  unfolding keeps_def
proof (rule triple_sys)
  fix t and w :: "'b world"
  assume v: "view E S g w"
  then have q: "quiet E S" and f: "\<And>k. k \<in> S \<Longrightarrow> map_of (w_fs w) k = g k"
    by (auto simp: view_def)
  have "map_of f' k = g k" if "op E t (w_fs w) = Inr (a, f')" "k \<in> S" for a f' k
    using assms[OF q f that] f that(2) by simp
  with v show "case op E t (w_fs w) of Inl e \<Rightarrow> view E S g w | Inr (a, f') \<Rightarrow> view E S g (w\<lparr>w_fs := f'\<rparr>)"
    by (auto simp: view_def split: sum.split)
qed auto

lemma keeps_ret [triple_intro]: "keeps E S g (ret a)"
  by (simp add: keeps_def triple_ret)

lemma keeps_fail [triple_intro]: "keeps E S g (fail e)"
  by (simp add: keeps_def triple_fail)

lemma keeps_match [triple_intro]:
  "keeps E S g m \<Longrightarrow> (\<And>a. keeps E S g (f a)) \<Longrightarrow> (\<And>e. keeps E S g (h e)) \<Longrightarrow> keeps E S g (io_match m f h)"
  unfolding keeps_def by (rule triple_match)

lemma keeps_bind [triple_intro]:
  "keeps E S g m \<Longrightarrow> (\<And>a. keeps E S g (f a)) \<Longrightarrow> keeps E S g (io_bind m f)"
  unfolding keeps_def by (rule triple_bind)

lemma keeps_discard [triple_intro]: "keeps E S g m \<Longrightarrow> keeps E S g f \<Longrightarrow> keeps E S g (io_discard m f)"
  unfolding keeps_def by (rule triple_discard)

lemma keeps_map_err [triple_intro]: "keeps E S g m \<Longrightarrow> keeps E S g (map_err h m)"
  unfolding keeps_def by (rule triple_map_err)

lemma keeps_map_unwrap_or [triple_intro]: "keeps E S g m \<Longrightarrow> keeps E S g (map_unwrap_or h d m)"
  unfolding map_unwrap_or_def by (intro triple_intro)

lemma keeps_on_cap [triple_intro]: "keeps E S g (on_cap h)"
  unfolding keeps_def by (rule triple_on_cap) simp

lemma keeps_get_env [triple_intro]: "keeps E S g get_env"
  by (simp add: keeps_def triple_def get_env_def)

lemma keeps_get_tick [triple_intro]: "keeps E S g get_tick"
  by (simp add: keeps_def triple_def get_tick_def)

lemma keeps_if [triple_intro]: "keeps E S g m \<Longrightarrow> keeps E S g n \<Longrightarrow> keeps E S g (if b then m else n)"
  by simp

lemma at_path_Inr: "at_path p E h = Inr x \<Longrightarrow> h (path_key (e_cwd E) p) = Inr x"
  by (simp add: at_path_def split: if_splits)

lemma at_path_ok: "p \<noteq> [] \<Longrightarrow> CHR 0x00 \<notin> set p \<Longrightarrow> at_path p E h = h (path_key (e_cwd E) p)"
  by (simp add: at_path_def)

section \<open>Calls that change nothing\<close>

lemma keeps_metadata [triple_intro]: "keeps E S g (metadata p)"
  unfolding metadata_def by (rule keeps_sys) (auto dest!: at_path_Inr split: option.splits)

lemma keeps_path_exists [triple_intro]: "keeps E S g (path_exists p)"
  unfolding path_exists_def by (intro triple_intro)

lemma keeps_path_is_dir [triple_intro]: "keeps E S g (path_is_dir p)"
  unfolding path_is_dir_def by (intro triple_intro)

lemma keeps_open_read [triple_intro]: "keeps E S g (open_read p)"
  unfolding open_read_def by (rule keeps_sys) (auto dest!: at_path_Inr split: option.splits node.splits)

lemma keeps_open_write [triple_intro]: "keeps E S g (open_write p)"
  unfolding open_write_def by (rule keeps_sys) (auto dest!: at_path_Inr split: option.splits node.splits)

lemma keeps_no_effect [triple_intro]: "keeps E S g no_effect"
  unfolding no_effect_def by (rule keeps_sys) auto

lemma keeps_read_at [triple_intro]: "keeps E S g (read_at k off n)"
  unfolding read_at_def by (rule keeps_sys) (auto split: option.splits node.splits)

lemma keeps_fs_read [triple_intro]: "keeps E S g (fs_read p)"
  unfolding fs_read_def by (rule keeps_sys) (auto dest!: at_path_Inr split: option.splits node.splits)

lemma keeps_read_dir [triple_intro]: "keeps E S g (read_dir p)"
  unfolding read_dir_def by (rule keeps_sys) (auto dest!: at_path_Inr split: option.splits node.splits)

lemma keeps_canonicalize [triple_intro]: "keeps E S g (canonicalize p)"
  unfolding canonicalize_def by (rule keeps_sys) (auto dest!: at_path_Inr split: option.splits)

section \<open>Calls that change keys outside the view\<close>

lemma keeps_remove_file [triple_intro]:
  "path_key (e_cwd E) p \<notin> S \<Longrightarrow> keeps E S g (remove_file p)"
  unfolding remove_file_def
  by (rule keeps_sys) (auto dest!: at_path_Inr split: option.splits node.splits)

lemma keeps_open_create [triple_intro]:
  "path_key (e_cwd E) p \<notin> S \<Longrightarrow> keeps E S g (open_create p)"
  unfolding open_create_def
  by (rule keeps_sys) (auto dest!: at_path_Inr split: option.splits node.splits if_splits)

lemma map_of_put_data: "k' \<noteq> k \<Longrightarrow> map_of (put_data k off s f) k' = map_of f k'"
  by (auto simp: put_data_def split: option.splits node.splits)

lemma map_of_put_data_same:
  "map_of f k = Some (File c d) \<Longrightarrow> map_of (put_data k off s f) k = Some (File (write_at off s c) False)"
  by (simp add: put_data_def)

lemma keeps_write_all [triple_intro]: "k \<notin> S \<Longrightarrow> keeps E S g (write_all k off b)"
  unfolding keeps_def
proof (rule tripleI)
  fix w :: "'c world" and r w1
  assume "k \<notin> S" "view E S g w" "write_all k off b w = (r, w1)"
  moreover from this have "x \<in> S \<Longrightarrow> x \<noteq> k" for x by auto
  ultimately show "case r of Ok a \<Rightarrow> view E S g w1 | Err e \<Rightarrow> view E S g w1 | Killed \<Rightarrow> view E S g w1"
    by (auto simp: write_all_def Let_def view_def quiet_def map_of_put_data
        split: if_splits option.splits)
qed

lemma keeps_sync_all [triple_intro]: "k \<notin> S \<Longrightarrow> keeps E S g (sync_all k)"
  unfolding sync_all_def by (rule keeps_sys) (auto split: option.splits node.splits)

lemma keeps_ficlone [triple_intro]: "d \<notin> S \<Longrightarrow> keeps E S g (ficlone d s)"
  unfolding ficlone_def by (rule keeps_sys) (auto split: option.splits node.splits if_splits)

lemma keeps_fs_write [triple_intro]:
  assumes "path_key (e_cwd E) p \<notin> S"
  shows "keeps E S g (fs_write p b)"
proof -
  have "triple (view E S g) (open_create p) (\<lambda>k w. k = path_key (e_cwd E) p \<and> view E S g w)
      (\<lambda>_. view E S g) (view E S g :: 's world \<Rightarrow> bool)"
    unfolding open_create_def
    by (rule triple_sys)
      (use assms in \<open>auto simp: at_path_def view_def split: sum.splits option.splits node.splits if_splits\<close>)
  then show ?thesis
    unfolding keeps_def fs_write_def
    by (rule triple_bind) (rule triple_conj, insert assms keeps_write_all, auto simp: keeps_def)
qed

lemma map_of_move_tree:
  "map_of (fs_move_tree a b f) k =
     (if prefix b k \<and> map_of f (a @ drop (length b) k) \<noteq> None then map_of f (a @ drop (length b) k)
      else if prefix a k \<or> prefix b k then None else map_of f k)"
proof -
  have 1: "map_of (map (\<lambda>(k, n). (b @ drop (length a) k, n)) (filter (\<lambda>(k, n). prefix a k) f)) k =
      (if prefix b k then map_of f (a @ drop (length b) k) else None)"
    by (induction f) (auto simp: prefix_def)
  show ?thesis
    unfolding fs_move_tree_def map_add_def map_of_append 1 map_of_filter_key
    by (auto split: option.splits)
qed

lemma keeps_rename [triple_intro]:
  assumes "\<And>k. k \<in> S \<Longrightarrow> \<not> prefix (path_key (e_cwd E) p) k \<and> \<not> prefix (path_key (e_cwd E) q) k"
  shows "keeps E S g (rename p q)"
  unfolding rename_def
proof (rule keeps_sys)
  fix t f a f' k
  assume "at_path p E (\<lambda>a. at_path q E (\<lambda>b. case fs_rename E a b f of Inl e \<Rightarrow> Inl e | Inr f' \<Rightarrow> Inr ((), f')))
      = Inr (a, f')" and k: "k \<in> S"
  then have r: "fs_rename E (path_key (e_cwd E) p) (path_key (e_cwd E) q) f = Inr f'"
    by (auto dest!: at_path_Inr split: sum.splits)
  have "k \<noteq> path_key (e_cwd E) p" "k \<noteq> path_key (e_cwd E) q" using assms[OF k] by auto
  then show "map_of f' k = map_of f k"
    using r assms[OF k]
    by (auto simp: fs_rename_def map_of_move_tree split: option.splits node.splits if_splits)
qed

lemma keeps_remove_dir_all [triple_intro]:
  assumes "\<And>k. k \<in> S \<Longrightarrow> \<not> prefix (path_key (e_cwd E) p) k"
  shows "keeps E S g (remove_dir_all p)"
  unfolding remove_dir_all_def
  by (rule keeps_sys)
    (use assms in \<open>auto dest!: at_path_Inr simp: fs_remove_tree_def map_of_filter_key split: option.splits node.splits\<close>)

section \<open>Calls that change a key of the view\<close>

lemma view_update:
  "view E S g w \<Longrightarrow> k \<in> S \<Longrightarrow> view E S (g(k \<mapsto> n)) (w\<lparr>w_fs := AList.update k n (w_fs w)\<rparr>)"
  by (auto simp: view_def)

lemma view_delete:
  "view E S g w \<Longrightarrow> k \<in> S \<Longrightarrow> view E S (g(k := None)) (w\<lparr>w_fs := AList.delete k (w_fs w)\<rparr>)"
  by (auto simp: view_def)

lemma view_put_data:
  "view E S g w \<Longrightarrow> k \<in> S \<Longrightarrow> g k = Some (File c d) \<Longrightarrow>
   view E S (g(k \<mapsto> File (write_at off s c) False)) (w\<lparr>w_fs := put_data k off s (w_fs w)\<rparr>)"
  by (auto simp: view_def put_data_def)

lemma view_meddle:
  "view E S g w \<Longrightarrow> view E S g (w\<lparr>w_fs := e_other E t (w_fs w), w_tick := t'\<rparr>)"
  by (auto simp: view_def quiet_def)

lemma view_weaken: "view E S g w \<Longrightarrow> view E (S - T) g w"
  by (rule view_mono) auto

lemma triple_metadata:
  assumes "path_key (e_cwd E) p = k" "k \<in> S"
  shows "triple (view E S g) (metadata p)
    (\<lambda>m w. (\<exists>n. g k = Some n \<and> m = node_meta E k n) \<and> view E S g w) (\<lambda>_. view E S g) (view E S g)"
  unfolding metadata_def
  by (rule triple_sys)
    (use assms in \<open>auto simp: at_path_def view_def split: sum.splits option.splits if_splits\<close>)

lemma triple_path_exists:
  assumes "path_key (e_cwd E) p = k" "k \<in> S"
  shows "triple (view E S g) (path_exists p)
    (\<lambda>b w. (b \<longrightarrow> g k \<noteq> None) \<and> view E S g w) (\<lambda>_. view E S g) (view E S g)"
  unfolding path_exists_def map_unwrap_or_def
  by (rule triple_match[OF triple_metadata[OF assms]]) (auto simp: triple_def ret_def)

lemma triple_open_read:
  assumes "path_key (e_cwd E) p = k"
  shows "triple (view E S g) (open_read p) (\<lambda>h w. h = k \<and> view E S g w) (\<lambda>_. view E S g) (view E S g)"
  unfolding open_read_def
  by (rule triple_sys)
    (use assms in \<open>auto simp: at_path_def view_def split: sum.splits option.splits node.splits if_splits\<close>)

lemma triple_open_write:
  assumes "path_key (e_cwd E) p = k" "k \<in> S"
  shows "triple (view E S g) (open_write p)
    (\<lambda>h w. (h = k \<and> (\<exists>c d. g k = Some (File c d))) \<and> view E S g w) (\<lambda>_. view E S g) (view E S g)"
  unfolding open_write_def
  by (rule triple_sys)
    (use assms in \<open>auto simp: at_path_def view_def split: sum.splits option.splits node.splits if_splits\<close>)

lemma triple_open_create:
  assumes "path_key (e_cwd E) p = k" "k \<in> S"
  shows "triple (view E S g) (open_create p)
    (\<lambda>h w. h = k \<and> view E S (g(k \<mapsto> File [] False)) w) (\<lambda>_. view E S g) (view E S g)"
  unfolding open_create_def
  by (rule triple_sys)
    (use assms in \<open>auto simp: at_path_def view_update split: sum.splits option.splits node.splits if_splits\<close>)

lemma triple_write_all:
  assumes k: "k \<in> S" "g k = Some (File c d)"
  shows "triple (view E S g) (write_all k off b)
    (\<lambda>_ w. \<exists>t. off + length b \<le> MAX_FILE \<and> view E S (g(k \<mapsto> File (write_at off (e_write E t b) c) False)) w)
    (\<lambda>_. view E (S - {k}) g) (view E (S - {k}) g)"
proof (rule tripleI)
  fix w :: "'a world" and r w1
  assume v: "view E S g w" and run: "write_all k off b w = (r, w1)"
  have E: "w_env w = E" using v by (simp add: view_def)
  let ?w = "w\<lparr>w_fs := e_other E (w_tick w) (w_fs w), w_tick := Suc (w_tick w)\<rparr>"
  have v1: "view E S g ?w" by (rule view_meddle[OF v])
  have put: "view E (S - {k}) g (?w\<lparr>w_fs := put_data k off s (w_fs ?w)\<rparr>)"
    "view E (S - {k}) g (w\<lparr>w_fs := put_data k off s (w_fs w)\<rparr>)" for s
    using view_put_data[OF v1 k, of off s] view_put_data[OF v k, of off s] by (auto dest: view_forget)
  show "case r of
      Ok a \<Rightarrow> \<exists>t. off + length b \<le> MAX_FILE \<and> view E S (g(k \<mapsto> File (write_at off (e_write E t b) c) False)) w1
    | Err e \<Rightarrow> view E (S - {k}) g w1 | Killed \<Rightarrow> view E (S - {k}) g w1"
    using run E put view_weaken[OF v1] view_put_data[OF v1 k, of off "e_write E (w_tick w) b"]
    by (auto simp: write_all_def Let_def split: if_splits option.splits)
qed

lemma triple_sync_all:
  assumes "k \<in> S" "g k = Some (File c d)"
  shows "triple (view E S g) (sync_all k)
    (\<lambda>_. view E S (g(k \<mapsto> File c True))) (\<lambda>_. view E S g) (view E S g)"
  unfolding sync_all_def
  by (rule triple_sys) (use assms in \<open>auto simp: view_look view_update\<close>)

lemma triple_remove_file:
  assumes "path_key (e_cwd E) p = k" "k \<in> S"
  shows "triple (view E S g) (remove_file p)
    (\<lambda>_. view E S (g(k := None))) (\<lambda>_. view E S g) (view E S g)"
  unfolding remove_file_def
  by (rule triple_sys)
    (use assms in \<open>auto simp: at_path_def view_delete split: sum.splits option.splits node.splits if_splits\<close>)

lemma triple_ficlone:
  assumes "d \<in> S" "s \<in> S"
  shows "triple (view E S g) (ficlone d s)
    (\<lambda>_ w. \<exists>c. (\<exists>b. g s = Some (File c b)) \<and> view E S (g(d \<mapsto> File c False)) w) (\<lambda>_. view E S g) (view E S g)"
  unfolding ficlone_def
  by (rule triple_sys)
    (use assms in \<open>auto simp: view_look split: sum.splits option.splits node.splits if_splits intro!: view_update exI\<close>)

lemma triple_rename_file:
  assumes "path_key (e_cwd E) p = a" "path_key (e_cwd E) q = b" "a \<in> S" "b \<in> S" "a \<noteq> b"
    and "g a = Some (File c d)"
  shows "triple (view E S g) (rename p q)
    (\<lambda>_. view E S (g(a := None, b \<mapsto> File c d))) (\<lambda>_. view E S g) (view E S g)"
  unfolding rename_def
proof (rule triple_sys)
  fix t and w :: "'a world"
  assume v: "view E S g w"
  then have a: "map_of (w_fs w) a = Some (File c d)" using assms by (simp add: view_look)
  have "view E S (g(a := None, b \<mapsto> File c d)) (w\<lparr>w_fs := AList.update b (File c d) (AList.delete a (w_fs w))\<rparr>)"
    using v assms(3-5) by (auto simp: view_def)
  with v a assms show "case at_path p E (\<lambda>a. at_path q E (\<lambda>b.
      case fs_rename E a b (w_fs w) of Inl e \<Rightarrow> Inl e | Inr f' \<Rightarrow> Inr ((), f'))) of
      Inl e \<Rightarrow> view E S g w | Inr (x, f') \<Rightarrow> view E S (g(a := None, b \<mapsto> File c d)) (w\<lparr>w_fs := f'\<rparr>)"
    by (auto simp: at_path_def fs_rename_def split: option.splits node.splits sum.splits)
qed auto

end
