(* ===== verification/FsOps.thy ===== *)
theory FsOps
  imports Tier Logic
begin

text \<open>
  \<open>daemon/src/fs_ops.rs\<close>: the primitives the engine sequences, with the rules the engine's
  proofs use: which keys each of them can change, and under which key the temporary file of a
  destination stands.
\<close>

section \<open>Definitions\<close>

definition drop_cache :: "key \<Rightarrow> ('e, unit, 's) io" where
  "drop_cache k = io_discard no_effect (ret ())"

definition try_reflink_into_temp :: "path \<Rightarrow> path \<Rightarrow> (io_error, bool, 's) io" where
  "try_reflink_into_temp src temp =
     io_bind (open_read src) (\<lambda>s.
     io_bind (open_create temp) (\<lambda>d.
     io_match (ficlone d s)
       (\<lambda>_. io_bind (sync_all d) (\<lambda>_. ret True))
       (\<lambda>_. io_discard (remove_file temp) (ret False))))"

definition dir_of :: "path \<Rightarrow> path" where
  "dir_of p = (case parent p of None \<Rightarrow> ''/'' | Some d \<Rightarrow> d)"

definition same_filesystem :: "path \<Rightarrow> path \<Rightarrow> (io_error, bool, 's) io" where
  "same_filesystem a b =
     (let da = dir_of a; db = dir_of b
      in io_bind (metadata da) (\<lambda>ma. io_bind (metadata db) (\<lambda>mb. ret (md_dev ma = md_dev mb))))"

definition temp_name :: "string \<Rightarrow> string" where
  "temp_name name = ''.omafile-'' @ name @ ''.part''"

definition temp_path_for :: "path \<Rightarrow> path" where
  "temp_path_for dst =
     (let dir = dir_of dst;
          name = (case file_name dst of None \<Rightarrow> [] | Some n \<Rightarrow> from_utf8_lossy n)
      in path_join dir (temp_name name))"

section \<open>Names\<close>

lemma temp_name_inject [simp]: "temp_name a = temp_name b \<longleftrightarrow> a = b"
  by (simp add: temp_name_def)

lemma normal_temp_name: "CHR ''/'' \<notin> set n \<Longrightarrow> normal_name (temp_name n)"
  by (simp add: normal_name_def temp_name_def)

lemma temp_name_longer: "length n < length (temp_name n)"
  by (simp add: temp_name_def)

text \<open>The destination and its temporary file are two names in one directory.\<close>

lemma key_of_file:
  assumes "file_name dst = Some n"
  shows "path_key cwd dst = path_key cwd (dir_of dst) @ [n]"
proof -
  obtain d where "parent dst = Some d" "path_key cwd dst = path_key cwd d @ [n]"
    by (rule path_key_parent[OF assms])
  then show ?thesis by (simp add: dir_of_def)
qed

lemma key_of_temp:
  assumes "file_name dst = Some n"
  shows "path_key cwd (temp_path_for dst) = path_key cwd (dir_of dst) @ [temp_name (from_utf8_lossy n)]"
proof -
  have "CHR ''/'' \<notin> set n"
    using file_name_last(3)[OF assms] by (simp add: normal_name_def)
  then have "normal_name (temp_name (from_utf8_lossy n))"
    by (intro normal_temp_name lossy_no_slash)
  with assms show ?thesis by (simp add: temp_path_for_def Let_def path_key_join)
qed

lemma temp_is_not_destination:
  assumes "file_name dst = Some n"
  shows "path_key cwd (temp_path_for dst) \<noteq> path_key cwd dst"
proof -
  have "length n < length (temp_name (from_utf8_lossy n))"
    using length_lossy[of n] temp_name_longer[of "from_utf8_lossy n"] by simp
  then show ?thesis by (auto simp: key_of_file[OF assms] key_of_temp[OF assms])
qed

section \<open>What the primitives keep\<close>

lemma keeps_drop_cache [triple_intro]: "keeps E S g (drop_cache k)"
  unfolding drop_cache_def by (intro triple_intro)

lemma keeps_same_filesystem [triple_intro]: "keeps E S g (same_filesystem a b)"
  unfolding same_filesystem_def Let_def by (intro triple_intro)

end
