(* ===== verification/Journal.thy ===== *)
theory Journal
  imports FsOps
begin

text \<open>
  \<open>daemon/src/journal.rs\<close>: one JSON file per unfinished transfer, named by the hash of the
  destination. SHA-256 (crate \<open>sha2\<close>) and the JSON codec (crate \<open>serde_json\<close>) are not part of
  this repository: they are the fields of \<open>crates\<close>, an argument of every definition that uses
  them. Encoding can fail (a path that is not text).
\<close>

section \<open>Entries and the crates they need\<close>

record entry =
  en_source :: path
  en_destination :: path
  en_temp :: path
  en_expected_size :: u64
  en_bytes_done :: u64
  en_checksum_requested :: bool

record crates =
  sha256 :: "bytes \<Rightarrow> bytes"
  to_json :: "entry \<Rightarrow> io_error + bytes"
  from_json :: "bytes \<Rightarrow> entry option"

record journal =
  j_dir :: path

section \<open>Operations\<close>

text \<open>\<open>{:x}\<close> of a digest.\<close>

definition hex_lower :: "nat \<Rightarrow> char" where
  "hex_lower d = (if d < 10 then char_of (48 + d) else char_of (87 + d))"

definition show_hex :: "bytes \<Rightarrow> string" where
  "show_hex s = concat (map (\<lambda>b. [hex_lower (of_char b div 16), hex_lower (of_char b mod 16)]) s)"

definition open_at :: "path \<Rightarrow> (io_error, journal, 's) io" where
  "open_at dir = io_bind (create_dir_all dir) (\<lambda>_. ret \<lparr>j_dir = dir\<rparr>)"

definition open_default :: "(io_error, journal, 's) io" where
  "open_default =
     io_bind get_env (\<lambda>E.
       let base = (case e_vars E ''XDG_STATE_HOME'' of
                     Some v \<Rightarrow> v
                   | None \<Rightarrow> path_join (case e_vars E ''HOME'' of Some h \<Rightarrow> h | None \<Rightarrow> []) ''.local/state'')
       in open_at (path_join base ''omafile/journal''))"

definition path_for :: "crates \<Rightarrow> journal \<Rightarrow> path \<Rightarrow> path" where
  "path_for D J destination = path_join (j_dir J) (show_hex (sha256 D destination) @ ''.json'')"

definition journal_record :: "crates \<Rightarrow> journal \<Rightarrow> entry \<Rightarrow> (io_error, unit, 's) io" where
  "journal_record D J e =
     (let p = path_for D J (en_destination e);
          tmp = with_extension p ''json.part''
      in case to_json D e of
           Inl er \<Rightarrow> fail er
         | Inr b \<Rightarrow>
             io_bind (fs_write tmp b) (\<lambda>_.
             io_bind (open_read tmp) (\<lambda>f.
             io_bind (sync_all f) (\<lambda>_.
             rename tmp p))))"

definition journal_get :: "crates \<Rightarrow> journal \<Rightarrow> path \<Rightarrow> ('e, entry option, 's) io" where
  "journal_get D J destination =
     io_match (fs_read (path_for D J destination)) (\<lambda>raw. ret (from_json D raw)) (\<lambda>_. ret None)"

definition journal_clear :: "crates \<Rightarrow> journal \<Rightarrow> path \<Rightarrow> (io_error, unit, 's) io" where
  "journal_clear D J destination =
     io_match (remove_file (path_for D J destination))
       (\<lambda>_. ret ())
       (\<lambda>e. if error_kind_of e = NotFound then ret () else fail e)"

primrec unfinished_loop ::
  "crates \<Rightarrow> journal \<Rightarrow> string list \<Rightarrow> entry list \<Rightarrow> (io_error, entry list, 's) io" where
  "unfinished_loop D J [] out = ret out"
| "unfinished_loop D J (n # ns) out =
     (let p = path_join (j_dir J) n
      in if extension p \<noteq> Some ''json'' then unfinished_loop D J ns out
         else io_match (fs_read p)
                (\<lambda>raw. case from_json D raw of
                         Some en \<Rightarrow> unfinished_loop D J ns (out @ [en])
                       | None \<Rightarrow> unfinished_loop D J ns out)
                (\<lambda>_. unfinished_loop D J ns out))"

definition unfinished :: "crates \<Rightarrow> journal \<Rightarrow> (io_error, entry list, 's) io" where
  "unfinished D J = io_bind (read_dir (j_dir J)) (\<lambda>names. unfinished_loop D J names [])"

section \<open>Where the journal writes\<close>

lemma show_hex_Cons:
  "show_hex (b # s) = hex_lower (of_char b div 16) # hex_lower (of_char b mod 16) # show_hex s"
  by (simp add: show_hex_def)

lemma of_char_hex_lower:
  "d < 16 \<Longrightarrow> (of_char (hex_lower d) :: nat) = (if d < 10 then 48 + d else 87 + d)"
  by (simp add: hex_lower_def)

lemma hex_lower_plain:
  assumes "d < 16"
  shows "hex_lower d \<noteq> CHR ''/''" "hex_lower d \<noteq> CHR ''.''" "hex_lower d \<noteq> CHR 0x00"
proof -
  have "(of_char (hex_lower d) :: nat) \<notin> {0, 46, 47}"
    using of_char_hex_lower[OF assms] by (auto split: if_splits)
  then show "hex_lower d \<noteq> CHR ''/''" "hex_lower d \<noteq> CHR ''.''" "hex_lower d \<noteq> CHR 0x00"
    by auto
qed

lemma of_char_nibbles: "of_char (b :: char) div 16 < (16 :: nat)" "of_char (b :: char) mod 16 < (16 :: nat)"
  by (simp_all add: less_mult_imp_div_less)

lemma show_hex_plain:
  "c \<in> set (show_hex s) \<Longrightarrow> c \<noteq> CHR ''/'' \<and> c \<noteq> CHR ''.'' \<and> c \<noteq> CHR 0x00"
proof (induction s)
  case Nil
  then show ?case by (simp add: show_hex_def)
next
  case (Cons b s)
  then show ?case by (auto simp: show_hex_Cons hex_lower_plain of_char_nibbles)
qed

text \<open>Both files the journal touches for a destination are names in its directory.\<close>

lemma file_stem_json: "CHR ''.'' \<notin> set h \<Longrightarrow> h \<noteq> [] \<Longrightarrow> file_stem_of (h @ ''.json'') = h"
  by (simp add: file_stem_of_def)

lemma normal_name_dotted:
  "CHR ''/'' \<notin> set h \<Longrightarrow> CHR ''/'' \<notin> set x \<Longrightarrow> 2 \<le> length x \<Longrightarrow> normal_name (h @ CHR ''.'' # x)"
  by (cases h; cases x) (auto simp: normal_name_def)

lemma path_for_key:
  "path_key cwd (path_for D J dst) = path_key cwd (j_dir J) @ [show_hex (sha256 D dst) @ ''.json'']"
proof -
  have "normal_name (show_hex (sha256 D dst) @ CHR ''.'' # ''json'')"
    using show_hex_plain by (intro normal_name_dotted) auto
  then show ?thesis by (simp add: path_for_def path_key_join)
qed

lemma journal_tmp_key:
  "\<exists>n. path_key cwd (with_extension (path_for D J dst) ''json.part'') = path_key cwd (j_dir J) @ [n]"
proof -
  let ?h = "show_hex (sha256 D dst)"
  let ?n = "?h @ CHR ''.'' # ''json''"
  have n: "normal_name ?n"
    using show_hex_plain by (intro normal_name_dotted) auto
  have fn: "file_name (path_for D J dst) = Some ?n"
    using file_name_join[OF n] by (simp add: path_for_def)
  have "CHR ''/'' \<notin> set (file_stem_of ?n)"
  proof -
    have "set (file_stem_of ?n) \<subseteq> set ?n"
      by (auto simp: file_stem_of_def Let_def dest: in_set_takeD)
    with n show ?thesis by (auto simp: normal_name_def)
  qed
  then have x: "normal_name (file_stem_of ?n @ CHR ''.'' # ''json.part'')"
    by (intro normal_name_dotted) auto
  obtain d' where "parent (path_for D J dst) = Some d'" "path_key cwd d' = path_key cwd (j_dir J)"
    using parent_join_key[OF n, of "j_dir J" cwd] by (auto simp: path_for_def)
  with with_extension_key[OF fn x] show ?thesis by auto
qed

section \<open>What the journal keeps\<close>

text \<open>A set of keys away from the journal: none of them in or under its directory.\<close>

definition apart :: "env \<Rightarrow> journal \<Rightarrow> key set \<Rightarrow> bool" where
  "apart E J S \<longleftrightarrow> (\<forall>k\<in>S. \<not> prefix (path_key (e_cwd E) (j_dir J)) k)"

lemma apart_file:
  "apart E J S \<Longrightarrow> k \<in> S \<Longrightarrow> \<not> prefix (path_key (e_cwd E) (j_dir J) @ [n]) k"
  by (auto simp: apart_def dest: append_prefixD)

lemma apart_path_for: "apart E J S \<Longrightarrow> k \<in> S \<Longrightarrow> \<not> prefix (path_key (e_cwd E) (path_for D J dst)) k"
  by (simp add: path_for_key apart_file)

lemma apart_tmp:
  "apart E J S \<Longrightarrow> k \<in> S \<Longrightarrow> \<not> prefix (path_key (e_cwd E) (with_extension (path_for D J dst) ''json.part'')) k"
  by (metis apart_def apart_file journal_tmp_key)

lemma not_prefix_notin: "(\<And>k. k \<in> S \<Longrightarrow> \<not> prefix x k) \<Longrightarrow> x \<notin> S"
  by blast

lemma keeps_journal_clear [triple_intro]: "apart E J S \<Longrightarrow> keeps E S g (journal_clear D J dst)"
  unfolding journal_clear_def
  by (intro triple_intro not_prefix_notin) (auto simp: apart_path_for)

lemma keeps_journal_get [triple_intro]: "keeps E S g (journal_get D J dst)"
  unfolding journal_get_def by (intro triple_intro)

lemma keeps_open_read_then:
  assumes "path_key (e_cwd E) p \<notin> S" "keeps E S g m"
  shows "keeps E S g (io_bind (open_read p) (\<lambda>f. io_bind (sync_all f) (\<lambda>_. m)))"
  unfolding keeps_def
proof (rule triple_bind[OF triple_open_read[OF refl]], rule triple_conj)
  fix f assume "f = path_key (e_cwd E) p"
  with assms have "keeps E S g (io_bind (sync_all f) (\<lambda>_. m))" by (intro triple_intro) auto
  then show "triple (view E S g) (io_bind (sync_all f) (\<lambda>_. m)) (\<lambda>_. view E S g) (\<lambda>_. view E S g) (view E S g)"
    by (simp add: keeps_def)
qed

lemma keeps_journal_record [triple_intro]:
  assumes "apart E J S"
  shows "keeps E S g (journal_record D J en)"
proof -
  let ?p = "path_for D J (en_destination en)"
  let ?tmp = "with_extension ?p ''json.part''"
  have tmp: "path_key (e_cwd E) ?tmp \<notin> S"
    using apart_tmp[OF assms] by (intro not_prefix_notin)
  have rn: "keeps E S g (rename ?tmp ?p)"
    using apart_tmp[OF assms] apart_path_for[OF assms] by (intro triple_intro) auto
  show ?thesis
    unfolding journal_record_def Let_def
    by (cases "to_json D en") (auto intro!: triple_intro tmp rn keeps_open_read_then)
qed

end
