(* ===== verification/Engine.thy ===== *)
theory Engine
  imports Journal
begin

text \<open>
  \<open>daemon/src/engine.rs\<close>: the transfer engine, definition by definition. A transfer resolves its
  conflict, fills a temporary file (by a reflink or by streaming through the journal), checks the
  size, optionally reads both files back and compares digests, and commits by one rename.

  The progress closure \<open>on_progress\<close> is a function on what it captured (the \<open>w_cap\<close> of the
  world); sizes and counts are \<open>u64\<close>, so their additions wrap.
\<close>

section \<open>Options and outcomes\<close>

datatype conflict = Skip | Replace | KeepBoth

record options =
  opt_checksum :: bool
  opt_on_conflict :: conflict

definition default_options :: options where
  "default_options = \<lparr>opt_checksum = False, opt_on_conflict = Skip\<rparr>"

datatype outcome =
    Moved path
  | Copied verification_tier u64 bool path
  | SkippedExisting

datatype phase = Copying | Verifying

type_synonym 's progress = "phase \<Rightarrow> u64 \<Rightarrow> u64 \<Rightarrow> 's \<Rightarrow> 's"

definition CHUNK :: nat where
  "CHUNK = 4 * 2 ^ 20"

section \<open>A free name\<close>

text \<open>A \<open>for n in lo..hi\<close> that returns at the first free candidate.\<close>

function first_free :: "(nat \<Rightarrow> ('e, bool, 's) io) \<Rightarrow> nat \<Rightarrow> nat \<Rightarrow> ('e, nat option, 's) io" where
  "first_free free n hi =
     (if n < hi then io_bind (free n) (\<lambda>b. if b then ret (Some n) else first_free free (Suc n) hi)
      else ret None)"
  by pat_completeness auto
termination
  by (relation "measure (\<lambda>(free, n, hi). hi - n)") auto

declare first_free.simps [simp del]

text \<open>\<open>name.rfind('.')\<close> at a position above 0 splits off an extension.\<close>

definition split_extension :: "string \<Rightarrow> string \<times> string" where
  "split_extension name =
     (let suffix = takeWhile (\<lambda>c. c \<noteq> CHR ''.'') (rev name);
          i = length name - length suffix - 1
      in if length suffix < length name \<and> 0 < i then (take i name, drop i name) else (name, []))"

definition beside_name :: "string \<Rightarrow> nat \<Rightarrow> string" where
  "beside_name name n =
     (case split_extension name of (stem, ext) \<Rightarrow> stem @ ''-'' @ show_nat n @ ext)"

definition beside_candidate :: "path \<Rightarrow> nat \<Rightarrow> path" where
  "beside_candidate dst n =
     (let dir = (case parent dst of None \<Rightarrow> ''.'' | Some d \<Rightarrow> d);
          name = (case file_name dst of None \<Rightarrow> [] | Some x \<Rightarrow> from_utf8_lossy x)
      in path_join dir (beside_name name n))"

definition free_name_beside :: "path \<Rightarrow> (transfer_error, path, 's) io" where
  "free_name_beside dst =
     io_bind (first_free (\<lambda>n. io_bind (path_exists (beside_candidate dst n)) (\<lambda>b. ret (\<not> b))) 2 10000)
       (\<lambda>r. case r of
          Some n \<Rightarrow> ret (beside_candidate dst n)
        | None \<Rightarrow> fail (Io (Custom AlreadyExists ''no free name beside the destination'')))"

section \<open>Streaming\<close>

lemma sys_Ok:
  assumes "sys op w = (Ok a, w1)"
  shows "w_tick w < e_kill (w_env w)" "w_tick w1 = Suc (w_tick w)" "w_env w1 = w_env w"
    "w_cap w1 = w_cap w"
  using assms by (auto simp: sys_def Let_def split: if_splits option.splits sum.splits)

lemma read_at_Ok:
  assumes "read_at k off n w = (Ok a, w1)"
  shows "w_tick w < e_kill (w_env w)" "w_tick w1 = Suc (w_tick w)" "w_env w1 = w_env w"
    "w_cap w1 = w_cap w" "length a \<le> n"
proof -
  from assms show "w_tick w < e_kill (w_env w)" "w_tick w1 = Suc (w_tick w)" "w_env w1 = w_env w"
    "w_cap w1 = w_cap w"
    unfolding read_at_def by (rule sys_Ok)+
  from assms show "length a \<le> n"
    by (auto simp: read_at_def sys_def Let_def split: if_splits option.splits node.splits)
qed

lemma write_all_Ok:
  assumes "write_all k off b w = (Ok a, w1)"
  shows "w_tick w1 = Suc (w_tick w)" "w_env w1 = w_env w" "w_cap w1 = w_cap w"
    "off + length b \<le> MAX_FILE"
  using assms by (auto simp: write_all_def Let_def split: if_splits option.splits)

lemma read_at_decreases:
  assumes "read_at k off n w = (Ok a, w1)"
  shows "e_kill (w_env w1) - w_tick w1 < e_kill (w_env w) - w_tick w"
  using read_at_Ok[OF assms] by simp

lemma write_all_decreases:
  assumes "write_all k off b w = (Ok a, w1)"
  shows "e_kill (w_env w1) - w_tick w1 \<le> e_kill (w_env w) - w_tick w"
  using write_all_Ok[OF assms] by simp

text \<open>
  The loop of \<open>stream\<close>. Both descriptors stand at \<open>pos\<close>: they start at the same offset and
  advance by the bytes read. Every round takes two ticks, so the loop ends by \<open>e_kill\<close>.
\<close>

function stream_loop ::
  "key \<Rightarrow> key \<Rightarrow> nat \<Rightarrow> u64 \<Rightarrow> u64 \<Rightarrow> 's progress \<Rightarrow> (transfer_error, u64, 's) io" where
  "stream_loop fi fo pos tot expected on_progress w =
     (case read_at fi pos CHUNK w of
        (Err e, w1) \<Rightarrow> (Err (Io e), w1)
      | (Killed, w1) \<Rightarrow> (Killed, w1)
      | (Ok buf, w1) \<Rightarrow>
          if buf = [] then (Ok tot, w1)
          else (case write_all fo pos buf w1 of
                  (Err e, w2) \<Rightarrow> (Err (Io e), w2)
                | (Killed, w2) \<Rightarrow> (Killed, w2)
                | (Ok _, w2) \<Rightarrow>
                    let tot' = tot + of_nat (length buf)
                    in stream_loop fi fo (pos + length buf) tot' expected on_progress
                         (w2\<lparr>w_cap := on_progress Copying tot' expected (w_cap w2)\<rparr>)))"
  by pat_completeness auto
termination
  by (relation "measure (\<lambda>(fi, fo, pos, tot, expected, on_progress, w). e_kill (w_env w) - w_tick w)")
    (auto dest!: sym[of "(_, _)"] dest: read_at_decreases write_all_decreases
       intro: le_less_trans[OF write_all_decreases read_at_decreases])

declare stream_loop.simps [simp del]

definition stream ::
  "path \<Rightarrow> path \<Rightarrow> u64 \<Rightarrow> u64 \<Rightarrow> 's progress \<Rightarrow> (transfer_error, u64, 's) io" where
  "stream src temp from expected on_progress =
     io_bind (try_io (open_read src)) (\<lambda>fi.
     io_bind (try_io (if 0 < from then open_write temp else open_create temp)) (\<lambda>fo.
     io_bind (if 0 < from then io_bind (try_io no_effect) (\<lambda>_. try_io no_effect) else ret ()) (\<lambda>_.
     io_bind (stream_loop fi fo (unat from) from expected on_progress) (\<lambda>tot.
     io_bind (try_io (sync_all fo)) (\<lambda>_.
     ret tot)))))"

section \<open>Verification\<close>

text \<open>
  The loop of \<open>hash_file_reporting\<close>: the digest of what was fed in pieces is the digest of their
  concatenation, which the loop gathers.
\<close>

function hash_loop ::
  "key \<Rightarrow> nat \<Rightarrow> bytes \<Rightarrow> u64 \<Rightarrow> u64 \<Rightarrow> u64 \<Rightarrow> 's progress \<Rightarrow> (transfer_error, bytes, 's) io" where
  "hash_loop f pos fed hashed tot offset on_progress w =
     (case read_at f pos CHUNK w of
        (Err e, w1) \<Rightarrow> (Err (Io e), w1)
      | (Killed, w1) \<Rightarrow> (Killed, w1)
      | (Ok buf, w1) \<Rightarrow>
          if buf = [] then (Ok fed, w1)
          else let hashed' = hashed + of_nat (length buf);
                   w2 = (if 0 < tot
                         then w1\<lparr>w_cap := on_progress Verifying (offset + hashed') tot (w_cap w1)\<rparr>
                         else w1)
               in hash_loop f (pos + length buf) (fed @ buf) hashed' tot offset on_progress w2)"
  by pat_completeness auto
termination
  by (relation "measure (\<lambda>(f, pos, fed, hashed, tot, offset, on_progress, w). e_kill (w_env w) - w_tick w)")
    (auto dest: read_at_decreases[OF sym])

declare hash_loop.simps [simp del]

definition hash_file_reporting ::
  "crates \<Rightarrow> path \<Rightarrow> u64 \<Rightarrow> u64 \<Rightarrow> 's progress \<Rightarrow> (transfer_error, bytes, 's) io" where
  "hash_file_reporting D p tot offset on_progress =
     io_bind (try_io (open_read p)) (\<lambda>f.
     io_bind (drop_cache f) (\<lambda>_.
     io_bind (hash_loop f 0 [] 0 tot offset on_progress) (\<lambda>fed.
     ret (sha256 D fed))))"

text \<open>\<open>for attempt in 0..2\<close>: true as soon as one attempt finds the digests equal.\<close>

fun verify_attempts ::
  "crates \<Rightarrow> path \<Rightarrow> path \<Rightarrow> u64 \<Rightarrow> u64 \<Rightarrow> 's progress \<Rightarrow> nat list \<Rightarrow> (transfer_error, bool, 's) io" where
  "verify_attempts D src temp tsize tot on_progress [] = ret False"
| "verify_attempts D src temp tsize tot on_progress (attempt # rest) =
     io_bind (hash_file_reporting D src tot 0 on_progress) (\<lambda>want.
     io_bind (hash_file_reporting D temp tot tsize on_progress) (\<lambda>got.
     if want = got then ret True else verify_attempts D src temp tsize tot on_progress rest))"

text \<open>Discarding a temporary file and its journal entry before reporting an error.\<close>

definition discard_temp ::
  "crates \<Rightarrow> journal \<Rightarrow> path \<Rightarrow> path \<Rightarrow> transfer_error \<Rightarrow> (transfer_error, 'a, 's) io" where
  "discard_temp D J temp dst e =
     io_discard (remove_file temp) (io_discard (journal_clear D J dst) (fail e))"

definition verify_with_retry_reporting ::
  "crates \<Rightarrow> journal \<Rightarrow> path \<Rightarrow> path \<Rightarrow> path \<Rightarrow> 's progress \<Rightarrow> (transfer_error, unit, 's) io" where
  "verify_with_retry_reporting D J src temp dst on_progress =
     io_bind (map_unwrap_or md_len 0 (metadata temp)) (\<lambda>tsize.
     let tot = saturating_mul tsize 2
     in io_bind (verify_attempts D src temp tsize tot on_progress [0, 1]) (\<lambda>ok.
        if ok then ret () else discard_temp D J temp dst (ChecksumMismatch dst)))"

definition verify_with_retry ::
  "crates \<Rightarrow> journal \<Rightarrow> path \<Rightarrow> path \<Rightarrow> path \<Rightarrow> (transfer_error, unit, 's) io" where
  "verify_with_retry D J src temp dst = verify_with_retry_reporting D J src temp dst (\<lambda>_ _ _ s. s)"

section \<open>Copying\<close>

definition resume_offset ::
  "crates \<Rightarrow> journal \<Rightarrow> path \<Rightarrow> path \<Rightarrow> u64 \<Rightarrow> bool \<Rightarrow> ('e, u64, 's) io" where
  "resume_offset D J dst temp expected checksum =
     io_bind (journal_get D J dst) (\<lambda>r.
     case r of
       None \<Rightarrow> ret 0
     | Some en \<Rightarrow>
         if \<not> path_eq (en_temp en) temp \<or> en_expected_size en \<noteq> expected
            \<or> en_checksum_requested en \<noteq> checksum
         then ret 0
         else io_match (metadata temp)
                (\<lambda>m. if md_len m = en_bytes_done en \<and> md_len m < expected then ret (md_len m) else ret 0)
                (\<lambda>_. ret 0))"

text \<open>The path the transfer is to land on, or nothing when it is to leave an existing file alone.\<close>

definition resolve_conflict :: "path \<Rightarrow> bool \<Rightarrow> conflict \<Rightarrow> (transfer_error, path option, 's) io" where
  "resolve_conflict dst existed on_conflict =
     (case (existed, on_conflict) of
        (False, _) \<Rightarrow> ret (Some dst)
      | (True, Skip) \<Rightarrow> ret None
      | (True, Replace) \<Rightarrow> ret (Some dst)
      | (True, KeepBoth) \<Rightarrow> io_bind (free_name_beside dst) (\<lambda>p. ret (Some p)))"

definition commit_clone :: "path \<Rightarrow> path \<Rightarrow> u64 \<Rightarrow> bool \<Rightarrow> (transfer_error, outcome, 's) io" where
  "commit_clone temp dst expected replaced =
     io_match (rename temp dst)
       (\<lambda>_. ret (Copied SharedExtents expected replaced dst))
       (\<lambda>e. io_discard (remove_file temp) (fail (Io e)))"

text \<open>Journal, stream and size check: what fills the temporary file.\<close>

definition fill_temp ::
  "crates \<Rightarrow> journal \<Rightarrow> path \<Rightarrow> path \<Rightarrow> path \<Rightarrow> options \<Rightarrow> u64 \<Rightarrow> 's progress
    \<Rightarrow> (transfer_error, unit, 's) io" where
  "fill_temp D J src dst temp opts expected on_progress =
     io_bind (resume_offset D J dst temp expected (opt_checksum opts)) (\<lambda>resume_from.
     io_bind (try_io (journal_record D J
       \<lparr>en_source = src, en_destination = dst, en_temp = temp, en_expected_size = expected,
        en_bytes_done = resume_from, en_checksum_requested = opt_checksum opts\<rparr>)) (\<lambda>_.
     io_bind (io_match (stream src temp resume_from expected on_progress) ret
                (\<lambda>e. discard_temp D J temp dst e)) (\<lambda>written.
     if written \<noteq> expected then discard_temp D J temp dst (SizeMismatch dst expected written)
     else ret ())))"

definition copy_streaming ::
  "crates \<Rightarrow> journal \<Rightarrow> path \<Rightarrow> path \<Rightarrow> path \<Rightarrow> options \<Rightarrow> bool \<Rightarrow> u64 \<Rightarrow> 's progress
    \<Rightarrow> (transfer_error, outcome, 's) io" where
  "copy_streaming D J src dst temp opts replaced expected on_progress =
     io_bind (fill_temp D J src dst temp opts expected on_progress) (\<lambda>_.
     io_bind (if opt_checksum opts
              then io_bind (verify_with_retry_reporting D J src temp dst on_progress) (\<lambda>_. ret Checksummed)
              else ret SizeChecked) (\<lambda>tier.
     io_bind (try_io (rename temp dst)) (\<lambda>_.
     io_bind (try_io (journal_clear D J dst)) (\<lambda>_.
     ret (Copied tier expected replaced dst)))))"

definition copy_onto ::
  "crates \<Rightarrow> journal \<Rightarrow> path \<Rightarrow> path \<Rightarrow> options \<Rightarrow> bool \<Rightarrow> u64 \<Rightarrow> 's progress
    \<Rightarrow> (transfer_error, outcome, 's) io" where
  "copy_onto D J src dst opts replaced expected on_progress =
     (let temp = temp_path_for dst;
          by_stream = copy_streaming D J src dst temp opts replaced expected on_progress
      in io_bind (try_io (same_filesystem src dst)) (\<lambda>same.
         if same
         then io_match (try_reflink_into_temp src temp)
                (\<lambda>cloned. if cloned then commit_clone temp dst expected replaced else by_stream)
                (\<lambda>_. by_stream)
         else by_stream))"

definition copy_file_with ::
  "crates \<Rightarrow> journal \<Rightarrow> path \<Rightarrow> path \<Rightarrow> options \<Rightarrow> 's progress \<Rightarrow> (transfer_error, outcome, 's) io" where
  "copy_file_with D J src dst opts on_progress =
     io_bind (try_io (metadata src)) (\<lambda>m.
     let expected = md_len m
     in io_bind (path_exists dst) (\<lambda>existed.
        io_bind (resolve_conflict dst existed (opt_on_conflict opts)) (\<lambda>r.
        case r of
          None \<Rightarrow> ret SkippedExisting
        | Some dst' \<Rightarrow>
            let replaced = (existed \<and> opt_on_conflict opts = Replace)
            in copy_onto D J src dst' opts replaced expected on_progress)))"

definition copy_file ::
  "crates \<Rightarrow> journal \<Rightarrow> path \<Rightarrow> path \<Rightarrow> options \<Rightarrow> (transfer_error, outcome, 's) io" where
  "copy_file D J src dst opts = copy_file_with D J src dst opts (\<lambda>_ _ _ s. s)"

section \<open>Moving\<close>

definition move_onto ::
  "crates \<Rightarrow> journal \<Rightarrow> path \<Rightarrow> path \<Rightarrow> options \<Rightarrow> 's progress \<Rightarrow> (transfer_error, outcome, 's) io" where
  "move_onto D J src dst opts on_progress =
     io_bind (try_io (same_filesystem src dst)) (\<lambda>same.
     if same then io_bind (try_io (rename src dst)) (\<lambda>_. ret (Moved dst))
     else io_bind (copy_file_with D J src dst opts on_progress) (\<lambda>outcome.
          case outcome of
            Copied tier bytes replaced committed_as \<Rightarrow>
              io_bind (try_io (remove_file src)) (\<lambda>_. ret (Moved committed_as))
          | other \<Rightarrow> ret other))"

definition move_file_with ::
  "crates \<Rightarrow> journal \<Rightarrow> path \<Rightarrow> path \<Rightarrow> options \<Rightarrow> 's progress \<Rightarrow> (transfer_error, outcome, 's) io" where
  "move_file_with D J src dst opts on_progress =
     io_bind (path_exists dst) (\<lambda>existed.
     io_bind (resolve_conflict dst existed (opt_on_conflict opts)) (\<lambda>r.
     case r of
       None \<Rightarrow> ret SkippedExisting
     | Some dst' \<Rightarrow> move_onto D J src dst' opts on_progress))"

definition move_file ::
  "crates \<Rightarrow> journal \<Rightarrow> path \<Rightarrow> path \<Rightarrow> options \<Rightarrow> (transfer_error, outcome, 's) io" where
  "move_file D J src dst opts = move_file_with D J src dst opts (\<lambda>_ _ _ s. s)"

end
