(* ===== verification/Commit.thy ===== *)
theory Commit
  imports Engine
begin

text \<open>
  The commit discipline of the engine, as Hoare triples over the keys of a view: the temporary
  file may hold anything while it is filled, and every other key changes in one step or not at
  all. The medium may fail, be killed, cut reads short and change bytes; what it must do is keep
  as many bytes of a write as it was given (\<open>whole_writes\<close>).
\<close>

definition whole_writes :: "env \<Rightarrow> bool" where
  "whole_writes E \<longleftrightarrow> (\<forall>t b. length (e_write E t b) = length b)"

section \<open>Filling by a reflink\<close>

text \<open>Only the temporary file differs, and it is no larger than a file can be.\<close>

definition sized :: "node option \<Rightarrow> bool" where
  "sized n \<longleftrightarrow> (case n of Some (File c d) \<Rightarrow> length c \<le> MAX_FILE | _ \<Rightarrow> True)"

definition temp_only :: "env \<Rightarrow> key set \<Rightarrow> (key \<Rightarrow> node option) \<Rightarrow> key \<Rightarrow> 's world \<Rightarrow> bool" where
  "temp_only E S g t w \<longleftrightarrow> (\<exists>n. sized n \<and> view E S (g(t := n)) w)"

lemma temp_onlyI: "view E S g w \<Longrightarrow> sized (g t) \<Longrightarrow> temp_only E S g t w"
  unfolding temp_only_def by (rule exI[of _ "g t"]) simp

lemma temp_only_upd: "view E S (g(t := n)) w \<Longrightarrow> sized n \<Longrightarrow> temp_only E S g t w"
  unfolding temp_only_def by blast

lemma temp_only_view: "temp_only E S g t w \<Longrightarrow> view E (S - {t}) g w"
  by (auto simp: temp_only_def dest: view_forget)

lemma triple_reflink:
  assumes s: "path_key (e_cwd E) src = s" "s \<in> S" and t: "path_key (e_cwd E) temp = t" "t \<in> S" and "s \<noteq> t"
    and sz: "sized (g s)" "sized (g t)"
  shows "triple (view E S g) (try_reflink_into_temp src temp)
    (\<lambda>b w. if b then \<exists>c. (\<exists>d. g s = Some (File c d)) \<and> view E S (g(t \<mapsto> File c True)) w
           else temp_only E S g t w)
    (\<lambda>_. temp_only E S g t) (temp_only E S g t)"
proof -
  let ?Q = "\<lambda>b w. if b then \<exists>c. (\<exists>d. g s = Some (File c d)) \<and> view E S (g(t \<mapsto> File c True)) w
           else temp_only E S g t w"
  let ?X = "temp_only E S g t"
  let ?at = "\<lambda>c d. view E S (g(t \<mapsto> File c d))"
  have X: "?X w" if "?at c d w" "c = [] \<or> (\<exists>d. g s = Some (File c d))" for c d w
    by (rule temp_only_upd[OF that(1)]) (use that(2) sz in \<open>auto simp: sized_def\<close>)
  have sync: "triple (\<lambda>w. \<exists>c. (\<exists>d. g s = Some (File c d)) \<and> ?at c False w)
      (io_bind (sync_all t) (\<lambda>_. ret True)) ?Q (\<lambda>_. ?X) ?X"
  proof (rule triple_ex, rule triple_conj)
    fix c assume c: "\<exists>d. g s = Some (File c d)"
    have "triple (?at c False) (sync_all t) (\<lambda>_. view E S (g(t \<mapsto> File c False, t \<mapsto> File c True)))
        (\<lambda>_. ?at c False) (?at c False)"
      using t by (intro triple_sync_all) auto
    then have "triple (?at c False) (sync_all t) (\<lambda>_. ?at c True) (\<lambda>_. ?X) ?X"
      by (rule triple_conseq) (use c X in auto)
    then show "triple (?at c False) (io_bind (sync_all t) (\<lambda>_. ret True)) ?Q (\<lambda>_. ?X) ?X"
      by (rule triple_bind) (rule triple_ret, use c in auto)
  qed
  have rm: "triple (?at [] False) (io_discard (remove_file temp) (ret False)) ?Q (\<lambda>_. ?X) ?X"
  proof (rule triple_discard)
    show "triple (?at [] False) (remove_file temp) (\<lambda>_. ?X) (\<lambda>_. ?X) ?X"
      by (rule triple_conseq[OF triple_remove_file[OF t, where g = "g(t \<mapsto> File [] False)"]])
        (auto intro: X temp_only_upd[of E S g t None] simp: sized_def)
  qed (auto intro: triple_ret)
  have clone: "triple (?at [] False)
      (io_match (ficlone t s) (\<lambda>_. io_bind (sync_all t) (\<lambda>_. ret True))
         (\<lambda>_. io_discard (remove_file temp) (ret False))) ?Q (\<lambda>_. ?X) ?X"
  proof (rule triple_match[OF _ sync rm])
    show "triple (?at [] False) (ficlone t s)
        (\<lambda>_ w. \<exists>c. (\<exists>d. g s = Some (File c d)) \<and> ?at c False w) (\<lambda>_. ?at [] False) ?X"
      by (rule triple_conseq[OF triple_ficlone[OF t(2) s(2), where g = "g(t \<mapsto> File [] False)"]])
        (use \<open>s \<noteq> t\<close> in \<open>auto intro: X\<close>)
  qed
  have creat: "triple (view E S g) (open_create temp) (\<lambda>h w. h = t \<and> ?at [] False w) (\<lambda>_. ?X) ?X"
    by (rule triple_conseq[OF triple_open_create[OF t, where g = g]]) (auto intro: temp_onlyI sz)
  have opn: "triple (view E S g) (open_read src) (\<lambda>h w. h = s \<and> view E S g w) (\<lambda>_. ?X) ?X"
    by (rule triple_conseq[OF triple_open_read[OF s(1), where S = S and g = g]]) (auto intro: temp_onlyI sz)
  show ?thesis
    unfolding try_reflink_into_temp_def
    by (rule triple_bind[OF opn], rule triple_conj, rule triple_bind[OF creat], rule triple_conj)
      (use clone in simp)
qed

section \<open>Filling by streaming\<close>

lemma write_at_end: "length c = off \<Longrightarrow> write_at off s c = c @ s"
  by (simp add: write_at_def)

text \<open>
  The loop appends what it reads: at every point the temporary file is as long as the bytes
  counted, so the count it returns is the length of the file.
\<close>

lemma stream_loop_fills:
  "whole_writes E \<Longrightarrow> fo \<in> S \<Longrightarrow> view E S (g(fo \<mapsto> File c d)) w \<Longrightarrow> length c = pos \<Longrightarrow> pos \<le> MAX_FILE \<Longrightarrow>
    sofar = of_nat pos \<Longrightarrow> stream_loop fi fo pos sofar expected on_progress w = (r, w') \<Longrightarrow>
    (case r of
       Ok n \<Rightarrow> \<exists>c d. length c \<le> MAX_FILE \<and> n = of_nat (length c) \<and> view E S (g(fo \<mapsto> File c d)) w'
     | Err e \<Rightarrow> view E (S - {fo}) g w'
     | Killed \<Rightarrow> view E (S - {fo}) g w')"
proof (induction fi fo pos sofar expected on_progress w arbitrary: c d rule: stream_loop.induct)
  case (1 fi fo pos sofar expected on_progress w)
  note whole = "1.prems"(1) and fo = "1.prems"(2) and v = "1.prems"(3) and len = "1.prems"(4)
    and pos = "1.prems"(5) and sofar = "1.prems"(6)
  note run = "1.prems"(7)[unfolded stream_loop.simps[of fi fo pos sofar expected on_progress w]]
  let ?P = "view E S (g(fo \<mapsto> File c d))"
  obtain rr w1 where r1: "read_at fi pos CHUNK w = (rr, w1)" by fastforce
  have "triple ?P (read_at fi pos CHUNK) (\<lambda>_. ?P) (\<lambda>_. ?P) ?P"
    using keeps_read_at by (simp add: keeps_def)
  from tripleD[OF this v] have v1: "?P w1" using r1 by (cases rr) auto
  show ?case
  proof (cases rr)
    case (Ok buf)
    show ?thesis
    proof (cases "buf = []")
      case True
      from run r1 Ok True have "r = Ok sofar" "w' = w1" by auto
      moreover have "\<exists>c d. length c \<le> MAX_FILE \<and> sofar = of_nat (length c) \<and> view E S (g(fo \<mapsto> File c d)) w1"
        using v1 len pos sofar by blast
      ultimately show ?thesis by simp
    next
      case False
      obtain wr w2 where r2: "write_all fo pos buf w1 = (wr, w2)" by fastforce
      note tw = tripleD[OF triple_write_all[OF fo, of "g(fo \<mapsto> File c d)" c d E pos buf] v1]
      show ?thesis
      proof (cases wr)
        case (Ok u)
        let ?w = "w2\<lparr>w_cap := on_progress Copying (sofar + of_nat (length buf)) expected (w_cap w2)\<rparr>"
        from tw(1) r2 Ok obtain t where t: "pos + length buf \<le> MAX_FILE"
          "view E S (g(fo \<mapsto> File (write_at pos (e_write E t buf) c) False)) w2" by auto
        have v2: "view E S (g(fo \<mapsto> File (c @ e_write E t buf) False)) ?w"
          using t(2) len by (simp add: write_at_end)
        have l2: "length (c @ e_write E t buf) = pos + length buf"
          using whole len by (simp add: whole_writes_def)
        have run2: "stream_loop fi fo (pos + length buf) (sofar + of_nat (length buf)) expected on_progress ?w = (r, w')"
          using run r1 \<open>rr = Ok buf\<close> False r2 Ok by (simp add: Let_def)
        show ?thesis
          by (rule "1.IH"[OF r1[symmetric] \<open>rr = Ok buf\<close> False r2[symmetric] Ok refl whole fo v2 l2 t(1) _ run2])
            (simp add: sofar)
      qed (use run r1 r2 tw False \<open>rr = Ok buf\<close> in auto)
    qed
  qed (use run r1 v1 in \<open>auto dest: view_forget\<close>)
qed

text \<open>
  \<open>stream\<close>: the bytes reported are the bytes of the temporary file, and they are durable.
  A resumed transfer continues a file that is as long as the offset.
\<close>

lemma triple_stream:
  assumes t: "path_key (e_cwd E) temp = t" "t \<in> S" and whole: "whole_writes E"
    and resume: "\<And>c d. 0 < from \<Longrightarrow> g t = Some (File c d) \<Longrightarrow> length c = unat from \<and> length c \<le> MAX_FILE"
  shows "triple (view E S g) (stream src temp from expected on_progress)
    (\<lambda>n w. \<exists>c. length c \<le> MAX_FILE \<and> n = of_nat (length c) \<and> view E S (g(t \<mapsto> File c True)) w)
    (\<lambda>_. view E (S - {t}) g) (view E (S - {t}) g)"
proof -
  let ?X = "view E (S - {t}) g"
  let ?at = "\<lambda>c d. view E S (g(t \<mapsto> File c d))"
  let ?begun = "\<lambda>h w. h = t \<and> (\<exists>c d. (length c = unat from \<and> length c \<le> MAX_FILE) \<and> ?at c d w)"
  have opn: "triple (view E S g) (try_io (open_read src)) (\<lambda>_. view E S g) (\<lambda>_. ?X) ?X"
    by (rule triple_map_err, rule triple_conseq[OF triple_open_read[OF refl, where S = S and g = g]]) (auto intro: view_weaken)
  have crt: "triple (view E S g) (try_io (if 0 < from then open_write temp else open_create temp))
      ?begun (\<lambda>_. ?X) ?X"
  proof (rule triple_map_err, cases "0 < from")
    case True
    have "triple (view E S g) (open_write temp) ?begun (\<lambda>_. ?X) ?X"
    proof (rule triple_conseq[OF triple_open_write[OF t, where g = g]])
      fix h w assume "(h = t \<and> (\<exists>c d. g t = Some (File c d))) \<and> view E S g w"
      then obtain c d where "h = t" "g t = Some (File c d)" "view E S g w" by blast
      then have "h = t \<and> (length c = unat from \<and> length c \<le> MAX_FILE) \<and> ?at c d w"
        using resume[OF True] by (metis fun_upd_triv)
      then show "?begun h w" by blast
    qed (auto intro: view_weaken)
    with True show "triple (view E S g) (if 0 < from then open_write temp else open_create temp) ?begun (\<lambda>_. ?X) ?X"
      by simp
  next
    case False
    then have "from = 0" by (simp add: word_gt_0)
    moreover have "\<exists>c d. (length c = unat (0 :: u64) \<and> length c \<le> MAX_FILE) \<and> ?at c d w"
      if "?at [] False w" for w
      using that by (metis list.size(3) unsigned_0 zero_le)
    ultimately show "triple (view E S g) (if 0 < from then open_write temp else open_create temp) ?begun (\<lambda>_. ?X) ?X"
      by simp (rule triple_conseq[OF triple_open_create[OF t, where g = g]], auto intro: view_weaken)
  qed
  have loop: "triple (\<lambda>w. \<exists>c d. (length c = unat from \<and> length c \<le> MAX_FILE) \<and> ?at c d w)
      (stream_loop fi t (unat from) from expected on_progress)
      (\<lambda>n w. \<exists>c d. (length c \<le> MAX_FILE \<and> n = of_nat (length c)) \<and> ?at c d w) (\<lambda>_. ?X) ?X" for fi
  proof (rule tripleI)
    fix w r w1
    assume "\<exists>c d. (length c = unat from \<and> length c \<le> MAX_FILE) \<and> ?at c d w"
      and run: "stream_loop fi t (unat from) from expected on_progress w = (r, w1)"
    then obtain c d where "length c = unat from" "unat from \<le> MAX_FILE" "?at c d w" by auto
    from stream_loop_fills[OF whole t(2) this(3,1,2) _ run]
    show "case r of
        Ok n \<Rightarrow> \<exists>c d. (length c \<le> MAX_FILE \<and> n = of_nat (length c)) \<and> ?at c d w1
      | Err e \<Rightarrow> ?X w1 | Killed \<Rightarrow> ?X w1"
      by (cases r) auto
  qed
  have seek: "triple (\<lambda>w. \<exists>c d. (length c = unat from \<and> length c \<le> MAX_FILE) \<and> ?at c d w)
      (if 0 < from then io_bind (try_io no_effect) (\<lambda>_. try_io no_effect) else ret ())
      (\<lambda>_ w. \<exists>c d. (length c = unat from \<and> length c \<le> MAX_FILE) \<and> ?at c d w) (\<lambda>_. ?X) ?X"
  proof (intro triple_ex triple_conj)
    fix c :: bytes and d assume "length c = unat from \<and> length c \<le> MAX_FILE"
    have "keeps E S (g(t \<mapsto> File c d)) (if 0 < from then io_bind (try_io no_effect) (\<lambda>_. try_io no_effect) else ret ())"
      by (intro triple_intro)
    then show "triple (?at c d) (if 0 < from then io_bind (try_io no_effect) (\<lambda>_. try_io no_effect) else ret ())
      (\<lambda>_ w. \<exists>c d. (length c = unat from \<and> length c \<le> MAX_FILE) \<and> ?at c d w) (\<lambda>_. ?X) ?X"
      unfolding keeps_def
      by (rule triple_conseq) (use \<open>length c = unat from \<and> length c \<le> MAX_FILE\<close> in \<open>auto dest: view_forget\<close>)
  qed
  have sync: "triple (\<lambda>w. \<exists>c d. (length c \<le> MAX_FILE \<and> n = of_nat (length c)) \<and> ?at c d w)
      (io_bind (try_io (sync_all t)) (\<lambda>_. ret n))
      (\<lambda>n w. \<exists>c. length c \<le> MAX_FILE \<and> n = of_nat (length c) \<and> ?at c True w) (\<lambda>_. ?X) ?X" for n
  proof (intro triple_ex triple_conj)
    fix c :: bytes and d assume c: "length c \<le> MAX_FILE \<and> n = of_nat (length c)"
    have "triple (?at c d) (sync_all t) (\<lambda>_. view E S (g(t \<mapsto> File c d, t \<mapsto> File c True))) (\<lambda>_. ?at c d) (?at c d)"
      using t by (intro triple_sync_all) auto
    then have "triple (?at c d) (try_io (sync_all t)) (\<lambda>_. ?at c True) (\<lambda>_. ?X) ?X"
      by (rule triple_map_err[OF triple_conseq]) (auto dest: view_forget)
    then show "triple (?at c d) (io_bind (try_io (sync_all t)) (\<lambda>_. ret n))
      (\<lambda>n w. \<exists>c. length c \<le> MAX_FILE \<and> n = of_nat (length c) \<and> ?at c True w) (\<lambda>_. ?X) ?X"
      by (rule triple_bind) (rule triple_ret, use c in blast)
  qed
  show ?thesis
    unfolding stream_def
    by (rule triple_bind[OF opn], rule triple_bind[OF crt], rule triple_conj, hypsubst,
        rule triple_bind[OF seek], rule triple_bind[OF loop], rule sync)
qed

section \<open>The journal and the resume offset\<close>

lemma keeps_discard_temp:
  assumes "path_key (e_cwd E) temp \<notin> S" "apart E J S"
  shows "triple (view E S g) (discard_temp D J temp dst e) (\<lambda>_ _. False) (\<lambda>_. view E S g) (view E S g)"
proof -
  have clr: "triple (view E S g) (journal_clear D J dst) (\<lambda>_. view E S g) (\<lambda>_. view E S g) (view E S g)"
    using keeps_journal_clear[OF assms(2)] by (simp add: keeps_def)
  have "triple (view E S g) (remove_file temp) (\<lambda>_. view E S g) (\<lambda>_. view E S g) (view E S g)"
    using keeps_remove_file[OF assms(1)] by (simp add: keeps_def)
  then show ?thesis
    unfolding discard_temp_def
    by (rule triple_discard) (rule triple_discard[OF clr], auto intro: triple_fail)+
qed

lemma keeps_resume_offset [triple_intro]: "keeps E S g (resume_offset D J dst temp expected checksum)"
  unfolding resume_offset_def by (intro triple_intro) (auto split: option.split intro!: triple_intro)

text \<open>A resume offset above 0 is the length of the temporary file that is there.\<close>

lemma triple_resume_offset:
  assumes t: "path_key (e_cwd E) temp = t" "t \<in> S"
    and small: "\<And>c d. g t = Some (File c d) \<Longrightarrow> length c \<le> MAX_FILE"
  shows "triple (view E S g) (resume_offset D J dst temp expected checksum)
    (\<lambda>r w. (\<forall>c d. 0 < r \<longrightarrow> g t = Some (File c d) \<longrightarrow> length c = unat r \<and> length c \<le> MAX_FILE) \<and> view E S g w)
    (\<lambda>_. view E S g) (view E S g)"
proof -
  let ?Q = "\<lambda>r w. (\<forall>c d. 0 < r \<longrightarrow> g t = Some (File c d) \<longrightarrow> length c = unat r \<and> length c \<le> MAX_FILE) \<and> view E S g w"
  have len: "length c = unat (of_nat (length c) :: u64)" if "g t = Some (File c d)" for c d
    using small[OF that] by (simp add: word_of_nat_unat_eq MAX_FILE_def)
  have zero: "triple (view E S g) (ret 0) ?Q (\<lambda>_. view E S g) (view E S g)"
    by (rule triple_ret) simp
  have meta: "triple (view E S g) (io_match (metadata temp)
      (\<lambda>m. if md_len m = en_bytes_done en \<and> md_len m < expected then ret (md_len m) else ret 0)
      (\<lambda>_. ret 0)) ?Q (\<lambda>_. view E S g) (view E S g)" for en
  proof (rule triple_match[OF triple_metadata[OF t]])
    show "triple (\<lambda>w. (\<exists>n. g t = Some n \<and> m = node_meta E t n) \<and> view E S g w)
        (if md_len m = en_bytes_done en \<and> md_len m < expected then ret (md_len m) else ret 0)
        ?Q (\<lambda>_. view E S g) (view E S g)" for m
      using small len by (auto intro!: triple_ret)
  qed (rule zero)
  have get: "triple (view E S g) (journal_get D J dst) (\<lambda>_. view E S g) (\<lambda>_. view E S g) (view E S g)"
    using keeps_journal_get by (simp add: keeps_def)
  show ?thesis
    unfolding resume_offset_def
    by (rule triple_bind[OF get]) (intro triple_option triple_if zero meta)
qed

text \<open>
  What fills the temporary file: when it returns, the file holds as many bytes as the size that
  was asked for, durably; when it does not, only the temporary file differs.
\<close>

lemma triple_fill_temp:
  assumes t: "path_key (e_cwd E) temp = t" "t \<in> S" and whole: "whole_writes E" and jr: "apart E J S"
    and small: "\<And>c d. g t = Some (File c d) \<Longrightarrow> length c \<le> MAX_FILE"
  shows "triple (view E S g) (fill_temp D J src dst temp opts expected on_progress)
    (\<lambda>_ w. \<exists>c. (length c \<le> MAX_FILE \<and> of_nat (length c) = expected) \<and> view E S (g(t \<mapsto> File c True)) w)
    (\<lambda>_. view E (S - {t}) g) (view E (S - {t}) g)"
proof -
  let ?X = "view E (S - {t}) g"
  let ?whole = "\<lambda>_ w. \<exists>c. (length c \<le> MAX_FILE \<and> of_nat (length c) = expected) \<and> view E S (g(t \<mapsto> File c True)) w"
  let ?from = "\<lambda>r. \<forall>c d. 0 < r \<longrightarrow> g t = Some (File c d) \<longrightarrow> length c = unat r \<and> length c \<le> MAX_FILE"
  have jr': "apart E J (S - {t})" using jr by (auto simp: apart_def)
  have discard: "triple ?X (discard_temp D J temp dst e) Q (\<lambda>_. ?X) ?X" for e Q
    by (rule triple_conseq[OF keeps_discard_temp[where S = "S - {t}" and g = g]]) (use t jr' in auto)
  have res: "triple (view E S g) (resume_offset D J dst temp expected (opt_checksum opts))
      (\<lambda>r w. ?from r \<and> view E S g w) (\<lambda>_. ?X) ?X"
    by (rule triple_conseq[OF triple_resume_offset[OF t small]]) (auto intro: view_weaken)
  have rec: "triple (view E S g) (try_io (journal_record D J en)) (\<lambda>_. view E S g) (\<lambda>_. ?X) ?X" for en
    by (rule triple_map_err, rule keeps_triple[OF keeps_journal_record[OF jr]]) (auto intro: view_weaken)
  have str: "triple (view E S g)
      (io_match (stream src temp r expected on_progress) ret (\<lambda>e. discard_temp D J temp dst e))
      (\<lambda>n w. \<exists>c. length c \<le> MAX_FILE \<and> n = of_nat (length c) \<and> view E S (g(t \<mapsto> File c True)) w)
      (\<lambda>_. ?X) ?X" if "?from r" for r
    by (rule triple_match[OF triple_stream[OF t whole]]) (use that in \<open>auto intro: triple_ret discard\<close>)
  have chk: "triple (\<lambda>w. \<exists>c. length c \<le> MAX_FILE \<and> n = of_nat (length c) \<and> view E S (g(t \<mapsto> File c True)) w)
      (if n \<noteq> expected then discard_temp D J temp dst (SizeMismatch dst expected n) else ret ())
      ?whole (\<lambda>_. ?X) ?X" for n
  proof (rule triple_if)
    assume "n \<noteq> expected"
    show "triple (\<lambda>w. \<exists>c. length c \<le> MAX_FILE \<and> n = of_nat (length c) \<and> view E S (g(t \<mapsto> File c True)) w)
        (discard_temp D J temp dst (SizeMismatch dst expected n)) ?whole (\<lambda>_. ?X) ?X"
      by (rule triple_pre[OF discard]) (auto dest: view_forget)
  next
    assume "\<not> n \<noteq> expected"
    then show "triple (\<lambda>w. \<exists>c. length c \<le> MAX_FILE \<and> n = of_nat (length c) \<and> view E S (g(t \<mapsto> File c True)) w)
        (ret ()) ?whole (\<lambda>_. ?X) ?X"
      by (intro triple_ret) auto
  qed
  show ?thesis
    unfolding fill_temp_def
    by (rule triple_bind[OF res], rule triple_conj, rule triple_bind[OF rec], rule triple_bind[OF str], assumption)
      (rule chk)
qed

section \<open>Verification reads and writes nothing but reports\<close>

lemma hash_loop_view:
  "view E S g w \<Longrightarrow> hash_loop f pos fed hashed tot offset on_progress w = (r, w') \<Longrightarrow> view E S g w'"
proof (induction f pos fed hashed tot offset on_progress w rule: hash_loop.induct)
  case (1 f pos fed hashed tot offset on_progress w)
  note run = "1.prems"(2)[unfolded hash_loop.simps[of f pos fed hashed tot offset on_progress w]]
  obtain rr w1 where r1: "read_at f pos CHUNK w = (rr, w1)" by fastforce
  have "triple (view E S g) (read_at f pos CHUNK) (\<lambda>_. view E S g) (\<lambda>_. view E S g) (view E S g)"
    using keeps_read_at by (simp add: keeps_def)
  from tripleD[OF this "1.prems"(1)] have v1: "view E S g w1" using r1 by (cases rr) auto
  show ?case
  proof (cases rr)
    case (Ok buf)
    show ?thesis
    proof (cases "buf = []")
      case False
      show ?thesis
        by (rule "1.IH"[OF r1[symmetric] Ok False refl refl])
          (use run r1 Ok False v1 in \<open>auto simp: Let_def\<close>)
    qed (use run r1 Ok v1 in auto)
  qed (use run r1 v1 in auto)
qed

lemma keeps_hash_loop [triple_intro]: "keeps E S g (hash_loop f pos fed hashed tot offset on_progress)"
  unfolding keeps_def
  by (rule tripleI) (auto dest: hash_loop_view split: res.split)

lemma keeps_hash_file [triple_intro]: "keeps E S g (hash_file_reporting D p tot offset on_progress)"
  unfolding hash_file_reporting_def by (intro triple_intro)

lemma keeps_verify_attempts [triple_intro]: "keeps E S g (verify_attempts D src temp size0 tot on_progress as)"
  by (induction as) (auto intro!: triple_intro)

text \<open>
  What a digest says: when reads return what is there (however short), the bytes fed to the
  digest are the bytes of the file.
\<close>

definition honest_reads :: "env \<Rightarrow> bool" where
  "honest_reads E \<longleftrightarrow> (\<forall>t b. prefix (e_read E t b) b \<and> (b \<noteq> [] \<longrightarrow> e_read E t b \<noteq> []))"

lemma honest_read:
  assumes "honest_reads E" "pos \<le> length c" "buf = take CHUNK (e_read E t (drop pos c))"
  shows "take pos c @ buf = take (pos + length buf) c" "pos + length buf \<le> length c"
    "buf = [] \<Longrightarrow> pos = length c"
proof -
  have p: "prefix (e_read E t (drop pos c)) (drop pos c)" using assms(1) by (simp add: honest_reads_def)
  have "prefix buf (drop pos c)"
    unfolding assms(3) by (rule prefix_order.order_trans[OF take_is_prefix p])
  then obtain z where z: "drop pos c = buf @ z" by (auto simp: prefix_def)
  have c: "c = take pos c @ buf @ z" by (metis append_take_drop_id z)
  have l: "length (take pos c) = pos" using assms(2) by simp
  from c l show "take pos c @ buf = take (pos + length buf) c"
    by (metis append_assoc append_eq_conv_conj length_append)
  show "pos + length buf \<le> length c"
    using arg_cong[OF c, of length] l by simp
  show "pos = length c" if "buf = []"
  proof (rule ccontr)
    assume "pos \<noteq> length c"
    then have "e_read E t (drop pos c) \<noteq> []" using assms(1,2) by (simp add: honest_reads_def)
    then show False using that assms(3) by (simp add: CHUNK_def)
  qed
qed

lemma triple_read_at:
  assumes "f \<in> S"
  shows "triple (view E S g) (read_at f pos n)
    (\<lambda>buf w. (g f \<noteq> Some Dir \<and> (\<forall>c d. g f = Some (File c d) \<longrightarrow> (\<exists>t. buf = take n (e_read E t (drop pos c)))))
       \<and> view E S g w) (\<lambda>_. view E S g) (view E S g)"
  unfolding read_at_def
  by (rule triple_sys) (use assms in \<open>auto simp: view_look split: option.splits node.splits\<close>)

lemma hash_loop_reads:
  "honest_reads E \<Longrightarrow> f \<in> S \<Longrightarrow> view E S g w \<Longrightarrow> g f = Some n \<Longrightarrow> (\<And>b. n \<noteq> Sock b) \<Longrightarrow>
    (\<And>c d. n = File c d \<Longrightarrow> fed = take pos c \<and> pos \<le> length c) \<Longrightarrow>
    hash_loop f pos fed hashed tot offset on_progress w = (Ok r, w') \<Longrightarrow> \<exists>d. n = File r d"
proof (induction f pos fed hashed tot offset on_progress w rule: hash_loop.induct)
  case (1 f pos fed hashed tot offset on_progress w)
  note run = "1.prems"(7)[unfolded hash_loop.simps[of f pos fed hashed tot offset on_progress w]]
  from run obtain buf w1 where r1: "read_at f pos CHUNK w = (Ok buf, w1)"
    by (auto split: prod.splits res.splits)
  from tripleD(1)[OF triple_read_at[OF "1.prems"(2)] "1.prems"(3) r1] "1.prems"(4,5)
  obtain c d t where n: "n = File c d" and buf: "buf = take CHUNK (e_read E t (drop pos c))"
    and v1: "view E S g w1" by (cases n) auto
  from "1.prems"(6)[OF n] have pos: "fed = take pos c" "pos \<le> length c" by auto
  note read = honest_read[OF "1.prems"(1) pos(2) buf]
  show ?case
  proof (cases "buf = []")
    case True
    with run r1 pos read(3) n show ?thesis by auto
  next
    case False
    show ?thesis
      by (rule "1.IH"[OF r1[symmetric] refl False refl refl "1.prems"(1,2) _ "1.prems"(4,5)])
        (use run r1 False v1 n pos read in \<open>auto simp: Let_def\<close>)
  qed
qed

text \<open>The digest of the file, and that there is one.\<close>

definition digest_of :: "env \<Rightarrow> crates \<Rightarrow> (key \<Rightarrow> node option) \<Rightarrow> key \<Rightarrow> bytes \<Rightarrow> bool" where
  "digest_of E D g f h \<longleftrightarrow> (honest_reads E \<longrightarrow> (\<exists>c d. g f = Some (File c d) \<and> h = sha256 D c))"

lemma triple_open_file:
  assumes "path_key (e_cwd E) p = k" "k \<in> S"
  shows "triple (view E S g) (open_read p) (\<lambda>h w. (h = k \<and> (\<exists>n. g k = Some n \<and> (\<forall>b. n \<noteq> Sock b))) \<and> view E S g w)
    (\<lambda>_. view E S g) (view E S g)"
  unfolding open_read_def
  by (rule triple_sys)
    (use assms in \<open>auto simp: at_path_def view_look split: sum.splits option.splits node.splits if_splits\<close>)

lemma triple_hash_file:
  assumes p: "path_key (e_cwd E) p = k" "k \<in> S"
  shows "triple (view E S g) (hash_file_reporting D p tot offset on_progress)
    (\<lambda>h w. digest_of E D g k h \<and> view E S g w) (\<lambda>_. view E S g) (view E S g)"
proof -
  have opn: "triple (view E S g) (try_io (open_read p))
      (\<lambda>h w. (h = k \<and> (\<exists>n. g k = Some n \<and> (\<forall>b. n \<noteq> Sock b))) \<and> view E S g w) (\<lambda>_. view E S g) (view E S g)"
    by (rule triple_map_err, rule triple_open_file[OF p])
  have drop: "triple (view E S g) (drop_cache f) (\<lambda>_. view E S g) (\<lambda>_. view E S g) (view E S g)" for f
    using keeps_drop_cache by (simp add: keeps_def)
  have loop: "triple (view E S g) (hash_loop k 0 [] 0 tot offset on_progress)
      (\<lambda>fed w. digest_of E D g k (sha256 D fed) \<and> view E S g w) (\<lambda>_. view E S g) (view E S g)"
    if n: "g k = Some n" "\<forall>b. n \<noteq> Sock b" for n
  proof (rule tripleI)
    fix w r w1
    assume v: "view E S g w" and run: "hash_loop k 0 [] 0 tot offset on_progress w = (r, w1)"
    have "digest_of E D g k (sha256 D fed)" if "r = Ok fed" for fed
      using hash_loop_reads[OF _ p(2) v n(1), of "[]" 0 0 tot offset on_progress fed w1] n(2) run that n(1)
      by (auto simp: digest_of_def)
    with hash_loop_view[OF v run]
    show "case r of Ok fed \<Rightarrow> digest_of E D g k (sha256 D fed) \<and> view E S g w1
        | Err e \<Rightarrow> view E S g w1 | Killed \<Rightarrow> view E S g w1"
      by (cases r) auto
  qed
  show ?thesis
    unfolding hash_file_reporting_def
    by (rule triple_bind[OF opn], rule triple_conj, elim conjE exE, hypsubst,
        rule triple_bind[OF drop], rule triple_bind[OF loop], assumption, assumption, rule triple_ret)
qed

lemma triple_verify_attempts:
  assumes s: "path_key (e_cwd E) src = s" "s \<in> S" and t: "path_key (e_cwd E) temp = t" "t \<in> S"
  shows "triple (view E S g) (verify_attempts D src temp tsize tot on_progress as)
    (\<lambda>ok w. (ok \<longrightarrow> (\<exists>h. digest_of E D g s h \<and> digest_of E D g t h)) \<and> view E S g w)
    (\<lambda>_. view E S g) (view E S g)"
proof (induction as)
  case Nil
  show ?case by (auto intro: triple_ret)
next
  case (Cons a as)
  show ?case
    unfolding verify_attempts.simps
    by (rule triple_bind[OF triple_hash_file[OF s]], rule triple_conj,
        rule triple_bind[OF triple_hash_file[OF t]], rule triple_conj)
      (auto intro!: triple_if triple_ret Cons)
qed

lemma triple_verify:
  assumes s: "path_key (e_cwd E) src = s" "s \<in> S" and t: "path_key (e_cwd E) temp = t" "t \<in> S"
    and jr: "apart E J S"
  shows "triple (view E S g) (verify_with_retry_reporting D J src temp dst on_progress)
    (\<lambda>_ w. (\<exists>h. digest_of E D g s h \<and> digest_of E D g t h) \<and> view E S g w)
    (\<lambda>_. view E (S - {t}) g) (view E (S - {t}) g)"
proof -
  let ?X = "view E (S - {t}) g"
  have discard: "triple (view E S g) (discard_temp D J temp dst e) Q (\<lambda>_. ?X) ?X" for e Q
    by (rule triple_conseq[OF keeps_discard_temp[where S = "S - {t}" and g = g]])
      (use t jr in \<open>auto simp: apart_def intro: view_weaken\<close>)
  have len: "triple (view E S g) (map_unwrap_or md_len 0 (metadata temp)) (\<lambda>_. view E S g) (\<lambda>_. ?X) ?X"
    by (rule keeps_triple[OF keeps_map_unwrap_or[OF keeps_metadata]]) (auto intro: view_weaken)
  have att: "triple (view E S g) (verify_attempts D src temp tsize tot on_progress as)
    (\<lambda>ok w. (ok \<longrightarrow> (\<exists>h. digest_of E D g s h \<and> digest_of E D g t h)) \<and> view E S g w) (\<lambda>_. ?X) ?X" for tsize tot as
    by (rule triple_conseq[OF triple_verify_attempts[OF s t, where g = g]]) (auto intro: view_weaken)
  show ?thesis
    unfolding verify_with_retry_reporting_def Let_def
    by (rule triple_bind[OF len], rule triple_bind[OF att], rule triple_conj, rule triple_if)
      (auto intro: triple_ret discard)
qed

section \<open>Committing\<close>

text \<open>
  How a transfer onto one destination can leave the keys of a view: the destination committed
  in one step with a whole, durable file that satisfies \<open>good\<close>, or nothing but the temporary
  file touched.
\<close>

definition landed ::
  "env \<Rightarrow> key set \<Rightarrow> (key \<Rightarrow> node option) \<Rightarrow> key \<Rightarrow> key \<Rightarrow> (bytes \<Rightarrow> bool) \<Rightarrow> 's world \<Rightarrow> bool" where
  "landed E S g t k good w \<longleftrightarrow> (\<exists>c. good c \<and> view E S (g(t := None, k \<mapsto> File c True)) w)"

definition settled ::
  "env \<Rightarrow> key set \<Rightarrow> (key \<Rightarrow> node option) \<Rightarrow> key \<Rightarrow> key \<Rightarrow> (bytes \<Rightarrow> bool) \<Rightarrow> 's world \<Rightarrow> bool" where
  "settled E S g t k good w \<longleftrightarrow> view E (S - {t}) g w \<or> landed E S g t k good w"

text \<open>
  After a mismatch nothing but the temporary file was touched; an error of the machine may also
  come after the commit, from clearing the journal.
\<close>

fun failed ::
  "env \<Rightarrow> key set \<Rightarrow> (key \<Rightarrow> node option) \<Rightarrow> key \<Rightarrow> key \<Rightarrow> (bytes \<Rightarrow> bool) \<Rightarrow> transfer_error \<Rightarrow> 's world \<Rightarrow> bool" where
  "failed E S g t k good (Io e) = settled E S g t k good"
| "failed E S g t k good e = view E (S - {t}) g"

text \<open>
  What a tier says of the bytes it was given for: always the size; for a clone that they are the
  source's bytes; for a checksum that they have the source's digest.
\<close>

definition attested ::
  "env \<Rightarrow> crates \<Rightarrow> (key \<Rightarrow> node option) \<Rightarrow> key \<Rightarrow> u64 \<Rightarrow> verification_tier \<Rightarrow> bytes \<Rightarrow> bool" where
  "attested E D g s expected tier c \<longleftrightarrow>
     length c \<le> MAX_FILE \<and> of_nat (length c) = expected
     \<and> (tier = SharedExtents \<longrightarrow> (\<exists>d. g s = Some (File c d)))
     \<and> (tier = Checksummed \<longrightarrow> digest_of E D g s (sha256 D c) \<or> \<not> honest_reads E)"

lemma settledI: "view E (S - {t}) g w \<Longrightarrow> settled E S g t k good w"
  by (simp add: settled_def)

lemma failedI: "view E (S - {t}) g w \<Longrightarrow> failed E S g t k good e w"
  by (cases e) (auto intro: settledI)

lemma settled_mono: "settled E S g t k good w \<Longrightarrow> (\<And>c. good c \<Longrightarrow> good' c) \<Longrightarrow> settled E S g t k good' w"
  by (auto simp: settled_def landed_def)

lemma failed_mono: "failed E S g t k good e w \<Longrightarrow> (\<And>c. good c \<Longrightarrow> good' c) \<Longrightarrow> failed E S g t k good' e w"
  by (cases e) (auto elim: settled_mono)

lemma landed_mono: "landed E S g t k good w \<Longrightarrow> (\<And>c. good c \<Longrightarrow> good' c) \<Longrightarrow> landed E S g t k good' w"
  by (auto simp: landed_def)

lemma triple_commit_rename:
  assumes t: "path_key (e_cwd E) temp = t" "t \<in> S" and k: "path_key (e_cwd E) dst = k" "k \<in> S" and "t \<noteq> k"
    and c: "good c"
  shows "triple (view E S (g(t \<mapsto> File c True))) (rename temp dst)
    (\<lambda>_. landed E S g t k good) (\<lambda>_. view E (S - {t}) g) (view E (S - {t}) g)"
proof -
  have "triple (view E S (g(t \<mapsto> File c True))) (rename temp dst)
      (\<lambda>_. view E S (g(t \<mapsto> File c True, t := None, k \<mapsto> File c True)))
      (\<lambda>_. view E S (g(t \<mapsto> File c True))) (view E S (g(t \<mapsto> File c True)))"
    using t k \<open>t \<noteq> k\<close> by (intro triple_rename_file) auto
  then show ?thesis
    by (rule triple_conseq) (use c in \<open>auto simp: landed_def dest: view_forget\<close>)
qed

lemma keeps_landed:
  fixes m :: "('e, 'a, 's) io"
  assumes "\<And>h. keeps E S h m"
  shows "triple (landed E S g t k good) m (\<lambda>_. landed E S g t k good)
    (\<lambda>_. settled E S g t k good) (settled E S g t k good)"
proof -
  let ?L = "landed E S g t k good :: 's world \<Rightarrow> bool"
  have "triple ?L m (\<lambda>_. ?L) (\<lambda>_. ?L) ?L"
    unfolding landed_def
  proof (intro triple_ex triple_conj)
    fix c :: bytes
    let ?V = "\<lambda>w. \<exists>c. good c \<and> view E S (g(t := None, k \<mapsto> File c True)) w"
    assume c: "good c"
    show "triple (view E S (g(t := None, k \<mapsto> File c True))) m (\<lambda>_. ?V) (\<lambda>_. ?V) ?V"
      by (rule triple_conseq[OF assms[unfolded keeps_def, of "g(t := None, k \<mapsto> File c True)"]]) (use c in blast)+
  qed
  then show ?thesis by (rule triple_conseq) (auto simp: settled_def)
qed

text \<open>The streaming path of a copy.\<close>

lemma triple_copy_streaming:
  assumes s: "path_key (e_cwd E) src = s" "s \<in> S" and t: "path_key (e_cwd E) temp = t" "t \<in> S"
    and k: "path_key (e_cwd E) dst = k" "k \<in> S" and "t \<noteq> k" "s \<noteq> t"
    and whole: "whole_writes E" and jr: "apart E J S"
    and small: "\<And>c d. g t = Some (File c d) \<Longrightarrow> length c \<le> MAX_FILE"
    and tier: "tier = (if opt_checksum opts then Checksummed else SizeChecked)"
  shows "triple (view E S g) (copy_streaming D J src dst temp opts replaced expected on_progress)
    (\<lambda>out w. out = Copied tier expected replaced dst \<and> landed E S g t k (attested E D g s expected tier) w)
    (failed E S g t k (attested E D g s expected tier)) (settled E S g t k (attested E D g s expected tier))"
proof -
  let ?good = "attested E D g s expected tier"
  let ?X = "failed E S g t k ?good"
  let ?C = "settled E S g t k ?good"
  let ?at = "\<lambda>c. view E S (g(t \<mapsto> File c True))"
  have fill: "triple (view E S g) (fill_temp D J src dst temp opts expected on_progress)
      (\<lambda>_ w. \<exists>c. (length c \<le> MAX_FILE \<and> of_nat (length c) = expected) \<and> ?at c w) ?X ?C"
    by (rule triple_conseq[OF triple_fill_temp[OF t whole jr small]]) (auto intro: settledI failedI)
  have ver: "triple (?at c)
      (if opt_checksum opts
       then io_bind (verify_with_retry_reporting D J src temp dst on_progress) (\<lambda>_. ret Checksummed)
       else ret SizeChecked)
      (\<lambda>tier' w. (tier' = tier \<and> ?good c) \<and> ?at c w) ?X ?C"
    if c: "length c \<le> MAX_FILE \<and> of_nat (length c) = expected" for c
  proof (rule triple_if)
    assume checked: "opt_checksum opts"
    have good: "?good c"
      if "digest_of E D (g(t \<mapsto> File c True)) s h" "digest_of E D (g(t \<mapsto> File c True)) t h" for h
      using c that tier checked \<open>s \<noteq> t\<close> by (auto simp: attested_def digest_of_def)
    have "triple (?at c) (verify_with_retry_reporting D J src temp dst on_progress)
        (\<lambda>_ w. ?good c \<and> ?at c w) ?X ?C"
      by (rule triple_conseq[OF triple_verify[OF s t jr, where g = "g(t \<mapsto> File c True)"]])
        (auto intro: good settledI failedI)
    then show "triple (?at c)
        (io_bind (verify_with_retry_reporting D J src temp dst on_progress) (\<lambda>_. ret Checksummed))
        (\<lambda>tier' w. (tier' = tier \<and> ?good c) \<and> ?at c w) ?X ?C"
      by (rule triple_bind) (rule triple_ret, use checked tier in simp)
  next
    assume "\<not> opt_checksum opts"
    then have "?good c" "SizeChecked = tier" using c tier by (auto simp: attested_def)
    then show "triple (?at c) (ret SizeChecked)
        (\<lambda>tier' w. (tier' = tier \<and> ?good c) \<and> ?at c w) ?X ?C"
      by (auto intro: triple_ret)
  qed
  have clr: "triple (landed E S g t k ?good) (try_io (journal_clear D J dst))
      (\<lambda>_. landed E S g t k ?good) ?X ?C"
    by (rule triple_map_err, unfold failed.simps, rule keeps_landed, rule keeps_journal_clear[OF jr])
  have tail: "triple (?at c)
      (io_bind (try_io (rename temp dst)) (\<lambda>_. io_bind (try_io (journal_clear D J dst)) (\<lambda>_.
         ret (Copied tier' expected replaced dst))))
      (\<lambda>out w. out = Copied tier expected replaced dst \<and> landed E S g t k ?good w) ?X ?C"
    if c: "tier' = tier \<and> ?good c" for tier' c
  proof -
    have rn: "triple (?at c) (try_io (rename temp dst)) (\<lambda>_. landed E S g t k ?good) ?X ?C"
      by (rule triple_map_err, rule triple_conseq[OF triple_commit_rename[where good = ?good, OF t k \<open>t \<noteq> k\<close> conjunct2[OF c]]])
        (auto intro: settledI failedI)
    show ?thesis
      by (rule triple_bind[OF rn], rule triple_bind[OF clr], rule triple_ret) (use c in simp)
  qed
  show ?thesis
    unfolding copy_streaming_def
    by (rule triple_bind[OF fill], rule triple_ex, rule triple_conj, rule triple_bind[OF ver], assumption,
        rule triple_conj, rule tail)
qed

end
