(* ===== verification/Names.thy ===== *)
theory Names
  imports Engine
begin

text \<open>
  Searching for a name that is free. The daemon does it twice (beside a destination, and in a
  trash directory), each time as a counted loop over candidates that are probed on the disk: the
  locale \<open>name_search\<close> has what such a loop finds, from what one probe tells.
\<close>

section \<open>The search\<close>

text \<open>The result of a search: the first free candidate in order, or nothing and all are taken.\<close>

definition found :: "(nat \<Rightarrow> bool) \<Rightarrow> (nat \<Rightarrow> bool) \<Rightarrow> nat \<Rightarrow> nat \<Rightarrow> nat option \<Rightarrow> bool" where
  "found free taken lo hi r \<longleftrightarrow>
     (case r of Some n \<Rightarrow> lo \<le> n \<and> n < hi \<and> free n \<and> (\<forall>m. lo \<le> m \<and> m < n \<longrightarrow> taken m)
      | None \<Rightarrow> \<forall>m. lo \<le> m \<and> m < hi \<longrightarrow> taken m)"

lemma found_step: "taken lo \<Longrightarrow> found free taken (Suc lo) hi r \<Longrightarrow> found free taken lo hi r"
  by (auto simp: found_def le_less_Suc_eq Suc_le_eq split: option.splits)
    (metis nat_less_le)+

locale name_search =
  fixes probe :: "nat \<Rightarrow> ('e, bool, 's) io"
    and free taken :: "nat \<Rightarrow> bool"
    and E :: env and S :: "key set" and g :: "key \<Rightarrow> node option"
  assumes probe: "triple (view E S g) (probe n)
    (\<lambda>b w. (if b then free n else taken n) \<and> view E S g w) (\<lambda>_. view E S g) (view E S g)"
begin

lemma search:
  "triple (view E S g) (first_free probe lo hi) (\<lambda>r w. found free taken lo hi r \<and> view E S g w)
     (\<lambda>_. view E S g) (view E S g)"
proof (induction "hi - lo" arbitrary: lo)
  case 0
  then show ?case
    by (subst first_free.simps) (auto intro!: triple_ret simp: found_def)
next
  case (Suc d)
  then have lo: "lo < hi" and d: "d = hi - Suc lo" by auto
  have "triple (\<lambda>w. (if b then free lo else taken lo) \<and> view E S g w)
      (if b then ret (Some lo) else first_free probe (Suc lo) hi)
      (\<lambda>r w. found free taken lo hi r \<and> view E S g w) (\<lambda>_. view E S g) (view E S g)" for b
  proof (cases b)
    case True
    then show ?thesis using lo by (auto intro!: triple_ret simp: found_def)
  next
    case False
    have "triple (\<lambda>w. taken lo \<and> view E S g w) (first_free probe (Suc lo) hi)
      (\<lambda>r w. found free taken lo hi r \<and> view E S g w) (\<lambda>_. view E S g) (view E S g)"
      by (rule triple_conj, rule triple_conseq[OF Suc(1)[OF d]]) (auto intro: found_step)
    with False show ?thesis by simp
  qed
  with probe[of lo] show ?case
    by (subst first_free.simps) (simp add: lo triple_bind)
qed

end

section \<open>What a probe of the disk tells\<close>

text \<open>A machine that refuses no call.\<close>

definition calm :: "env \<Rightarrow> bool" where
  "calm E \<longleftrightarrow> (\<forall>t. e_fault E t = None)"

text \<open>
  \<open>exists\<close> is right about a key that is there; on a machine that refuses no call it is right
  about one that is not.
\<close>

lemma triple_exists:
  assumes k: "path_key (e_cwd E) p = k"
  shows "triple (view E S g :: 's world \<Rightarrow> bool) (path_exists p)
    (\<lambda>b w. (if b then k \<in> S \<longrightarrow> g k \<noteq> None
            else calm E \<and> k \<in> S \<and> p \<noteq> [] \<and> CHR 0x00 \<notin> set p \<longrightarrow> g k = None) \<and> view E S g w)
    (\<lambda>_. view E S g) (view E S g)"
proof (rule tripleI)
  fix w :: "'s world" and r w1
  assume v: "view E S g w" and run: "path_exists p w = (r, w1)"
  have E: "w_env w = E" using v by (simp add: view_def)
  have k1: "map_of (e_other E t (w_fs w)) k = g k" if "k \<in> S" for t
    using v that by (auto simp: view_def quiet_def)
  obtain rr w2 where md: "metadata p w = (rr, w2)" by fastforce
  have "triple (view E S g) (metadata p) (\<lambda>_. view E S g) (\<lambda>_. view E S g) (view E S g)"
    using keeps_metadata by (simp add: keeps_def)
  from tripleD[OF this v] have keep: "view E S g w2" using md by (cases rr) auto
  have yes: "g k \<noteq> None" if "rr = Ok m" "k \<in> S" for m
    using md that k1 k E
    by (auto simp: metadata_def sys_def Let_def at_path_def split: if_splits option.splits sum.splits)
  have no: "g k = None" if "rr = Err e" "calm E" "k \<in> S" "p \<noteq> []" "CHR 0x00 \<notin> set p" for e
    using md that k1[OF that(3)] k E
    by (auto simp: metadata_def sys_def Let_def at_path_ok calm_def split: if_splits option.splits sum.splits)
  show "case r of Ok b \<Rightarrow> (if b then k \<in> S \<longrightarrow> g k \<noteq> None
      else calm E \<and> k \<in> S \<and> p \<noteq> [] \<and> CHR 0x00 \<notin> set p \<longrightarrow> g k = None) \<and> view E S g w1
    | Err e \<Rightarrow> view E S g w1 | Killed \<Rightarrow> view E S g w1"
    using run md keep yes no
    by (cases rr) (auto simp: path_exists_def map_unwrap_or_def io_match_def ret_def)
qed

section \<open>Names beside a destination\<close>

lemma beside_name_longer: "length m < length (beside_name m i)"
  by (auto simp: beside_name_def split_extension_def Let_def)

lemma split_extension_join: "split_extension m = (a, b) \<Longrightarrow> a @ b = m"
  by (auto simp: split_extension_def Let_def split: if_splits)

lemma beside_name_inject [simp]: "beside_name m i = beside_name m j \<longleftrightarrow> i = j"
  by (auto simp: beside_name_def split: prod.splits)

lemma beside_name_set: "set (beside_name m i) \<subseteq> set m \<union> {CHR ''-''} \<union> {c. is_digit c}"
proof -
  obtain a b where ab: "split_extension m = (a, b)" by fastforce
  have "set a \<subseteq> set m" "set b \<subseteq> set m"
    using split_extension_join[OF ab] by auto
  then show ?thesis using ab show_nat_digits by (auto simp: beside_name_def)
qed

lemma normal_beside_name: "CHR ''/'' \<notin> set m \<Longrightarrow> normal_name (beside_name m i)"
proof -
  assume m: "CHR ''/'' \<notin> set m"
  have "CHR ''-'' \<in> set (beside_name m i)" by (cases "split_extension m") (simp add: beside_name_def)
  moreover have "CHR ''/'' \<notin> set (beside_name m i)"
    using m beside_name_set[of m i] by (auto simp: is_digit_def)
  ultimately show ?thesis by (auto simp: normal_name_def)
qed

lemma beside_name_no_nul: "CHR 0x00 \<notin> set m \<Longrightarrow> CHR 0x00 \<notin> set (beside_name m i)"
  using beside_name_set[of m i] by (auto simp: is_digit_def)

text \<open>The candidates are names in the destination's own directory.\<close>

lemma name_plain: "file_name dst = Some n \<Longrightarrow> CHR ''/'' \<notin> set (from_utf8_lossy n)"
  using file_name_last(3) lossy_no_slash by (auto simp: normal_name_def)

lemma candidate_join:
  assumes fn: "file_name dst = Some n"
  shows "beside_candidate dst i = path_join (dir_of dst) (beside_name (from_utf8_lossy n) i)"
proof -
  obtain d where "parent dst = Some d" by (rule path_key_parent[OF fn])
  with fn show ?thesis by (simp add: beside_candidate_def dir_of_def Let_def)
qed

lemma candidate_key:
  "file_name dst = Some n \<Longrightarrow>
   path_key cwd (beside_candidate dst i) = path_key cwd (dir_of dst) @ [beside_name (from_utf8_lossy n) i]"
  by (simp add: candidate_join path_key_join normal_beside_name name_plain)

lemma candidate_name:
  "file_name dst = Some n \<Longrightarrow> file_name (beside_candidate dst i) = Some (beside_name (from_utf8_lossy n) i)"
  by (simp add: candidate_join file_name_join normal_beside_name name_plain)

lemma candidate_dir:
  assumes fn: "file_name dst = Some n"
  shows "path_key cwd (dir_of (beside_candidate dst i)) = path_key cwd (dir_of dst)"
proof -
  obtain d' where "parent (beside_candidate dst i) = Some d'" "path_key cwd d' = path_key cwd (dir_of dst)"
    by (rule parent_join_key[OF normal_beside_name[OF name_plain[OF fn]], of "dir_of dst" i cwd])
      (auto simp: candidate_join[OF fn])
  then show ?thesis by (simp add: dir_of_def)
qed

lemma candidate_valid: "CHR 0x00 \<notin> set dst \<Longrightarrow> beside_candidate dst i \<noteq> [] \<and> CHR 0x00 \<notin> set (beside_candidate dst i)"
proof
  assume nul: "CHR 0x00 \<notin> set dst"
  have "beside_name m i \<noteq> []" for m using beside_name_longer[of m i] by auto
  then show "beside_candidate dst i \<noteq> []" by (simp add: beside_candidate_def Let_def path_join_not_Nil)
  have "CHR 0x00 \<notin> set (case parent dst of None \<Rightarrow> ''.'' | Some d \<Rightarrow> d)"
    using parent_no_nul[OF _ nul] by (auto split: option.split)
  moreover have "CHR 0x00 \<notin> set (beside_name (case file_name dst of None \<Rightarrow> [] | Some x \<Rightarrow> from_utf8_lossy x) i)"
    using file_name_no_nul[OF _ nul] by (auto split: option.split intro!: beside_name_no_nul lossy_no_nul)
  ultimately show "CHR 0x00 \<notin> set (beside_candidate dst i)"
    by (auto simp: beside_candidate_def Let_def dest!: path_join_set split: option.splits)
qed

text \<open>The search beside a destination finds what \<open>name_search\<close> promises.\<close>

definition beside_free :: "env \<Rightarrow> key set \<Rightarrow> (key \<Rightarrow> node option) \<Rightarrow> path \<Rightarrow> nat \<Rightarrow> bool" where
  "beside_free E S g dst i \<longleftrightarrow>
     (calm E \<and> path_key (e_cwd E) (beside_candidate dst i) \<in> S \<and> CHR 0x00 \<notin> set dst
        \<longrightarrow> g (path_key (e_cwd E) (beside_candidate dst i)) = None)"

definition beside_taken :: "env \<Rightarrow> key set \<Rightarrow> (key \<Rightarrow> node option) \<Rightarrow> path \<Rightarrow> nat \<Rightarrow> bool" where
  "beside_taken E S g dst i \<longleftrightarrow>
     (path_key (e_cwd E) (beside_candidate dst i) \<in> S \<longrightarrow> g (path_key (e_cwd E) (beside_candidate dst i)) \<noteq> None)"

interpretation beside: name_search
  "\<lambda>n. io_bind (path_exists (beside_candidate dst n)) (\<lambda>b. ret (\<not> b))"
  "beside_free E S g dst" "beside_taken E S g dst" E S g
  for E S g dst
proof
  show "triple (view E S g) (io_bind (path_exists (beside_candidate dst n)) (\<lambda>b. ret (\<not> b)))
      (\<lambda>b w. (if b then beside_free E S g dst n else beside_taken E S g dst n) \<and> view E S g w)
      (\<lambda>_. view E S g) (view E S g)" for n
    by (rule triple_bind[OF triple_exists[OF refl]], rule triple_ret)
      (auto simp: beside_free_def beside_taken_def candidate_valid split: if_splits)
qed

lemma triple_free_name_beside:
  "triple (view E S g) (free_name_beside dst)
     (\<lambda>p w. (\<exists>i. p = beside_candidate dst i \<and> found (beside_free E S g dst) (beside_taken E S g dst) 2 10000 (Some i))
        \<and> view E S g w)
     (\<lambda>_. view E S g) (view E S g)"
  unfolding free_name_beside_def
  by (rule triple_bind[OF beside.search], rule triple_conj, rule triple_option)
    (auto intro!: triple_ret triple_fail)

end
