(* ===== verification/Copying.thy ===== *)
theory Copying
  imports Commit Names
begin

text \<open>
  Whole copies: from the discipline of one commit to \<open>copy_file_with\<close>, whichever way the
  temporary file is filled and whichever name the conflict rule picks.
\<close>

section \<open>Copying onto a destination\<close>

lemma attested_other [simp]: "s \<noteq> t \<Longrightarrow> attested E D (g(t := n)) s expected tier = attested E D g s expected tier"
  by (simp add: attested_def digest_of_def fun_eq_iff)

lemma landed_other [simp]: "landed E S (g(t := n)) t k good = landed E S g t k good"
  by (simp add: landed_def fun_eq_iff)

lemma settled_other [simp]: "settled E S (g(t := n)) t k good = settled E S g t k good"
  by (simp add: settled_def fun_eq_iff)

lemma failed_other [simp]: "failed E S (g(t := n)) t k good e = failed E S g t k good e"
  by (cases e) (simp_all add: fun_eq_iff)

text \<open>What the source must be for a size to have been read off it.\<close>

definition size_of_source :: "env \<Rightarrow> (key \<Rightarrow> node option) \<Rightarrow> key \<Rightarrow> u64 \<Rightarrow> bool" where
  "size_of_source E g s expected \<longleftrightarrow> (\<exists>n. g s = Some n \<and> expected = md_len (node_meta E s n))"

definition any_tier ::
  "env \<Rightarrow> crates \<Rightarrow> (key \<Rightarrow> node option) \<Rightarrow> key \<Rightarrow> u64 \<Rightarrow> bytes \<Rightarrow> bool" where
  "any_tier E D g s expected c \<longleftrightarrow> (\<exists>tier. attested E D g s expected tier c)"

lemma any_tierI: "attested E D g s expected tier c \<Longrightarrow> any_tier E D g s expected c"
  by (auto simp: any_tier_def)

lemma settled_any_tier:
  "settled E S g t k (attested E D g s expected tier) w \<Longrightarrow> settled E S g t k (any_tier E D g s expected) w"
  by (erule settled_mono) (rule any_tierI)

lemma failed_any_tier:
  "failed E S g t k (attested E D g s expected tier) e w \<Longrightarrow> failed E S g t k (any_tier E D g s expected) e w"
  by (erule failed_mono) (rule any_tierI)

lemma triple_commit_clone:
  assumes t: "path_key (e_cwd E) temp = t" "t \<in> S" and k: "path_key (e_cwd E) dst = k" "k \<in> S" and "t \<noteq> k"
    and c: "good c"
  shows "triple (view E S (g(t \<mapsto> File c True))) (commit_clone temp dst expected replaced)
    (\<lambda>out w. out = Copied SharedExtents expected replaced dst \<and> landed E S g t k good w)
    (failed E S g t k good) (settled E S g t k good)"
proof -
  let ?X = "settled E S g t k good"
  have rn: "triple (view E S (g(t \<mapsto> File c True))) (rename temp dst)
      (\<lambda>_. landed E S g t k good) (\<lambda>_. view E (S - {t}) g) ?X"
    by (rule triple_conseq[OF triple_commit_rename[where good = good, OF t k \<open>t \<noteq> k\<close> c]]) (auto intro: settledI)
  have rm: "triple (view E (S - {t}) g) (remove_file temp) (\<lambda>_. view E (S - {t}) g) (\<lambda>_. view E (S - {t}) g) ?X"
    by (rule triple_conseq[OF keeps_remove_file[unfolded keeps_def, where p = temp and S = "S - {t}" and g = g]])
      (use t in \<open>auto intro: settledI\<close>)
  show ?thesis
    unfolding commit_clone_def
    by (rule triple_match[OF rn]) (auto intro!: triple_ret triple_discard[OF rm] triple_fail settledI failedI)
qed

lemma triple_copy_onto:
  assumes s: "path_key (e_cwd E) src = s" "s \<in> S"
    and t: "path_key (e_cwd E) (temp_path_for dst) = t" "t \<in> S"
    and k: "path_key (e_cwd E) dst = k" "k \<in> S" and "t \<noteq> k" "s \<noteq> t"
    and whole: "whole_writes E" and jr: "apart E J S"
    and sz: "sized (g s)" "sized (g t)" and size: "size_of_source E g s expected"
  shows "triple (view E S g) (copy_onto D J src dst opts replaced expected on_progress)
    (\<lambda>out w. \<exists>tier. out = Copied tier expected replaced dst \<and> landed E S g t k (attested E D g s expected tier) w)
    (failed E S g t k (any_tier E D g s expected)) (settled E S g t k (any_tier E D g s expected))"
proof -
  let ?X = "failed E S g t k (any_tier E D g s expected)"
  let ?C = "settled E S g t k (any_tier E D g s expected)"
  let ?Q = "\<lambda>out w. \<exists>tier. out = Copied tier expected replaced dst \<and> landed E S g t k (attested E D g s expected tier) w"
  let ?temp = "temp_path_for dst"
  have stream: "triple (temp_only E S g t) (copy_streaming D J src dst ?temp opts replaced expected on_progress)
      ?Q ?X ?C"
    unfolding temp_only_def
  proof (rule triple_ex, rule triple_conj)
    fix n assume n: "sized n"
    show "triple (view E S (g(t := n))) (copy_streaming D J src dst ?temp opts replaced expected on_progress)
      ?Q ?X ?C"
      by (rule triple_conseq[OF triple_copy_streaming
              [OF s t k \<open>t \<noteq> k\<close> \<open>s \<noteq> t\<close> whole jr _ refl, where g = "g(t := n)" and opts = opts]])
        (use n \<open>s \<noteq> t\<close> in \<open>auto simp: sized_def intro: settled_any_tier failed_any_tier\<close>)
  qed
  have here: "triple (view E S g) (copy_streaming D J src dst ?temp opts replaced expected on_progress) ?Q ?X ?C"
    by (rule triple_pre[OF stream]) (rule temp_onlyI, auto intro: sz)
  have same: "triple (view E S g) (try_io (same_filesystem src dst)) (\<lambda>_. view E S g) ?X ?C"
    by (rule keeps_triple[OF keeps_map_err[OF keeps_same_filesystem]]) (auto intro: settledI failedI view_weaken)
  have refl: "triple (view E S g) (try_reflink_into_temp src ?temp)
      (\<lambda>b w. if b then \<exists>c. (\<exists>d. g s = Some (File c d)) \<and> view E S (g(t \<mapsto> File c True)) w
             else temp_only E S g t w) (\<lambda>_. temp_only E S g t) ?C"
    by (rule triple_conseq[OF triple_reflink[OF s t \<open>s \<noteq> t\<close> sz]]) (auto intro: settledI temp_only_view)
  have clone: "triple (\<lambda>w. \<exists>c. (\<exists>d. g s = Some (File c d)) \<and> view E S (g(t \<mapsto> File c True)) w)
      (commit_clone ?temp dst expected replaced) ?Q ?X ?C"
  proof (rule triple_ex, rule triple_conj)
    fix c assume c: "\<exists>d. g s = Some (File c d)"
    then have good: "attested E D g s expected SharedExtents c"
      using sz(1) size by (auto simp: attested_def sized_def size_of_source_def)
    show "triple (view E S (g(t \<mapsto> File c True))) (commit_clone ?temp dst expected replaced) ?Q ?X ?C"
      by (rule triple_conseq[OF triple_commit_clone[OF t k \<open>t \<noteq> k\<close>, where g = g,
            of "attested E D g s expected SharedExtents", OF good]])
        (auto intro: settled_any_tier failed_any_tier)
  qed
  show ?thesis
    unfolding copy_onto_def Let_def
  proof (rule triple_bind[OF same], rule triple_if)
    show "triple (view E S g) (io_match (try_reflink_into_temp src ?temp)
        (\<lambda>cloned. if cloned then commit_clone ?temp dst expected replaced
           else copy_streaming D J src dst ?temp opts replaced expected on_progress)
        (\<lambda>_. copy_streaming D J src dst ?temp opts replaced expected on_progress)) ?Q ?X ?C"
      by (rule triple_match[OF refl _ stream]) (simp add: clone stream)
  qed (rule here)
qed

section \<open>Copying a file\<close>

text \<open>
  What a copy needs of its surroundings: the keys that are watched hold the source and every
  name in the destination's directory, none of them the journal's; no file is larger than the
  kernel allows; the source is not one of the daemon's own temporary files.
\<close>

definition dest_dir :: "env \<Rightarrow> path \<Rightarrow> key" where
  "dest_dir E dst = path_key (e_cwd E) (dir_of dst)"

definition ready :: "env \<Rightarrow> journal \<Rightarrow> key set \<Rightarrow> (key \<Rightarrow> node option) \<Rightarrow> path \<Rightarrow> path \<Rightarrow> bool" where
  "ready E J S g src dst \<longleftrightarrow>
     whole_writes E \<and> apart E J S \<and> file_name dst \<noteq> None
     \<and> (\<forall>x. dest_dir E dst @ [x] \<in> S) \<and> path_key (e_cwd E) src \<in> S
     \<and> (\<forall>x. path_key (e_cwd E) src \<noteq> dest_dir E dst @ [temp_name x])
     \<and> (\<forall>k\<in>S. sized (g k))"

text \<open>The path a transfer lands on, and whether it replaces a file, by the conflict rule.\<close>

definition chosen ::
  "env \<Rightarrow> key set \<Rightarrow> (key \<Rightarrow> node option) \<Rightarrow> path \<Rightarrow> conflict \<Rightarrow> bool \<Rightarrow> path option \<Rightarrow> bool" where
  "chosen E S g dst rule existed r \<longleftrightarrow>
     (if existed then g (path_key (e_cwd E) dst) \<noteq> None
      else calm E \<and> dst \<noteq> [] \<and> CHR 0x00 \<notin> set dst \<longrightarrow> g (path_key (e_cwd E) dst) = None)
     \<and> (if \<not> existed \<or> rule = Replace then r = Some dst
        else if rule = Skip then r = None
        else \<exists>i. r = Some (beside_candidate dst i)
               \<and> found (beside_free E S g dst) (beside_taken E S g dst) 2 10000 (Some i))"

text \<open>Bytes that may stand under a committed name: some tier attests them for the source's size.\<close>

definition faithful :: "env \<Rightarrow> crates \<Rightarrow> (key \<Rightarrow> node option) \<Rightarrow> key \<Rightarrow> bytes \<Rightarrow> bool" where
  "faithful E D g s c \<longleftrightarrow> (\<exists>expected. size_of_source E g s expected \<and> any_tier E D g s expected c)"

text \<open>How a transfer into a directory can end, or be killed.\<close>

definition ended :: "env \<Rightarrow> key set \<Rightarrow> (key \<Rightarrow> node option) \<Rightarrow> key \<Rightarrow> (bytes \<Rightarrow> bool) \<Rightarrow> 's world \<Rightarrow> bool" where
  "ended E S g dd good w \<longleftrightarrow> (\<exists>x. settled E S g (dd @ [temp_name (from_utf8_lossy x)]) (dd @ [x]) good w)"

fun ended_with ::
  "env \<Rightarrow> key set \<Rightarrow> (key \<Rightarrow> node option) \<Rightarrow> key \<Rightarrow> (bytes \<Rightarrow> bool) \<Rightarrow> transfer_error \<Rightarrow> 's world \<Rightarrow> bool" where
  "ended_with E S g dd good (Io e) w = ended E S g dd good w"
| "ended_with E S g dd good e w = (\<exists>x. view E (S - {dd @ [temp_name x]}) g w)"

definition copied ::
  "env \<Rightarrow> crates \<Rightarrow> key set \<Rightarrow> (key \<Rightarrow> node option) \<Rightarrow> key \<Rightarrow> path \<Rightarrow> path \<Rightarrow> options \<Rightarrow> outcome \<Rightarrow> 's world \<Rightarrow> bool" where
  "copied E D S g s dst0 dst opts out w \<longleftrightarrow>
     (\<exists>tier bytes replaced x. out = Copied tier bytes replaced dst \<and> size_of_source E g s bytes
        \<and> path_key (e_cwd E) dst = dest_dir E dst0 @ [x]
        \<and> landed E S g (dest_dir E dst0 @ [temp_name (from_utf8_lossy x)]) (dest_dir E dst0 @ [x])
            (attested E D g s bytes tier) w)"

lemma ended_view: "view E S g w \<Longrightarrow> ended E S g dd good w"
  by (auto simp: ended_def intro!: settledI view_weaken)

lemma ended_with_view: "view E S g w \<Longrightarrow> ended_with E S g dd good e w"
  by (cases e) (auto intro: ended_view view_weaken)

lemma triple_resolve:
  assumes S: "path_key (e_cwd E) dst \<in> S"
    and f: "\<And>existed r. chosen E S g dst rule existed r \<Longrightarrow> triple (view E S g) (f existed r) Q X C"
    and X: "\<And>e w. view E S g w \<Longrightarrow> X e w" and C: "\<And>w. view E S g w \<Longrightarrow> C w"
  shows "triple (view E S g) (io_bind (path_exists dst) (\<lambda>existed. io_bind (resolve_conflict dst existed rule) (f existed)))
    Q X C"
proof -
  let ?k = "path_key (e_cwd E) dst"
  let ?there = "\<lambda>existed. if existed then ?k \<in> S \<longrightarrow> g ?k \<noteq> None
      else calm E \<and> ?k \<in> S \<and> dst \<noteq> [] \<and> CHR 0x00 \<notin> set dst \<longrightarrow> g ?k = None"
  have ex: "triple (view E S g) (path_exists dst) (\<lambda>existed w. ?there existed \<and> view E S g w) X C"
    by (rule triple_conseq[OF triple_exists[OF refl]]) (auto intro: X C)
  have rest: "triple (\<lambda>w. ?there existed \<and> view E S g w)
      (io_bind (resolve_conflict dst existed rule) (f existed)) Q X C" for existed
  proof (rule triple_conj)
    assume there: "?there existed"
    have "triple (view E S g) (resolve_conflict dst existed rule)
        (\<lambda>r w. chosen E S g dst rule existed r \<and> view E S g w) X C"
    proof (cases "existed \<and> rule = KeepBoth")
      case True
      have fb: "triple (view E S g) (free_name_beside dst)
          (\<lambda>p w. (\<exists>i. p = beside_candidate dst i
              \<and> found (beside_free E S g dst) (beside_taken E S g dst) 2 10000 (Some i)) \<and> view E S g w) X C"
        by (rule triple_conseq[OF triple_free_name_beside]) (auto intro: X C)
      have ch: "chosen E S g dst rule existed (Some p)"
        if "\<exists>i. p = beside_candidate dst i
              \<and> found (beside_free E S g dst) (beside_taken E S g dst) 2 10000 (Some i)" for p
        using True there S that by (auto simp: chosen_def)
      have "triple (view E S g) (io_bind (free_name_beside dst) (\<lambda>p. ret (Some p)))
          (\<lambda>r w. chosen E S g dst rule existed r \<and> view E S g w) X C"
      proof (rule triple_bind[OF fb])
        fix p
        show "triple (\<lambda>w. (\<exists>i. p = beside_candidate dst i
              \<and> found (beside_free E S g dst) (beside_taken E S g dst) 2 10000 (Some i)) \<and> view E S g w)
            (ret (Some p)) (\<lambda>r w. chosen E S g dst rule existed r \<and> view E S g w) X C"
          by (rule triple_ret) (elim conjE, intro conjI ch)
      qed
      with True show ?thesis by (simp add: resolve_conflict_def)
    next
      case False
      then show ?thesis
        using there S
        by (cases rule) (auto simp: resolve_conflict_def chosen_def intro!: triple_ret)
    qed
    then show "triple (view E S g) (io_bind (resolve_conflict dst existed rule) (f existed)) Q X C"
      by (rule triple_bind) (rule triple_conj, rule f)
  qed
  show ?thesis by (rule triple_bind[OF ex rest])
qed

text \<open>The chosen path, with its key and the key of its temporary file.\<close>

lemma chosen_path:
  assumes "ready E J S g src dst" "chosen E S g dst rule existed (Some p)"
  obtains x where "path_key (e_cwd E) p = dest_dir E dst @ [x]" "dest_dir E dst @ [x] \<in> S"
    "path_key (e_cwd E) (temp_path_for p) = dest_dir E dst @ [temp_name (from_utf8_lossy x)]"
    "dest_dir E dst @ [temp_name (from_utf8_lossy x)] \<in> S" "temp_name (from_utf8_lossy x) \<noteq> x"
proof -
  from assms(1) obtain n where n: "file_name dst = Some n" by (auto simp: ready_def)
  have "p = dst \<or> (\<exists>i. p = beside_candidate dst i)"
    using assms(2) by (auto simp: chosen_def split: if_splits)
  then obtain x where x: "file_name p = Some x" "path_key (e_cwd E) (dir_of p) = dest_dir E dst"
    using n candidate_name[OF n] candidate_dir[OF n] by (auto simp: dest_dir_def)
  have "length x < length (temp_name (from_utf8_lossy x))"
    using length_lossy[of x] temp_name_longer[of "from_utf8_lossy x"] by simp
  then have "temp_name (from_utf8_lossy x) \<noteq> x" by auto
  with that[of x] x assms(1) show thesis
    by (simp add: key_of_file key_of_temp ready_def)
qed

lemma triple_copy_chosen:
  assumes rd: "ready E J S g src dst" and ch: "chosen E S g dst rule existed (Some p)"
    and s: "path_key (e_cwd E) src = s" and size: "size_of_source E g s expected"
  shows "triple (view E S g) (copy_onto D J src p opts replaced expected on_progress)
    (\<lambda>out w. (\<exists>tier. out = Copied tier expected replaced p) \<and> copied E D S g s dst p opts out w)
    (ended_with E S g (dest_dir E dst) (faithful E D g s)) (ended E S g (dest_dir E dst) (faithful E D g s))"
proof (rule chosen_path[OF rd ch])
  fix x
  let ?t = "dest_dir E dst @ [temp_name (from_utf8_lossy x)]"
  assume x: "path_key (e_cwd E) p = dest_dir E dst @ [x]" "dest_dir E dst @ [x] \<in> S"
    "path_key (e_cwd E) (temp_path_for p) = ?t" "?t \<in> S" "temp_name (from_utf8_lossy x) \<noteq> x"
  have faith: "ended E S g (dest_dir E dst) (faithful E D g s) w"
    if "settled E S g ?t (dest_dir E dst @ [x]) (any_tier E D g s expected) w" for w
    unfolding ended_def using that size
    by (intro exI[of _ x]) (auto elim!: settled_mono simp: faithful_def)
  have faith_with: "ended_with E S g (dest_dir E dst) (faithful E D g s) e w"
    if "failed E S g ?t (dest_dir E dst @ [x]) (any_tier E D g s expected) e w" for e w
    using that faith by (cases e) auto
  have r: "s \<in> S" "whole_writes E" "apart E J S" "s \<noteq> ?t" "sized (g s)" "sized (g ?t)" "?t \<noteq> dest_dir E dst @ [x]"
    using rd s x(4,5) by (auto simp: ready_def)
  show ?thesis
    by (rule triple_conseq[OF triple_copy_onto[OF s r(1) x(3,4) x(1,2) r(7,4,2,3,5,6) size]])
      (use x(1) size in \<open>auto simp: copied_def intro: faith faith_with\<close>)
qed

lemma triple_copy_file_with:
  assumes rd: "ready E J S g src dst" and s: "path_key (e_cwd E) src = s"
  shows "triple (view E S g) (copy_file_with D J src dst opts on_progress)
    (\<lambda>out w. \<exists>existed r. chosen E S g dst (opt_on_conflict opts) existed r \<and>
       (case r of
          None \<Rightarrow> out = SkippedExisting \<and> view E S g w
        | Some p \<Rightarrow> (\<exists>tier bytes. out = Copied tier bytes (existed \<and> opt_on_conflict opts = Replace) p)
                    \<and> copied E D S g s dst p opts out w))
    (ended_with E S g (dest_dir E dst) (faithful E D g s)) (ended E S g (dest_dir E dst) (faithful E D g s))"
proof -
  let ?X = "ended_with E S g (dest_dir E dst) (faithful E D g s)"
  let ?C = "ended E S g (dest_dir E dst) (faithful E D g s)"
  obtain n where n: "file_name dst = Some n" using rd by (auto simp: ready_def)
  have k: "path_key (e_cwd E) dst \<in> S" using rd n by (simp add: ready_def key_of_file dest_dir_def)
  have sS: "s \<in> S" using rd s by (simp add: ready_def)
  have meta: "triple (view E S g) (try_io (metadata src))
      (\<lambda>m w. size_of_source E g s (md_len m) \<and> view E S g w) ?X ?C"
    by (rule triple_map_err, rule triple_conseq[OF triple_metadata[OF s sS]])
      (auto simp: size_of_source_def intro: ended_view ended_with_view)
  show ?thesis
    unfolding copy_file_with_def Let_def
  proof (rule triple_bind[OF meta], rule triple_conj, rule triple_resolve[OF k])
    fix m existed r
    assume size: "size_of_source E g s (md_len m)" and ch: "chosen E S g dst (opt_on_conflict opts) existed r"
    show "triple (view E S g)
        (case r of None \<Rightarrow> ret SkippedExisting
         | Some p \<Rightarrow> copy_onto D J src p opts (existed \<and> opt_on_conflict opts = Replace) (md_len m) on_progress)
        (\<lambda>out w. \<exists>existed r. chosen E S g dst (opt_on_conflict opts) existed r \<and>
           (case r of
              None \<Rightarrow> out = SkippedExisting \<and> view E S g w
            | Some p \<Rightarrow> (\<exists>tier bytes. out = Copied tier bytes (existed \<and> opt_on_conflict opts = Replace) p)
                        \<and> copied E D S g s dst p opts out w))
        ?X ?C"
    proof (cases r)
      case None
      with ch show ?thesis by (auto intro!: triple_ret exI)
    next
      case (Some p)
      show ?thesis
        unfolding Some option.case
        by (rule triple_conseq[OF triple_copy_chosen[OF rd ch[unfolded Some] s size]])
          (use ch Some in \<open>auto intro!: exI[of _ existed] exI[of _ "Some p"]\<close>)
    qed
  qed (auto intro: ended_view ended_with_view)
qed

end
