(* ===== verification/Scenario.thy ===== *)
theory Scenario
  imports Copying "HOL-Library.Code_Target_Nat"
begin

text \<open>
  A concrete machine on which the theorems are instantiated: two directories, a source file, an
  older file at the destination, a state directory, and crates that stand for the real ones
  (an injective digest, a codec for no entry).
\<close>

definition lab_reading :: "(nat \<Rightarrow> bytes \<Rightarrow> bytes) \<Rightarrow> env" where
  "lab_reading rd =
     \<lparr>e_cwd = [], e_dev = \<lambda>k. 0, e_cow = \<lambda>d. False, e_dirlen = \<lambda>k. 4096, e_kill = 1000,
      e_fault = \<lambda>t. None, e_read = rd, e_write = \<lambda>t b. b, e_torn = \<lambda>t. 0,
      e_other = \<lambda>t f. f,
      e_statvfs = \<lambda>k. \<lparr>f_blocks = 100, f_bavail = 40, f_frsize = 4096, f_bsize = 4096\<rparr>,
      e_strerror = \<lambda>k. ''error'', e_vars = \<lambda>v. None, e_now = \<lambda>t. 0, e_date_z = None\<rparr>"

text \<open>Reads that return what is stored, and reads that find every file empty.\<close>

definition whole_read :: "nat \<Rightarrow> bytes \<Rightarrow> bytes" where
  "whole_read t b = b"

definition empty_read :: "nat \<Rightarrow> bytes \<Rightarrow> bytes" where
  "empty_read t b = []"

definition lab_fs :: fs where
  "lab_fs = [([], Dir), ([''src''], Dir), ([''src'', ''a''], File ''hello'' True), ([''dst''], Dir),
             ([''dst'', ''b''], File ''old'' True), ([''state''], Dir)]"

definition lab_world :: "(nat \<Rightarrow> bytes \<Rightarrow> bytes) \<Rightarrow> unit world" where
  "lab_world rd = \<lparr>w_env = lab_reading rd, w_fs = lab_fs, w_tick = 0, w_cap = ()\<rparr>"

definition lab_crates :: crates where
  "lab_crates = \<lparr>sha256 = \<lambda>b. b, to_json = \<lambda>e. Inr [], from_json = \<lambda>b. None\<rparr>"

definition lab_journal :: journal where
  "lab_journal = \<lparr>j_dir = ''/state''\<rparr>"

text \<open>The keys a transfer is judged by: the source, and every name in the destination's directory.\<close>

definition watched :: "env \<Rightarrow> path \<Rightarrow> path \<Rightarrow> key set" where
  "watched E src dst = insert (path_key (e_cwd E) src) {k. k \<noteq> [] \<and> butlast k = dest_dir E dst}"

definition transfer_ready :: "env \<Rightarrow> journal \<Rightarrow> fs \<Rightarrow> path \<Rightarrow> path \<Rightarrow> bool" where
  "transfer_ready E J f src dst \<longleftrightarrow>
     quiet E (watched E src dst) \<and> ready E J (watched E src dst) (map_of f) src dst"

lemma watched_name: "dest_dir E dst @ [x] \<in> watched E src dst"
  by (simp add: watched_def)

lemma watched_source: "path_key (e_cwd E) src \<in> watched E src dst"
  by (simp add: watched_def)

lemma transfer_ready_view:
  "transfer_ready (w_env w) J (w_fs w) src dst \<Longrightarrow>
   view (w_env w) (watched (w_env w) src dst) (map_of (w_fs w)) w"
  by (simp add: transfer_ready_def view_start)

definition unreported :: "unit progress" where
  "unreported ph done tot s = s"

definition lab_copy :: "(nat \<Rightarrow> bytes \<Rightarrow> bytes) \<Rightarrow> options \<Rightarrow> path \<Rightarrow> (transfer_error, outcome) res \<times> unit world" where
  "lab_copy rd opts dst = copy_file_with lab_crates lab_journal ''/src/a'' dst opts unreported (lab_world rd)"

definition replace_checked :: options where
  "replace_checked = \<lparr>opt_checksum = True, opt_on_conflict = Replace\<rparr>"

definition keep_both :: options where
  "keep_both = \<lparr>opt_checksum = False, opt_on_conflict = KeepBoth\<rparr>"

lemma lab_paths:
  "path_key [] ''/src/a'' = [''src'', ''a'']" "path_key [] ''/state'' = [''state'']"
  "path_key [] (dir_of ''/dst/b'') = [''dst'']" "path_key [] (dir_of ''/dst/c'') = [''dst'']"
  "file_name ''/dst/b'' = Some ''b''" "file_name ''/dst/c'' = Some ''c''" "file_name ''/src/a'' = Some ''a''"
  "path_key [] ''/dst/b'' = [''dst'', ''b'']" "path_key [] ''/dst/c'' = [''dst'', ''c'']"
  by code_simp+

lemma lab_simps [simp]:
  "e_cwd (lab_reading rd) = []" "e_fault (lab_reading rd) t = None" "e_other (lab_reading rd) t f = f"
  "e_read (lab_reading rd) = rd" "e_write (lab_reading rd) t b = b"
  "w_env (lab_world rd) = lab_reading rd" "w_fs (lab_world rd) = lab_fs"
  by (simp_all add: lab_reading_def lab_world_def)

lemma lab_keys:
  "dest_dir (lab_reading rd) ''/dst/b'' = [''dst'']" "dest_dir (lab_reading rd) ''/dst/c'' = [''dst'']"
  by (simp_all add: dest_dir_def lab_paths)

lemma lab_files:
  "map_of lab_fs [''src'', ''a''] = Some (File ''hello'' True)"
  "map_of lab_fs [''dst'', ''b''] = Some (File ''old'' True)" "map_of lab_fs [''dst'', ''c''] = None"
  by (simp_all add: lab_fs_def)

lemma lab_calm: "calm (lab_reading rd)"
  by (simp add: calm_def)

lemma lab_honest: "honest_reads (lab_reading whole_read)"
  by (simp add: honest_reads_def whole_read_def)

lemma lab_ready_at:
  assumes "dst \<in> {''/dst/b'', ''/dst/c''}" and sized: "\<And>k. sized (map_of f k)"
    and J: "path_key [] (j_dir J) = h # t" "h \<noteq> ''src''" "h \<noteq> ''dst''"
  shows "transfer_ready (lab_reading rd) J f ''/src/a'' dst"
proof -
  let ?S = "watched (lab_reading rd) ''/src/a'' dst"
  have "whole_writes (lab_reading rd)" "quiet (lab_reading rd) ?S"
    by (simp_all add: whole_writes_def quiet_def)
  moreover have "apart (lab_reading rd) J ?S"
    unfolding apart_def
  proof
    fix k assume "k \<in> ?S"
    then have "k = [''src'', ''a''] \<or> k \<noteq> [] \<and> butlast k = [''dst'']"
      using assms(1) by (auto simp: watched_def lab_keys lab_paths)
    then have "hd k = ''src'' \<or> hd k = ''dst''"
      by (metis append_Cons append_butlast_last_id list.sel(1))
    then show "\<not> prefix (path_key (e_cwd (lab_reading rd)) (j_dir J)) k"
      using J by (auto simp: prefix_def)
  qed
  moreover have "[''src'', ''a''] \<in> ?S"
    using watched_source[of "lab_reading rd" "''/src/a''" dst] by (simp add: lab_paths)
  ultimately show ?thesis
    using assms(1) sized watched_name[of "lab_reading rd" dst _ "''/src/a''"]
    by (auto simp: transfer_ready_def ready_def lab_keys lab_paths)
qed

lemma lab_ready:
  assumes "dst \<in> {''/dst/b'', ''/dst/c''}"
  shows "transfer_ready (w_env (lab_world rd)) lab_journal (w_fs (lab_world rd)) ''/src/a'' dst"
proof -
  have "sized (map_of lab_fs k)" for k
    by (simp add: lab_fs_def sized_def MAX_FILE_def)
  then have "transfer_ready (lab_reading rd) lab_journal lab_fs ''/src/a'' dst"
    by (rule lab_ready_at[OF assms, where h = "''state''" and t = "[]"]) (simp_all add: lab_journal_def lab_paths)
  then show ?thesis by simp
qed

section \<open>Runs on the concrete machine\<close>

lemma lab_run:
  assumes "fst (lab_copy rd opts dst) = r"
  shows "copy_file_with lab_crates lab_journal ''/src/a'' dst opts unreported (lab_world rd)
    = (r, snd (lab_copy rd opts dst))"
  using assms by (simp add: lab_copy_def prod_eq_iff)

lemma lab_copies: "fst (lab_copy whole_read default_options ''/dst/c'') = Ok (Copied SizeChecked 5 False ''/dst/c'')"
  by code_simp

lemma lab_checksums:
  "fst (lab_copy whole_read replace_checked ''/dst/b'')
    = Ok (Copied Checksummed 5 True ''/dst/b'')"
  by code_simp

lemma lab_keeps_both:
  "fst (lab_copy whole_read keep_both ''/dst/b'')
    = Ok (Copied SizeChecked 5 False ''/dst/b-2'')"
  by code_simp

lemma lab_mismatches: "fst (lab_copy empty_read default_options ''/dst/c'') = Err (SizeMismatch ''/dst/c'' 5 0)"
  by code_simp

end
