(* ===== verification/Transfers.thy ===== *)
theory Transfers
  imports Scenario
begin

text \<open>
  What the engine promises of a copy, over every machine: whichever call fails, whatever a read
  returns or a write keeps, wherever the process is killed. The destination directory is quiet
  (no other process writes in it) and the watched files are of a size a kernel can have.
\<close>

section \<open>Copies\<close>

lemma run_cases:
  assumes "triple P m Q X C" "P w" "m w = (r, w')"
  obtains (ok) a where "r = Ok a" "Q a w'" | (err) e where "r = Err e" "X e w'" | (killed) "r = Killed" "C w'"
  using tripleD[OF assms(1,2)] assms(3) by (cases r) auto

text \<open>The view a copy ends with.\<close>

lemma settled_landed: "landed E S g t k good w \<Longrightarrow> settled E S g t k good w"
  by (simp add: settled_def)

lemma attested_faithful: "size_of_source E g s n \<Longrightarrow> attested E D g s n tier c \<Longrightarrow> faithful E D g s c"
  by (auto simp: faithful_def any_tier_def)

lemma landed_faithful:
  assumes "size_of_source E g s n" "landed E S g t k (attested E D g s n tier) w"
  shows "settled E S g t k (faithful E D g s) w"
  by (rule settled_landed, rule landed_mono[OF assms(2)]) (rule attested_faithful[OF assms(1)])

lemma copied_ended: "copied E D S g s dst p opts out w \<Longrightarrow> ended E S g (dest_dir E dst) (faithful E D g s) w"
  unfolding copied_def ended_def by (blast intro: landed_faithful)

text \<open>The effect of a transfer on the watched keys: one temporary file, and one name or none.\<close>

definition one_name ::
  "env \<Rightarrow> key set \<Rightarrow> (key \<Rightarrow> node option) \<Rightarrow> key \<Rightarrow> (bytes \<Rightarrow> bool) \<Rightarrow> fs \<Rightarrow> bool" where
  "one_name E S g dd good f \<longleftrightarrow>
     (\<exists>n x. (\<forall>k\<in>S. k \<noteq> dd @ [n] \<and> k \<noteq> dd @ [temp_name x] \<longrightarrow> map_of f k = g k)
        \<and> ((\<forall>y. n \<noteq> temp_name y) \<longrightarrow> map_of f (dd @ [n]) = g (dd @ [n])
             \<or> (\<exists>c. map_of f (dd @ [n]) = Some (File c True) \<and> good c)))"

lemma settled_one_name:
  assumes "settled E S g (dd @ [temp_name x]) (dd @ [n]) good w" "dd @ [n] \<in> S"
  shows "one_name E S g dd good (w_fs w)"
  unfolding one_name_def
  using assms by (intro exI[of _ n] exI[of _ x]) (auto simp: settled_def landed_def view_def)

lemma ended_one_name:
  "ended E S g dd good w \<Longrightarrow> (\<And>x. dd @ [x] \<in> S) \<Longrightarrow> one_name E S g dd good (w_fs w)"
  by (auto simp: ended_def intro: settled_one_name)

lemma view_one_name:
  "view E (S - {dd @ [temp_name x]}) g w \<Longrightarrow> (\<And>x. dd @ [x] \<in> S) \<Longrightarrow> one_name E S g dd good (w_fs w)"
  by (rule settled_one_name[of E S g dd x x]) (auto intro: settledI)

lemma ended_with_one_name:
  assumes "ended_with E S g dd good e w" "\<And>x. dd @ [x] \<in> S"
  shows "one_name E S g dd good (w_fs w)"
  using assms by (cases e) (auto intro: ended_one_name view_one_name)

lemma copy_run:
  assumes "transfer_ready (w_env w) J (w_fs w) src dst"
    and "copy_file_with D J src dst opts on_progress w = (r, w')"
  obtains (skipped) "r = Ok SkippedExisting" "opt_on_conflict opts = Skip"
      "map_of (w_fs w) (path_key (e_cwd (w_env w)) dst) \<noteq> None"
      "view (w_env w) (watched (w_env w) src dst) (map_of (w_fs w)) w'"
  | (copied) existed tier bytes p where
      "r = Ok (Copied tier bytes (existed \<and> opt_on_conflict opts = Replace) p)"
      "chosen (w_env w) (watched (w_env w) src dst) (map_of (w_fs w)) dst (opt_on_conflict opts) existed (Some p)"
      "copied (w_env w) D (watched (w_env w) src dst) (map_of (w_fs w)) (path_key (e_cwd (w_env w)) src) dst p opts
         (Copied tier bytes (existed \<and> opt_on_conflict opts = Replace) p) w'"
  | (err) e where "r = Err e"
      "ended_with (w_env w) (watched (w_env w) src dst) (map_of (w_fs w)) (dest_dir (w_env w) dst)
         (faithful (w_env w) D (map_of (w_fs w)) (path_key (e_cwd (w_env w)) src)) e w'"
  | (killed) "r = Killed"
      "ended (w_env w) (watched (w_env w) src dst) (map_of (w_fs w)) (dest_dir (w_env w) dst)
         (faithful (w_env w) D (map_of (w_fs w)) (path_key (e_cwd (w_env w)) src)) w'"
proof -
  have rd: "ready (w_env w) J (watched (w_env w) src dst) (map_of (w_fs w)) src dst"
    using assms(1) by (simp add: transfer_ready_def)
  show thesis
  proof (rule run_cases[OF triple_copy_file_with[OF rd refl] transfer_ready_view[OF assms(1)] assms(2)])
    fix out
    assume "r = Ok out"
    assume "\<exists>existed ra. chosen (w_env w) (watched (w_env w) src dst) (map_of (w_fs w)) dst (opt_on_conflict opts) existed ra \<and>
       (case ra of None \<Rightarrow> out = SkippedExisting \<and> view (w_env w) (watched (w_env w) src dst) (map_of (w_fs w)) w'
        | Some p \<Rightarrow> (\<exists>tier bytes. out = Copied tier bytes (existed \<and> opt_on_conflict opts = Replace) p)
            \<and> copied (w_env w) D (watched (w_env w) src dst) (map_of (w_fs w)) (path_key (e_cwd (w_env w)) src) dst p opts out w')"
    then obtain existed ra where ra: "chosen (w_env w) (watched (w_env w) src dst) (map_of (w_fs w)) dst (opt_on_conflict opts) existed ra"
      "case ra of None \<Rightarrow> out = SkippedExisting \<and> view (w_env w) (watched (w_env w) src dst) (map_of (w_fs w)) w'
        | Some p \<Rightarrow> (\<exists>tier bytes. out = Copied tier bytes (existed \<and> opt_on_conflict opts = Replace) p)
            \<and> copied (w_env w) D (watched (w_env w) src dst) (map_of (w_fs w)) (path_key (e_cwd (w_env w)) src) dst p opts out w'"
      by blast
    show thesis
    proof (cases ra)
      case None
      with ra \<open>r = Ok out\<close> show thesis
        by (intro skipped) (auto simp: chosen_def split: if_splits)
    next
      case (Some p)
      with ra(2) obtain tier bytes where
        out: "out = Copied tier bytes (existed \<and> opt_on_conflict opts = Replace) p" by auto
      with ra Some \<open>r = Ok out\<close> show thesis
        by (intro copied[of tier bytes existed p]) auto
    qed
  qed (use err killed in blast)+
qed

lemma copy_one_name:
  assumes "transfer_ready (w_env w) J (w_fs w) src dst"
    and "copy_file_with D J src dst opts on_progress w = (r, w')"
  shows "one_name (w_env w) (watched (w_env w) src dst) (map_of (w_fs w)) (dest_dir (w_env w) dst)
    (faithful (w_env w) D (map_of (w_fs w)) (path_key (e_cwd (w_env w)) src)) (w_fs w')"
proof (rule copy_run[OF assms])
  assume "view (w_env w) (watched (w_env w) src dst) (map_of (w_fs w)) w'"
  then show ?thesis by (intro ended_one_name[OF ended_view] watched_name)
next
  fix existed tier bytes p
  assume "copied (w_env w) D (watched (w_env w) src dst) (map_of (w_fs w)) (path_key (e_cwd (w_env w)) src) dst p opts
         (Copied tier bytes (existed \<and> opt_on_conflict opts = Replace) p) w'"
  then show ?thesis by (intro ended_one_name[OF copied_ended] watched_name)
qed (auto intro: ended_one_name ended_with_one_name watched_name)

text \<open>
  C1. A copy is atomic, however it ends. Whatever the outcome (returned, failed or killed at any
  tick), at most one name of the destination directory changed besides one of the daemon's
  temporary names, and that name holds either what it held before or one whole, durable file
  whose bytes some verification tier attests; every other watched file, the source included
  unless it is the destination, is untouched.
\<close>

theorem copy_is_atomic:
  assumes "transfer_ready (w_env w) J (w_fs w) src dst"
    and "copy_file_with D J src dst opts on_progress w = (r, w')"
  shows "one_name (w_env w) (watched (w_env w) src dst) (map_of (w_fs w)) (dest_dir (w_env w) dst)
    (faithful (w_env w) D (map_of (w_fs w)) (path_key (e_cwd (w_env w)) src)) (w_fs w')"
  by (rule copy_one_name[OF assms])

text \<open>
  C2. What \<open>Ok(Copied)\<close> means. The file under the committed path is durable, and its length, the
  bytes reported and the length of the source agree; a clone has the source's very bytes; the
  committed path is the destination or a name beside it in the same directory.
\<close>

theorem copied_file_is_committed:
  assumes "transfer_ready (w_env w) J (w_fs w) src dst"
    and "copy_file_with D J src dst opts on_progress w = (Ok (Copied tier bytes replaced p), w')"
    and "map_of (w_fs w) (path_key (e_cwd (w_env w)) src) = Some (File c0 d0)"
  shows "\<exists>c. map_of (w_fs w') (path_key (e_cwd (w_env w)) p) = Some (File c True)
    \<and> length c = length c0 \<and> unat bytes = length c0
    \<and> (tier = SharedExtents \<longrightarrow> c = c0)
    \<and> (\<exists>x. path_key (e_cwd (w_env w)) p = dest_dir (w_env w) dst @ [x])"
proof (rule copy_run[OF assms(1,2)])
  fix existed tier' bytes' p'
  let ?E = "w_env w" and ?S = "watched (w_env w) src dst" and ?g = "map_of (w_fs w)"
  let ?s = "path_key (e_cwd (w_env w)) src"
  assume "Ok (Copied tier bytes replaced p) = Ok (Copied tier' bytes' (existed \<and> opt_on_conflict opts = Replace) p')"
    and "copied ?E D ?S ?g ?s dst p' opts (Copied tier' bytes' (existed \<and> opt_on_conflict opts = Replace) p') w'"
  then obtain x where size: "size_of_source ?E ?g ?s bytes" and p: "path_key (e_cwd ?E) p = dest_dir ?E dst @ [x]"
    and landed: "landed ?E ?S ?g (dest_dir ?E dst @ [temp_name (from_utf8_lossy x)]) (dest_dir ?E dst @ [x])
            (attested ?E D ?g ?s bytes tier) w'"
    by (auto simp: copied_def)
  from landed obtain c where c: "attested ?E D ?g ?s bytes tier c"
    and v: "view ?E ?S (?g(dest_dir ?E dst @ [temp_name (from_utf8_lossy x)] := None,
       dest_dir ?E dst @ [x] \<mapsto> File c True)) w'" by (auto simp: landed_def)
  have "map_of (w_fs w') (dest_dir ?E dst @ [x]) = Some (File c True)"
    using view_look[OF v watched_name] by simp
  moreover have b: "bytes = of_nat (length c0)" using size assms(3) by (simp add: size_of_source_def)
  moreover have "length c0 \<le> MAX_FILE"
    using assms(1,3) watched_source[of ?E src dst]
    by (auto simp: transfer_ready_def ready_def sized_def dest: bspec[of _ _ ?s] split: option.splits node.splits)
  moreover have "length c \<le> MAX_FILE" "of_nat (length c) = bytes" using c by (auto simp: attested_def)
  ultimately show ?thesis
    using p c assms(3) by (auto simp: MAX_FILE_def word_of_nat_unat_eq attested_def dest: arg_cong[of _ _ unat])
qed auto

lemma map_of_power_loss:
  "map_of (power_loss keep f) k =
     map_option (\<lambda>n. case n of File c False \<Rightarrow> File (keep k c) False | _ \<Rightarrow> n) (map_of f k)"
proof -
  have "map_of (map (\<lambda>(k, n). (k, h k n)) f) k = map_option (h k) (map_of f k)" for h
    by (induction f) auto
  then show ?thesis by (simp add: power_loss_def)
qed

text \<open>
  C3. A copy survives a power loss. Cut the power after the copy ended or was killed anywhere: a
  name that held a durable file, or nothing, holds that still, or one whole attested file. No
  name of the destination directory but the daemon's temporary ones can come back torn.
\<close>

theorem copy_survives_power_loss:
  assumes "transfer_ready (w_env w) J (w_fs w) src dst"
    and "copy_file_with D J src dst opts on_progress w = (r, w')"
    and "\<forall>y. x \<noteq> temp_name y"
    and "map_of (w_fs w) (dest_dir (w_env w) dst @ [x]) = old" "old = None \<or> (\<exists>c. old = Some (File c True))"
  shows "map_of (power_loss keep (w_fs w')) (dest_dir (w_env w) dst @ [x]) = old
    \<or> (\<exists>c. map_of (power_loss keep (w_fs w')) (dest_dir (w_env w) dst @ [x]) = Some (File c True)
         \<and> faithful (w_env w) D (map_of (w_fs w)) (path_key (e_cwd (w_env w)) src) c)"
proof -
  let ?k = "dest_dir (w_env w) dst @ [x]"
  let ?good = "faithful (w_env w) D (map_of (w_fs w)) (path_key (e_cwd (w_env w)) src)"
  from copy_one_name[OF assms(1,2)]
obtain n x' where other: "\<And>k. k \<in> watched (w_env w) src dst \<Longrightarrow> k \<noteq> dest_dir (w_env w) dst @ [n] \<Longrightarrow>
      k \<noteq> dest_dir (w_env w) dst @ [temp_name x'] \<Longrightarrow> map_of (w_fs w') k = map_of (w_fs w) k"
    and name: "(\<forall>y. n \<noteq> temp_name y) \<Longrightarrow> map_of (w_fs w') (dest_dir (w_env w) dst @ [n]) = map_of (w_fs w) (dest_dir (w_env w) dst @ [n])
      \<or> (\<exists>c. map_of (w_fs w') (dest_dir (w_env w) dst @ [n]) = Some (File c True) \<and> ?good c)"
    unfolding one_name_def by blast
  have "map_of (w_fs w') ?k = old \<or> (\<exists>c. map_of (w_fs w') ?k = Some (File c True) \<and> ?good c)"
    using other[OF watched_name] name assms(3,4) by (cases "x = n") auto
  with assms(5) show ?thesis by (auto simp: map_of_power_loss)
qed

text \<open>
  C4. What a checksum is worth. On a medium whose reads return what is stored (its writes may
  store anything of the right length), a copy reported as checksummed has the digest of the
  source; with a digest that does not collide on the source, it has the source's bytes.
\<close>

theorem checksummed_copy_is_the_source:
  assumes "transfer_ready (w_env w) J (w_fs w) src dst"
    and "copy_file_with D J src dst opts on_progress w = (Ok (Copied Checksummed bytes replaced p), w')"
    and "map_of (w_fs w) (path_key (e_cwd (w_env w)) src) = Some (File c0 d0)"
    and "honest_reads (w_env w)" and "\<forall>b. sha256 D b = sha256 D c0 \<longrightarrow> b = c0"
  shows "map_of (w_fs w') (path_key (e_cwd (w_env w)) p) = Some (File c0 True)"
proof (rule copy_run[OF assms(1,2)])
  fix existed tier' bytes' p'
  let ?E = "w_env w" and ?S = "watched (w_env w) src dst" and ?g = "map_of (w_fs w)"
  let ?s = "path_key (e_cwd (w_env w)) src"
  assume "Ok (Copied Checksummed bytes replaced p) = Ok (Copied tier' bytes' (existed \<and> opt_on_conflict opts = Replace) p')"
    and "copied ?E D ?S ?g ?s dst p' opts (Copied tier' bytes' (existed \<and> opt_on_conflict opts = Replace) p') w'"
  then obtain x where p: "path_key (e_cwd ?E) p = dest_dir ?E dst @ [x]"
    and landed: "landed ?E ?S ?g (dest_dir ?E dst @ [temp_name (from_utf8_lossy x)]) (dest_dir ?E dst @ [x])
            (attested ?E D ?g ?s bytes Checksummed) w'"
    by (auto simp: copied_def)
  from landed obtain c where c: "attested ?E D ?g ?s bytes Checksummed c"
    and v: "view ?E ?S (?g(dest_dir ?E dst @ [temp_name (from_utf8_lossy x)] := None,
       dest_dir ?E dst @ [x] \<mapsto> File c True)) w'" by (auto simp: landed_def)
  have "sha256 D c = sha256 D c0"
    using c assms(3,4) by (auto simp: attested_def digest_of_def)
  with assms(5) have "c = c0" by blast
  then show ?thesis using view_look[OF v watched_name] p by simp
qed auto

text \<open>
  C23. "Nothing was written" is true of a mismatch. When a copy fails because the size or the
  digest does not match, every watched key but one temporary name holds what it held before.
\<close>

theorem mismatch_leaves_everything:
  assumes "transfer_ready (w_env w) J (w_fs w) src dst"
    and "copy_file_with D J src dst opts on_progress w = (Err e, w')"
    and "\<forall>i. e \<noteq> Io i"
  shows "\<exists>x. \<forall>k \<in> watched (w_env w) src dst. k \<noteq> dest_dir (w_env w) dst @ [temp_name x] \<longrightarrow>
    map_of (w_fs w') k = map_of (w_fs w) k"
proof (rule copy_run[OF assms(1,2)])
  fix e'
  assume "Err e = (Err e' :: (transfer_error, outcome) res)"
    and "ended_with (w_env w) (watched (w_env w) src dst) (map_of (w_fs w)) (dest_dir (w_env w) dst)
      (faithful (w_env w) D (map_of (w_fs w)) (path_key (e_cwd (w_env w)) src)) e' w'"
  with assms(3) obtain x where
    "view (w_env w) (watched (w_env w) src dst - {dest_dir (w_env w) dst @ [temp_name x]}) (map_of (w_fs w)) w'"
    by (cases e) auto
  then show ?thesis by (auto simp: view_def)
qed auto

text \<open>An existing destination.\<close>

definition there :: "'s world \<Rightarrow> path \<Rightarrow> bool" where
  "there w dst \<longleftrightarrow> dst \<noteq> [] \<and> CHR 0x00 \<notin> set dst
     \<and> map_of (w_fs w) (path_key (e_cwd (w_env w)) dst) \<noteq> None"

lemma dst_watched:
  assumes "transfer_ready (w_env w) J (w_fs w) src dst"
  obtains n where "file_name dst = Some n" "path_key (e_cwd (w_env w)) dst = dest_dir (w_env w) dst @ [n]"
    "path_key (e_cwd (w_env w)) dst \<in> watched (w_env w) src dst"
proof -
  obtain n where n: "file_name dst = Some n" using assms by (auto simp: transfer_ready_def ready_def)
  have "path_key (e_cwd (w_env w)) dst = dest_dir (w_env w) dst @ [n]"
    by (simp add: key_of_file[OF n] dest_dir_def)
  with n that watched_name show thesis by simp
qed

text \<open>
  The look at the destination is the second call of a copy. It alone has to be answered: \<open>exists\<close> takes a
  refusal for absence, and then the rule is not asked (theory \<open>Divergences\<close>).
\<close>

definition second_call_answered :: "'s world \<Rightarrow> bool" where
  "second_call_answered w \<longleftrightarrow> e_fault (w_env w) (Suc (w_tick w)) = None"

lemma triple_first_look:
  "triple (\<lambda>w. view E S g w \<and> w_tick w = t) (metadata p) (\<lambda>_ w. view E S g w \<and> w_tick w = Suc t) (\<lambda>_. view E S g) (view E S g)"
proof (rule tripleI)
  fix w r w1
  assume v: "view E S g w \<and> w_tick w = t" and run: "metadata p w = (r, w1)"
  have "triple (view E S g) (metadata p) (\<lambda>_. view E S g) (\<lambda>_. view E S g) (view E S g)"
    using keeps_metadata by (simp add: keeps_def)
  from tripleD[OF this conjunct1[OF v]] run have "view E S g w1" by (cases r) auto
  moreover have "w_tick w1 = Suc t" if "r = Ok m" for m
    using run that v by (auto simp: metadata_def sys_def Let_def split: if_splits option.splits sum.splits)
  ultimately show "case r of Ok m \<Rightarrow> view E S g w1 \<and> w_tick w1 = Suc t | Err e \<Rightarrow> view E S g w1 | Killed \<Rightarrow> view E S g w1"
    by (cases r) auto
qed

lemma triple_second_look:
  assumes k: "path_key (e_cwd E) dst = k" "k \<in> S" and g: "g k \<noteq> None" and dst: "dst \<noteq> []" "CHR 0x00 \<notin> set dst"
    and "e_fault E t = None"
  shows "triple (\<lambda>w. view E S g w \<and> w_tick w = t) (path_exists dst) (\<lambda>b w. b \<and> view E S g w) (\<lambda>_. view E S g) (view E S g)"
proof (rule tripleI)
  fix w :: "'s world" and r :: "('e, bool) res" and w1
  assume v: "view E S g w \<and> w_tick w = t" and run: "path_exists dst w = (r, w1)"
  have "triple (view E S g) (path_exists dst) (\<lambda>_. view E S g) (\<lambda>_. view E S g :: 's world \<Rightarrow> bool) (view E S g)"
    using keeps_path_exists by (simp add: keeps_def)
  from tripleD[OF this conjunct1[OF v]] run have v1: "view E S g w1" by (cases r) auto
  have "view E S g (w\<lparr>w_fs := e_other E (w_tick w) (w_fs w), w_tick := Suc (w_tick w)\<rparr>)"
    using v by (intro view_meddle) simp
  from view_look[OF this k(2)] have "map_of (e_other E t (w_fs w)) k = g k" using v by simp
  then have "b" if "r = Ok b" for b
    using run that v assms
    by (auto simp: path_exists_def metadata_def map_unwrap_or_def io_match_def sys_def ret_def Let_def at_path_def view_def
        split: if_splits option.splits sum.splits)
  with v1 show "case r of Ok b \<Rightarrow> b \<and> view E S g w1 | Err e \<Rightarrow> view E S g w1 | Killed \<Rightarrow> view E S g w1"
    by (cases r) auto
qed

lemma triple_skip:
  assumes k: "path_key (e_cwd E) dst = k" "k \<in> S" and g: "g k \<noteq> None"
    and "e_fault E (Suc t) = None" "dst \<noteq> []" "CHR 0x00 \<notin> set dst" and skip: "opt_on_conflict opts = Skip"
  shows "triple (\<lambda>w. view E S g w \<and> w_tick w = t) (copy_file_with D J src dst opts on_progress)
    (\<lambda>out w. out = SkippedExisting \<and> view E S g w) (\<lambda>_. view E S g) (view E S g)"
  unfolding copy_file_with_def Let_def
  by (rule triple_bind[OF triple_map_err[OF triple_first_look]],
      rule triple_bind[OF triple_second_look[where g = g and S = S and E = E, OF k g assms(5,6,4)]])
    (auto simp: resolve_conflict_def skip io_bind_def io_match_def ret_def triple_def)

text \<open>
  C24. Skip leaves an existing file alone. If the look at the destination (the copy's second call) is not
  refused, then whichever other calls fail, whatever the medium does and wherever the process is
  killed, no watched key changes, and if the run returns, it says that it skipped.
\<close>

theorem skip_changes_nothing:
  assumes "transfer_ready (w_env w) J (w_fs w) src dst" and "there w dst" "second_call_answered w"
    and "opt_on_conflict opts = Skip" and "copy_file_with D J src dst opts on_progress w = (r, w')"
  shows "(\<forall>k \<in> watched (w_env w) src dst. map_of (w_fs w') k = map_of (w_fs w) k)
    \<and> (\<forall>out. r = Ok out \<longrightarrow> out = SkippedExisting)"
proof (rule dst_watched[OF assms(1)])
  let ?E = "w_env w" and ?g = "map_of (w_fs w)"
  assume k: "path_key (e_cwd ?E) dst \<in> watched ?E src dst"
  note triple = triple_skip[OF refl k, where g = ?g and opts = opts and D = D and J = J and src = src and on_progress = on_progress]
  from assms(2-4) have "triple (\<lambda>v. view ?E (watched ?E src dst) ?g v \<and> w_tick v = w_tick w) (copy_file_with D J src dst opts on_progress)
      (\<lambda>out w. out = SkippedExisting \<and> view ?E (watched ?E src dst) ?g w)
      (\<lambda>_. view ?E (watched ?E src dst) ?g) (view ?E (watched ?E src dst) ?g)"
    by (intro triple) (auto simp: there_def second_call_answered_def)
  from this conjI[OF transfer_ready_view[OF assms(1)] refl] assms(5) show ?thesis
    by (rule run_cases) (auto simp: view_def)
qed

text \<open>
  C25. Keeping both keeps both. On a machine that refuses no call (a refused look is taken for a free
  name), with an existing destination and the keep-both rule, a copy lands on the first numbered name beside it that nothing occupied, reports no replacement, and leaves
  the existing file as it was.
\<close>

theorem keep_both_takes_a_free_name:
  assumes "transfer_ready (w_env w) J (w_fs w) src dst" and "calm (w_env w)" "there w dst"
    and "opt_on_conflict opts = KeepBoth" and "copy_file_with D J src dst opts on_progress w = (Ok (Copied tier bytes replaced p), w')"
  shows "\<not> replaced \<and> (\<exists>i\<ge>2. i < 10000 \<and> p = beside_candidate dst i
    \<and> map_of (w_fs w) (path_key (e_cwd (w_env w)) p) = None
    \<and> (\<forall>j. 2 \<le> j \<and> j < i \<longrightarrow> map_of (w_fs w) (path_key (e_cwd (w_env w)) (beside_candidate dst j)) \<noteq> None))
    \<and> map_of (w_fs w') (path_key (e_cwd (w_env w)) dst) = map_of (w_fs w) (path_key (e_cwd (w_env w)) dst)"
proof (rule copy_run[OF assms(1,5)])
  fix existed tier' bytes' p'
  let ?E = "w_env w" and ?S = "watched (w_env w) src dst" and ?g = "map_of (w_fs w)"
  let ?s = "path_key (e_cwd (w_env w)) src"
  assume eq: "Ok (Copied tier bytes replaced p) = Ok (Copied tier' bytes' (existed \<and> opt_on_conflict opts = Replace) p')"
    and ch: "chosen ?E ?S ?g dst (opt_on_conflict opts) existed (Some p')"
    and cp: "copied ?E D ?S ?g ?s dst p' opts (Copied tier' bytes' (existed \<and> opt_on_conflict opts = Replace) p') w'"
  obtain n where n: "file_name dst = Some n" "path_key (e_cwd ?E) dst = dest_dir ?E dst @ [n]"
    by (rule dst_watched[OF assms(1)])
  from ch assms(2-4) obtain i where i: "p' = beside_candidate dst i"
    "found (beside_free ?E ?S ?g dst) (beside_taken ?E ?S ?g dst) 2 10000 (Some i)"
    by (auto simp: chosen_def there_def split: if_splits)
  have key: "path_key (e_cwd ?E) (beside_candidate dst j) = dest_dir ?E dst @ [beside_name (from_utf8_lossy n) j]" for j
    using candidate_key[OF n(1)] by (simp add: dest_dir_def)
  have found: "2 \<le> i" "i < 10000" "?g (path_key (e_cwd ?E) p') = None"
    "\<And>j. 2 \<le> j \<Longrightarrow> j < i \<Longrightarrow> ?g (path_key (e_cwd ?E) (beside_candidate dst j)) \<noteq> None"
    using i assms(2,3) watched_name key by (auto simp: found_def beside_free_def beside_taken_def there_def)
  from cp obtain x where x: "dest_dir ?E dst @ [x] = path_key (e_cwd ?E) p'"
    and landed: "landed ?E ?S ?g (dest_dir ?E dst @ [temp_name (from_utf8_lossy x)]) (dest_dir ?E dst @ [x])
            (attested ?E D ?g ?s bytes' tier') w'"
    by (auto simp: copied_def)
  have "x = beside_name (from_utf8_lossy n) i" using x i(1) key by simp
  then have "length n < length x" "length n < length (temp_name (from_utf8_lossy x))"
    using beside_name_longer[of "from_utf8_lossy n" i] length_lossy[of n] length_lossy[of x]
      temp_name_longer[of "from_utf8_lossy x"] by simp_all
  then have "n \<noteq> x" "n \<noteq> temp_name (from_utf8_lossy x)" by auto
  then have "map_of (w_fs w') (dest_dir ?E dst @ [n]) = ?g (dest_dir ?E dst @ [n])"
    using landed watched_name by (auto simp: landed_def view_def)
  with found i(1) eq assms(4) n(2) show ?thesis by auto
qed auto

text \<open>
  C29. The replaced flag tells the truth: on a machine that refuses no call, a finished copy says
  it replaced a file exactly when the rule was to replace and the destination held one.
\<close>

theorem replaced_flag_is_true:
  assumes "transfer_ready (w_env w) J (w_fs w) src dst" and "calm (w_env w)" "dst \<noteq> []" "CHR 0x00 \<notin> set dst"
    and "copy_file_with D J src dst opts on_progress w = (Ok (Copied tier bytes replaced p), w')"
  shows "replaced \<longleftrightarrow> opt_on_conflict opts = Replace
    \<and> map_of (w_fs w) (path_key (e_cwd (w_env w)) dst) \<noteq> None"
  by (rule copy_run[OF assms(1,5)]) (use assms(2-4) in \<open>auto simp: chosen_def split: if_splits\<close>)

section \<open>The properties on the concrete machine\<close>

lemmas lab_facts = lab_keys lab_paths lab_files lab_calm lab_honest

lemma copy_is_atomic_witness:
  "one_name (lab_reading empty_read) (watched (lab_reading empty_read) ''/src/a'' ''/dst/b'') (map_of lab_fs) [''dst'']
     (faithful (lab_reading empty_read) lab_crates (map_of lab_fs) [''src'', ''a''])
     (w_fs (snd (lab_copy empty_read replace_checked ''/dst/b'')))"
  using copy_is_atomic[OF lab_ready lab_run[OF refl], of "''/dst/b''" empty_read replace_checked]
  by (simp add: lab_facts)

lemma copied_file_is_committed_witness:
  "\<exists>c. map_of (w_fs (snd (lab_copy whole_read default_options ''/dst/c''))) [''dst'', ''c''] = Some (File c True)
     \<and> length c = 5"
  using copied_file_is_committed[OF lab_ready lab_run[OF lab_copies], of "''hello''" True]
  by (fastforce simp: lab_facts)

lemma copy_survives_power_loss_witness:
  "map_of (power_loss (\<lambda>k c. []) (w_fs (snd (lab_copy whole_read replace_checked ''/dst/b'')))) [''dst'', ''b'']
     = Some (File ''old'' True)
   \<or> (\<exists>c. map_of (power_loss (\<lambda>k c. []) (w_fs (snd (lab_copy whole_read replace_checked ''/dst/b'')))) [''dst'', ''b'']
            = Some (File c True)
         \<and> faithful (lab_reading whole_read) lab_crates (map_of lab_fs) [''src'', ''a''] c)"
  using copy_survives_power_loss[where x = "''b''" and keep = "\<lambda>k c. []" and old = "Some (File ''old'' True)",
      OF lab_ready[of "''/dst/b''" whole_read] lab_run[of whole_read replace_checked "''/dst/b''", OF refl]]
  by (simp add: lab_facts temp_name_def)

lemma checksummed_copy_is_the_source_witness:
  "map_of (w_fs (snd (lab_copy whole_read replace_checked ''/dst/b'')))
     [''dst'', ''b''] = Some (File ''hello'' True)"
  using checksummed_copy_is_the_source[OF lab_ready lab_run[OF lab_checksums], of "''hello''" True]
  by (simp add: lab_facts lab_crates_def)

lemma mismatch_leaves_everything_witness:
  "map_of (w_fs (snd (lab_copy empty_read default_options ''/dst/c''))) [''dst'', ''b''] = Some (File ''old'' True)"
  using mismatch_leaves_everything[OF lab_ready lab_run[OF lab_mismatches]]
    watched_name[of "lab_reading empty_read" "''/dst/c''" "''b''" "''/src/a''"]
  by (auto simp: lab_facts temp_name_def)

lemma lab_there: "there (lab_world rd) ''/dst/b''"
  by (simp add: there_def lab_facts)

lemma skip_changes_nothing_witness:
  "map_of (w_fs (snd (lab_copy whole_read default_options ''/dst/b''))) [''dst'', ''b''] = Some (File ''old'' True)
   \<and> fst (lab_copy whole_read default_options ''/dst/b'') \<noteq> Ok (Copied SizeChecked 5 True ''/dst/b'')"
  using skip_changes_nothing[OF lab_ready lab_there _ _ lab_run[OF refl], of whole_read default_options]
    watched_name[of "lab_reading whole_read" "''/dst/b''" "''b''" "''/src/a''"]
  by (auto simp: default_options_def lab_facts second_call_answered_def)

lemma keep_both_takes_a_free_name_witness:
  "\<exists>i\<ge>2. ''/dst/b-2'' = beside_candidate ''/dst/b'' i
    \<and> map_of (w_fs (snd (lab_copy whole_read keep_both ''/dst/b'')))
        [''dst'', ''b''] = Some (File ''old'' True)"
  using keep_both_takes_a_free_name[OF lab_ready _ lab_there _ lab_run[OF lab_keeps_both]]
  by (auto simp: lab_facts keep_both_def)

lemma replaced_flag_is_true_witness:
  "map_of lab_fs [''dst'', ''b''] \<noteq> None \<and> map_of lab_fs [''dst'', ''c''] = None"
  using replaced_flag_is_true[OF lab_ready _ _ _ lab_run[OF lab_checksums]]
    replaced_flag_is_true[OF lab_ready _ _ _ lab_run[OF lab_copies]]
  by (simp add: lab_facts)

end
