(* ===== verification/Moving.thy ===== *)
theory Moving
  imports Transfers
begin

text \<open>
  Moves: a rename on one file system, a copy and a removal across two. What is proved is that no
  ending of a move, whether it returns, fails or is killed, loses the moved bytes.
\<close>

section \<open>Which way a move goes\<close>

lemma triple_dev:
  "triple (view E S g) (metadata p) (\<lambda>m w. md_dev m = e_dev E (path_key (e_cwd E) p) \<and> view E S g w)
     (\<lambda>_. view E S g) (view E S g)"
proof -
  have "md_dev (node_meta E k n) = e_dev E k" for k n by (cases n) auto
  then show ?thesis
    unfolding metadata_def
    by (intro triple_sys) (auto simp: at_path_def view_def split: sum.splits option.splits if_splits)
qed

lemma triple_same_filesystem:
  "triple (view E S g) (same_filesystem a b)
     (\<lambda>same w. (same \<longleftrightarrow> e_dev E (dest_dir E a) = e_dev E (dest_dir E b)) \<and> view E S g w)
     (\<lambda>_. view E S g) (view E S g)"
  unfolding same_filesystem_def Let_def dest_dir_def
  by (rule triple_bind[OF triple_dev], rule triple_conj, rule triple_bind[OF triple_dev], rule triple_conj,
      rule triple_ret) auto

section \<open>No ending loses the data\<close>

text \<open>The bytes of the moved file are still under its name, or under a name of the destination.\<close>

definition data_kept ::
  "env \<Rightarrow> crates \<Rightarrow> (key \<Rightarrow> node option) \<Rightarrow> key \<Rightarrow> key \<Rightarrow> node \<Rightarrow> fs \<Rightarrow> bool" where
  "data_kept E D g s dd n f \<longleftrightarrow>
     map_of f s = Some n
     \<or> (\<exists>x. map_of f (dd @ [x]) = Some n)
     \<or> (\<exists>x c. map_of f (dd @ [x]) = Some (File c True) \<and> faithful E D g s c)"

lemma data_kept_source: "view E S g w \<Longrightarrow> s \<in> S \<Longrightarrow> g s = Some n \<Longrightarrow> data_kept E D g' s dd n (w_fs w)"
  by (auto simp: data_kept_def view_def)

lemma data_kept_name:
  assumes "view E S g w" "dd @ [x] \<in> S" "g (dd @ [x]) = Some n"
  shows "data_kept E D g' s dd n (w_fs w)"
  using view_look[OF assms(1,2)] assms(3) by (auto simp: data_kept_def)

lemma data_kept_landed:
  assumes "view E S (g(dd @ [y] := None, dd @ [x] \<mapsto> File c True)) w" "dd @ [x] \<in> S" "faithful E D g s c"
  shows "data_kept E D g s dd n (w_fs w)"
  using view_look[OF assms(1,2)] assms(3) by (auto simp: data_kept_def)

lemma triple_rename_keeps:
  assumes s: "path_key (e_cwd E) src = s" "s \<in> S" "g s = Some (File c d)"
    and k: "path_key (e_cwd E) p = dd @ [x]" "dd @ [x] \<in> S"
  shows "triple (view E S g) (rename src p) (\<lambda>_ w. data_kept E D g s dd (File c d) (w_fs w))
    (\<lambda>_ w. data_kept E D g s dd (File c d) (w_fs w)) (\<lambda>w. data_kept E D g s dd (File c d) (w_fs w))"
proof (cases "s = dd @ [x]")
  case True
  have "triple (view E S g) (rename src p) (\<lambda>_. view E S g) (\<lambda>_. view E S g) (view E S g)"
    unfolding rename_def
    by (rule triple_sys)
      (use s k True in \<open>auto simp: at_path_def fs_rename_def view_def split: sum.splits option.splits if_splits\<close>)
  then show ?thesis by (rule triple_conseq) (auto intro: data_kept_source s)
next
  case False
  show ?thesis
    by (rule triple_conseq[OF triple_rename_file[OF s(1) k(1) s(2) k(2) False, where g = g, OF s(3)]])
      (auto intro: data_kept_source[where g = g, OF _ s(2,3)] data_kept_name[OF _ k(2)])
qed

lemma ended_keeps:
  assumes "ended E S g dd (faithful E D g s) w" "s \<in> S" "g s = Some n" "\<forall>y. s \<noteq> dd @ [temp_name y]"
    "\<And>x. dd @ [x] \<in> S"
  shows "data_kept E D g s dd n (w_fs w)"
  using assms
  by (auto simp: ended_def settled_def landed_def intro: data_kept_landed)
    (auto simp: data_kept_def view_def)

lemma ended_with_keeps:
  assumes "ended_with E S g dd (faithful E D g s) e w" "s \<in> S" "g s = Some n" "\<forall>y. s \<noteq> dd @ [temp_name y]"
    "\<And>x. dd @ [x] \<in> S"
  shows "data_kept E D g s dd n (w_fs w)"
proof (cases e)
  case (Io i)
  with assms show ?thesis by (auto intro: ended_keeps)
qed (use assms in \<open>auto simp: data_kept_def view_def\<close>)

text \<open>Removing the source after the copy is committed under another name.\<close>

lemma triple_remove_source:
  assumes s: "path_key (e_cwd E) src = s" "s \<in> S" and out: "s \<noteq> dd @ [x]"
    and x: "dd @ [x] \<in> S"
  shows "triple (landed E S g (dd @ [y]) (dd @ [x]) (faithful E D g s)) (try_io (remove_file src))
    (\<lambda>_ w. data_kept E D g s dd n (w_fs w)) (\<lambda>_ w. data_kept E D g s dd n (w_fs w))
    (\<lambda>w. data_kept E D g s dd n (w_fs w))"
  unfolding landed_def
proof (rule triple_ex, rule triple_conj, rule triple_map_err)
  fix c assume c: "faithful E D g s c"
  let ?g = "g(dd @ [y] := None, dd @ [x] \<mapsto> File c True)"
  show "triple (view E S ?g) (remove_file src)
    (\<lambda>_ w. data_kept E D g s dd n (w_fs w)) (\<lambda>_ w. data_kept E D g s dd n (w_fs w))
    (\<lambda>w. data_kept E D g s dd n (w_fs w))"
    by (rule triple_conseq[OF triple_remove_file[OF s, where g = ?g]])
      (use c out x in \<open>auto intro: data_kept_landed simp: data_kept_def view_def\<close>)
qed

lemma triple_move_onto:
  assumes rd: "ready E J S g src p" and s: "path_key (e_cwd E) src = s" "file_name src = Some m"
    and g: "g s = Some (File c d)" and p: "path_key (e_cwd E) p = dest_dir E p @ [x]"
  shows "triple (view E S g) (move_onto D J src p opts on_progress)
    (\<lambda>_ w. data_kept E D g s (dest_dir E p) (File c d) (w_fs w))
    (\<lambda>_ w. data_kept E D g s (dest_dir E p) (File c d) (w_fs w))
    (\<lambda>w. data_kept E D g s (dest_dir E p) (File c d) (w_fs w))"
proof -
  let ?K = "\<lambda>w :: 'a world. data_kept E D g s (dest_dir E p) (File c d) (w_fs w)"
  have S: "s \<in> S" "\<And>x. dest_dir E p @ [x] \<in> S" and tmp: "\<forall>y. s \<noteq> dest_dir E p @ [temp_name y]"
    using rd s by (auto simp: ready_def)
  have sk: "s = dest_dir E src @ [m]" using key_of_file[OF s(2), of "e_cwd E"] s(1) by (simp add: dest_dir_def)
  have here: "?K w" if "view E S g w" for w
    by (rule data_kept_source[where g = g, OF that S(1) g])
  have same: "triple (view E S g) (try_io (same_filesystem src p))
      (\<lambda>same w. (same \<longleftrightarrow> e_dev E (dest_dir E src) = e_dev E (dest_dir E p)) \<and> view E S g w) (\<lambda>_. ?K) ?K"
    by (rule triple_map_err, rule triple_conseq[OF triple_same_filesystem]) (auto intro: here)
  have rn: "triple (view E S g) (try_io (rename src p)) (\<lambda>_. ?K) (\<lambda>_. ?K) ?K"
    by (rule triple_map_err, rule triple_rename_keeps[where g = g, OF s(1) S(1) g p S(2)[of x]])
  have ren: "triple (view E S g) (io_bind (try_io (rename src p)) (\<lambda>_. ret (Moved p))) (\<lambda>_. ?K) (\<lambda>_. ?K) ?K"
    by (rule triple_bind[OF rn], rule triple_ret)
  let ?Q = "\<lambda>out w. case out of
      Copied tier bytes replaced q \<Rightarrow> \<exists>y x. landed E S g (dest_dir E p @ [y]) (dest_dir E p @ [x]) (faithful E D g s) w
    | _ \<Rightarrow> ?K w"
  have copy: "triple (view E S g) (copy_file_with D J src p opts on_progress) ?Q (\<lambda>_. ?K) ?K"
  proof (rule triple_conseq[OF triple_copy_file_with[OF rd s(1)]])
    fix out and w :: "'a world"
    assume "\<exists>existed r. chosen E S g p (opt_on_conflict opts) existed r \<and>
       (case r of None \<Rightarrow> out = SkippedExisting \<and> view E S g w
        | Some q \<Rightarrow> (\<exists>tier bytes. out = Copied tier bytes (existed \<and> opt_on_conflict opts = Replace) q)
                    \<and> copied E D S g s p q opts out w)"
    then obtain existed r where r: "case r of None \<Rightarrow> out = SkippedExisting \<and> view E S g w
        | Some q \<Rightarrow> (\<exists>tier bytes. out = Copied tier bytes (existed \<and> opt_on_conflict opts = Replace) q)
                    \<and> copied E D S g s p q opts out w" by blast
    show "?Q out w"
    proof (cases r)
      case None
      with r here show ?thesis by simp
    next
      case (Some q)
      with r have "copied E D S g s p q opts out w" by simp
      then obtain tier bytes replaced x where "out = Copied tier bytes replaced q" "size_of_source E g s bytes"
        and l: "landed E S g (dest_dir E p @ [temp_name (from_utf8_lossy x)]) (dest_dir E p @ [x])
            (attested E D g s bytes tier) w"
        unfolding copied_def by blast
      moreover have "landed E S g (dest_dir E p @ [temp_name (from_utf8_lossy x)]) (dest_dir E p @ [x])
            (faithful E D g s) w"
        by (rule landed_mono[OF l]) (rule attested_faithful[OF \<open>size_of_source E g s bytes\<close>])
      ultimately show ?thesis by auto
    qed
  qed (use ended_keeps[where g = g, OF _ S(1) g tmp S(2)] ended_with_keeps[where g = g, OF _ S(1) g tmp S(2)] in auto)
  have cross: "triple (view E S g)
      (io_bind (copy_file_with D J src p opts on_progress) (\<lambda>outcome.
          case outcome of
            Copied tier bytes replaced committed_as \<Rightarrow>
              io_bind (try_io (remove_file src)) (\<lambda>_. ret (Moved committed_as))
          | other \<Rightarrow> ret other)) (\<lambda>_. ?K) (\<lambda>_. ?K) ?K"
    if "e_dev E (dest_dir E src) \<noteq> e_dev E (dest_dir E p)"
  proof (rule triple_bind[OF copy])
    fix out
    from that sk have sx: "s \<noteq> dest_dir E p @ [x]" for x by auto
    show "triple (?Q out)
      (case out of
          Copied tier bytes replaced committed_as \<Rightarrow>
            io_bind (try_io (remove_file src)) (\<lambda>_. ret (Moved committed_as))
        | other \<Rightarrow> ret other) (\<lambda>_. ?K) (\<lambda>_. ?K) ?K"
      by (cases out)
        (auto intro!: triple_ret triple_ex triple_bind[OF triple_remove_source[OF s(1) S(1) sx S(2)]])
  qed
  show ?thesis
    unfolding move_onto_def
    by (rule triple_bind[OF same], rule triple_conj, rule triple_if) (simp_all add: ren cross)
qed

lemma ready_chosen:
  assumes "ready E J S g src dst" "chosen E S g dst rule existed (Some p)"
  shows "ready E J S g src p" "dest_dir E p = dest_dir E dst" "\<exists>x. path_key (e_cwd E) p = dest_dir E p @ [x]"
proof -
  from assms(1) obtain n where n: "file_name dst = Some n" by (auto simp: ready_def)
  have "p = dst \<or> (\<exists>i. p = beside_candidate dst i)"
    using assms(2) by (auto simp: chosen_def split: if_splits)
  then obtain x where x: "file_name p = Some x" "dest_dir E p = dest_dir E dst"
    using n candidate_name[OF n] candidate_dir[OF n] by (auto simp: dest_dir_def)
  with assms(1) show "ready E J S g src p" "dest_dir E p = dest_dir E dst" by (simp_all add: ready_def)
  show "\<exists>x. path_key (e_cwd E) p = dest_dir E p @ [x]"
    using key_of_file[OF x(1)] by (auto simp: dest_dir_def)
qed

lemma triple_move_file_with:
  assumes rd: "ready E J S g src dst" and s: "path_key (e_cwd E) src = s" "file_name src = Some m"
    and g: "g s = Some (File c d)"
  shows "triple (view E S g) (move_file_with D J src dst opts on_progress)
    (\<lambda>_ w. data_kept E D g s (dest_dir E dst) (File c d) (w_fs w))
    (\<lambda>_ w. data_kept E D g s (dest_dir E dst) (File c d) (w_fs w))
    (\<lambda>w. data_kept E D g s (dest_dir E dst) (File c d) (w_fs w))"
proof -
  let ?K = "\<lambda>w :: 'a world. data_kept E D g s (dest_dir E dst) (File c d) (w_fs w)"
  obtain n where n: "file_name dst = Some n" using rd by (auto simp: ready_def)
  have k: "path_key (e_cwd E) dst \<in> S" and S: "s \<in> S"
    using rd n s(1) by (auto simp: ready_def key_of_file dest_dir_def)
  have here: "?K w" if "view E S g w" for w
    by (rule data_kept_source[where g = g, OF that S g])
  show ?thesis
    unfolding move_file_with_def
  proof (rule triple_resolve[OF k])
    fix existed r
    assume ch: "chosen E S g dst (opt_on_conflict opts) existed r"
    show "triple (view E S g)
        (case r of None \<Rightarrow> ret SkippedExisting | Some p \<Rightarrow> move_onto D J src p opts on_progress)
        (\<lambda>_. ?K) (\<lambda>_. ?K) ?K"
    proof (cases r)
      case None
      then show ?thesis by (auto intro!: triple_ret here)
    next
      case (Some p)
      note rp = ready_chosen[OF rd ch[unfolded Some]]
      from rp(3) obtain x where x: "path_key (e_cwd E) p = dest_dir E p @ [x]" by blast
      show ?thesis
        using triple_move_onto[where g = g, OF rp(1) s g x] by (simp add: Some rp(2))
    qed
  qed (use here in auto)
qed

text \<open>
  C5. A move never loses the file. However a move of a regular file ends, or wherever it is
  killed, the file is still under its own name with its bytes, or under a name of the
  destination directory with its bytes, or there as a durable copy whose bytes some tier attests.
\<close>

theorem move_never_loses_the_file:
  assumes "transfer_ready (w_env w) J (w_fs w) src dst" and "file_name src \<noteq> None"
    and "map_of (w_fs w) (path_key (e_cwd (w_env w)) src) = Some (File c d)"
    and "move_file_with D J src dst opts on_progress w = (r, w')"
  shows "data_kept (w_env w) D (map_of (w_fs w)) (path_key (e_cwd (w_env w)) src) (dest_dir (w_env w) dst)
    (File c d) (w_fs w')"
proof -
  obtain m where m: "file_name src = Some m" using assms(2) by auto
  have rd: "ready (w_env w) J (watched (w_env w) src dst) (map_of (w_fs w)) src dst"
    using assms(1) by (simp add: transfer_ready_def)
  from triple_move_file_with[where g = "map_of (w_fs w)", OF rd refl m assms(3)] transfer_ready_view[OF assms(1)] assms(4)
  show ?thesis by (rule run_cases)
qed

lemma move_never_loses_the_file_witness:
  "data_kept (lab_reading whole_read) lab_crates (map_of lab_fs) [''src'', ''a''] [''dst''] (File ''hello'' True)
     (w_fs (snd (move_file_with lab_crates lab_journal ''/src/a'' ''/dst/b'' default_options unreported (lab_world whole_read))))"
  using move_never_loses_the_file[OF lab_ready _ _ surjective_pairing, of "''/dst/b''" whole_read "''hello''" True]
  by (simp add: lab_facts)

end
