(* ===== verification/Protocol.thy ===== *)
theory Protocol
  imports Engine
begin

text \<open>
  \<open>daemon/src/protocol.rs\<close>: the messages of the socket and the view of a Job. The JSON spelling
  of a message is \<open>serde_json\<close>'s and not part of this repository. The fraction \<open>done\<close> is a
  quotient of two \<open>u64\<close> values cast to \<open>f64\<close>; it is kept as that pair, unrounded.
\<close>

section \<open>Constants\<close>

definition PROTOCOL_VERSION :: u32 where
  "PROTOCOL_VERSION = 1"

definition PROTOCOL_HISTORY :: "(u32 \<times> string) list" where
  "PROTOCOL_HISTORY = [(1, ''0.1.0'')]"

definition COALESCE_HZ :: u64 where
  "COALESCE_HZ = 10"

definition HEARTBEAT_SECS :: u64 where
  "HEARTBEAT_SECS = 2"

section \<open>Requests\<close>

datatype request =
    Req_Hello u64 string
  | Req_State u64
  | Req_Copy u64 "string list" string bool conflict
  | Req_Move u64 "string list" string bool conflict
  | Req_Conflicts u64 "string list" string
  | Req_Delete u64 string
  | Req_CanTrash u64 string
  | Req_Restore u64 string string
  | Req_Rename u64 string string
  | Req_Release u64 string
  | Req_Space u64 string

fun request_id :: "request \<Rightarrow> u64" where
  "request_id (Req_Hello i client_version) = i"
| "request_id (Req_State i) = i"
| "request_id (Req_Copy i sources destination_dir checksum on_conflict) = i"
| "request_id (Req_Move i sources destination_dir checksum on_conflict) = i"
| "request_id (Req_Delete i path) = i"
| "request_id (Req_CanTrash i path) = i"
| "request_id (Req_Restore i trashed_as info) = i"
| "request_id (Req_Rename i path new_name) = i"
| "request_id (Req_Release i job) = i"
| "request_id (Req_Space i path) = i"
| "request_id (Req_Conflicts i sources destination_dir) = i"

section \<open>The view of a Job\<close>

record landed_file =
  ld_asked :: string
  ld_name :: string

datatype fraction = Fraction u64 u64

definition fraction_zero :: fraction where
  "fraction_zero = Fraction 0 1"

definition fraction_one :: fraction where
  "fraction_one = Fraction 1 1"

record job_view =
  jv_job :: string
  jv_label :: string
  jv_file :: string
  jv_source :: string
  jv_destination :: string
  jv_phase :: "phase option"
  jv_done :: fraction
  jv_files_done :: u32
  jv_files_total :: u32
  jv_files_skipped :: u32
  jv_files_replaced :: u32
  jv_files_skipped_existing :: u32
  jv_bytes :: u64
  jv_expected :: u64
  jv_outcome :: "string option"
  jv_tier :: "string option"
  jv_strength :: "u8 option"
  jv_detail :: "string option"
  jv_landed_as :: "landed_file list"
  jv_error :: "string option"

text \<open>\<open>error.is_some() || tier.is_some()\<close>: the test every reader of a view makes.\<close>

definition terminal :: "job_view \<Rightarrow> bool" where
  "terminal j \<longleftrightarrow> jv_error j \<noteq> None \<or> jv_tier j \<noteq> None"

section \<open>Events\<close>

datatype event =
    Ev_Tick u64
  | Ev_Hello u64 string u32
  | Ev_State u64 "job_view list"
  | Ev_Reply u64 u64 "string option" "string option"
  | Ev_Deleted u64 u64 string bool "string option" "string option" "string option"
  | Ev_TrashAvailable u64 u64 string bool
  | Ev_Restored u64 u64 "string option" "string option"
  | Ev_Renamed u64 u64 string "string option" "string option"
  | Ev_Conflicts u64 u64 "string list"
  | Ev_Space u64 u64 string "u64 option" "u64 option" "string option"
  | Ev_Progress u64 job_view
  | Ev_Finished u64 job_view
  | Ev_Failed u64 job_view

fun event_seq :: "event \<Rightarrow> u64" where
  "event_seq (Ev_Tick s) = s"
| "event_seq (Ev_Hello s v p) = s"
| "event_seq (Ev_State s js) = s"
| "event_seq (Ev_Reply s i j e) = s"
| "event_seq (Ev_Deleted s i p r t f e) = s"
| "event_seq (Ev_TrashAvailable s i p a) = s"
| "event_seq (Ev_Restored s i p e) = s"
| "event_seq (Ev_Renamed s i f t e) = s"
| "event_seq (Ev_Conflicts s i ex) = s"
| "event_seq (Ev_Space s i p t a e) = s"
| "event_seq (Ev_Progress s j) = s"
| "event_seq (Ev_Finished s j) = s"
| "event_seq (Ev_Failed s j) = s"

text \<open>The request an event answers, if it answers one.\<close>

fun event_answers :: "event \<Rightarrow> u64 option" where
  "event_answers (Ev_Reply s i j e) = Some i"
| "event_answers (Ev_Deleted s i p r t f e) = Some i"
| "event_answers (Ev_TrashAvailable s i p a) = Some i"
| "event_answers (Ev_Restored s i p e) = Some i"
| "event_answers (Ev_Renamed s i f t e) = Some i"
| "event_answers (Ev_Conflicts s i ex) = Some i"
| "event_answers (Ev_Space s i p t a e) = Some i"
| "event_answers ev = None"

end
