(* ===== verification/Registry.thy ===== *)
theory Registry
  imports Protocol "HOL-Library.Multiset"
begin

text \<open>
  \<open>Shared\<close> of \<open>daemon/src/server.rs\<close>: the registry of Jobs and the three counters the threads
  share. A \<open>HashMap\<close> gives its values in an order nothing documents: the definitions that walk it
  take the order as an argument \<open>ord\<close>, a permutation. Counters wrap, as \<open>fetch_add\<close> does.
\<close>

section \<open>State and operations\<close>

record shared =
  sh_jobs :: "(string \<times> job_view) list"
  sh_seq :: u64
  sh_next_job :: u64
  sh_revision :: u64

type_synonym hash_order = "(string \<times> job_view) list \<Rightarrow> (string \<times> job_view) list"

definition shared_new :: shared where
  "shared_new = \<lparr>sh_jobs = [], sh_seq = 0, sh_next_job = 1, sh_revision = 0\<rparr>"

definition next_seq :: "shared \<Rightarrow> u64 \<times> shared" where
  "next_seq s = (sh_seq s, s\<lparr>sh_seq := sh_seq s + 1\<rparr>)"

definition next_job_id :: "shared \<Rightarrow> u64 \<times> shared" where
  "next_job_id s = (sh_next_job s, s\<lparr>sh_next_job := sh_next_job s + 1\<rparr>)"

definition snapshot :: "hash_order \<Rightarrow> shared \<Rightarrow> job_view list" where
  "snapshot ord s = map snd (ord (sh_jobs s))"

definition snapshot_for :: "hash_order \<Rightarrow> string set \<Rightarrow> shared \<Rightarrow> job_view list" where
  "snapshot_for ord sent s =
     filter (\<lambda>j. \<not> terminal j \<or> jv_job j \<notin> sent) (map snd (ord (sh_jobs s)))"

definition put :: "job_view \<Rightarrow> shared \<Rightarrow> shared" where
  "put v s = s\<lparr>sh_jobs := AList.update (jv_job v) v (sh_jobs s), sh_revision := sh_revision s + 1\<rparr>"

text \<open>The two halves of \<open>put\<close>: the entry goes in under the lock, and the revision moves after its release.\<close>

definition insert_row :: "job_view \<Rightarrow> shared \<Rightarrow> shared" where
  "insert_row v s = s\<lparr>sh_jobs := AList.update (jv_job v) v (sh_jobs s)\<rparr>"

definition bump :: "shared \<Rightarrow> shared" where
  "bump s = s\<lparr>sh_revision := sh_revision s + 1\<rparr>"

lemma put_halves: "put v s = bump (insert_row v s)"
  by (simp add: put_def bump_def insert_row_def)

definition remove :: "string \<Rightarrow> shared \<Rightarrow> shared" where
  "remove job s = s\<lparr>sh_jobs := AList.delete job (sh_jobs s)\<rparr>"

definition lookup_job :: "shared \<Rightarrow> string \<Rightarrow> job_view option" where
  "lookup_job s = map_of (sh_jobs s)"

section \<open>The store behind the registry\<close>

text \<open>
  What the rest of the daemon relies on: a store of views by their own id. Every operation keeps
  its invariant (one entry per id, under that id), and lookups obey the usual laws.
\<close>

locale job_store =
  fixes inv :: "'s \<Rightarrow> bool" and look :: "'s \<Rightarrow> string \<Rightarrow> job_view option"
    and ins :: "job_view \<Rightarrow> 's \<Rightarrow> 's" and del :: "string \<Rightarrow> 's \<Rightarrow> 's"
  assumes inv_ins: "inv s \<Longrightarrow> inv (ins v s)" and inv_del: "inv s \<Longrightarrow> inv (del i s)"
    and look_ins: "look (ins v s) = (look s)(jv_job v \<mapsto> v)"
    and look_del: "look (del i s) = (look s)(i := None)"
begin

lemma look_ins_same: "look (ins v s) (jv_job v) = Some v"
  by (simp add: look_ins)

lemma last_ins_wins: "jv_job v = jv_job u \<Longrightarrow> look (ins v (ins u s)) = look (ins v s)"
  by (simp add: look_ins)

lemma ins_commute: "jv_job v \<noteq> jv_job u \<Longrightarrow> look (ins v (ins u s)) = look (ins u (ins v s))"
  by (simp add: look_ins fun_upd_twist)

lemma del_other: "i \<noteq> k \<Longrightarrow> look (del i s) k = look s k"
  by (simp add: look_del)

lemma inv_fold_ins: "inv s \<Longrightarrow> inv (fold ins vs s)"
  by (induction vs arbitrary: s) (auto intro: inv_ins)

lemma look_fold_ins:
  "look (fold ins vs s) k = (case find (\<lambda>v. jv_job v = k) (rev vs) of Some v \<Rightarrow> Some v | None \<Rightarrow> look s k)"
proof (induction vs arbitrary: s)
  case (Cons v vs)
  have "find P (xs @ [x]) = (case find P xs of Some y \<Rightarrow> Some y | None \<Rightarrow> if P x then Some x else None)"
    for P and xs and x :: job_view
    by (induction xs) auto
  with Cons show ?case by (auto simp: look_ins split: option.split)
qed simp

end

definition registry_ok :: "shared \<Rightarrow> bool" where
  "registry_ok s \<longleftrightarrow> distinct (map fst (sh_jobs s)) \<and> (\<forall>(i, v) \<in> set (sh_jobs s). jv_job v = i)"

lemma update_set: "(i, v) \<in> set (AList.update k u xs) \<Longrightarrow> (i, v) = (k, u) \<or> (i, v) \<in> set xs"
  by (induction xs) (auto split: if_splits)

lemma registry_ok_put: "registry_ok s \<Longrightarrow> registry_ok (put v s)"
  by (auto simp: registry_ok_def put_def distinct_update dest!: update_set)

lemma registry_ok_remove: "registry_ok s \<Longrightarrow> registry_ok (remove i s)"
proof -
  have "set (AList.delete i (sh_jobs s)) \<subseteq> set (sh_jobs s)" by (auto simp: AList.delete_eq)
  then show "registry_ok s \<Longrightarrow> registry_ok (remove i s)"
    by (auto simp: registry_ok_def remove_def intro: distinct_delete)
qed

interpretation registry: job_store registry_ok lookup_job put remove
proof
  show "lookup_job (put v s) = (lookup_job s)(jv_job v \<mapsto> v)" for v s
    by (simp add: lookup_job_def put_def)
  show "lookup_job (remove i s) = (lookup_job s)(i := None)" for i s
    by (simp add: lookup_job_def remove_def)
qed (fact registry_ok_put registry_ok_remove)+

lemma halves_keep:
  "registry_ok (bump s) = registry_ok s" "lookup_job (bump s) = lookup_job s"
  "registry_ok s \<Longrightarrow> registry_ok (insert_row v s)" "lookup_job (insert_row v s) = (lookup_job s)(jv_job v \<mapsto> v)"
proof -
  show b: "registry_ok (bump s) = registry_ok s" "lookup_job (bump s) = lookup_job s" for s
    by (simp_all add: registry_ok_def lookup_job_def bump_def)
  show "registry_ok s \<Longrightarrow> registry_ok (insert_row v s)" "lookup_job (insert_row v s) = (lookup_job s)(jv_job v \<mapsto> v)"
    using registry_ok_put[of s v] registry.look_ins[of v s] unfolding put_halves b by simp_all
qed

text \<open>A snapshot holds every Job and nothing else, each once.\<close>

lemma snapshot_set:
  assumes "registry_ok s" "\<And>xs. mset (ord xs) = mset xs"
  shows "j \<in> set (snapshot ord s) \<longleftrightarrow> lookup_job s (jv_job j) = Some j"
proof -
  have "set (ord (sh_jobs s)) = set (sh_jobs s)" using assms(2) by (metis mset_eq_setD)
  then have "j \<in> set (snapshot ord s) \<longleftrightarrow> (\<exists>i. (i, j) \<in> set (sh_jobs s))"
    by (force simp: snapshot_def)
  also have "\<dots> \<longleftrightarrow> (jv_job j, j) \<in> set (sh_jobs s)"
    using assms(1) by (auto simp: registry_ok_def)
  finally show ?thesis
    using assms(1) by (simp add: registry_ok_def lookup_job_def map_of_eq_Some_iff)
qed

lemma snapshot_distinct:
  assumes "registry_ok s" "\<And>xs. mset (ord xs) = mset xs"
  shows "distinct (map jv_job (snapshot ord s))"
proof -
  have m: "mset (ord (sh_jobs s)) = mset (sh_jobs s)" by (rule assms(2))
  have "map jv_job (snapshot ord s) = map fst (ord (sh_jobs s))"
    using assms(1) mset_eq_setD[OF m] by (auto simp: snapshot_def registry_ok_def)
  moreover have "distinct (map fst (ord (sh_jobs s)))"
    using assms(1) m by (metis mset_map mset_eq_imp_distinct_iff registry_ok_def)
  ultimately show ?thesis by simp
qed

lemma snapshot_ran:
  assumes "registry_ok s" "\<forall>xs. mset (ord xs) = mset xs"
  shows "set (snapshot ord s) = ran (lookup_job s)"
proof -
  have "lookup_job s i = Some j \<Longrightarrow> jv_job j = i" for i j
    using assms(1) by (auto simp: lookup_job_def registry_ok_def dest: map_of_SomeD)
  then show ?thesis
    using snapshot_set[OF assms(1), of ord] assms(2) by (auto simp: ran_def)
qed

lemma ran_ids: "registry_ok s \<Longrightarrow> lookup_job s i = Some j \<Longrightarrow> jv_job j = i"
  by (auto simp: lookup_job_def registry_ok_def dest: map_of_SomeD)

lemma snapshot_for_filter: "snapshot_for ord sent s = filter (\<lambda>j. \<not> terminal j \<or> jv_job j \<notin> sent) (snapshot ord s)"
  by (simp add: snapshot_for_def snapshot_def)

section \<open>Tickets\<close>

text \<open>
  A counter that is read and advanced in one step: as long as it has not gone round, no two
  readers get the same number.
\<close>

fun draws :: "('s \<Rightarrow> u64 \<times> 's) \<Rightarrow> nat \<Rightarrow> 's \<Rightarrow> u64 list" where
  "draws draw 0 s = []"
| "draws draw (Suc n) s = fst (draw s) # draws draw n (snd (draw s))"

locale ticket =
  fixes draw :: "'s \<Rightarrow> u64 \<times> 's" and count :: "'s \<Rightarrow> u64"
  assumes draw_value: "fst (draw s) = count s" and draw_step: "count (snd (draw s)) = count s + 1"
begin

lemma draws_eq: "draws draw n s = map (\<lambda>i. count s + of_nat i) [0..<n]"
proof (induction n arbitrary: s)
  case (Suc n)
  have "map (\<lambda>i. count s + of_nat i) [0..<Suc n] = count s # map (\<lambda>i. count s + of_nat (Suc i)) [0..<n]"
    by (simp add: upt_conv_Cons map_Suc_upt[symmetric] comp_def del: upt_Suc)
  then show ?case by (simp add: Suc draw_value draw_step add.assoc)
qed simp

lemma draws_distinct: "n \<le> 2 ^ 64 \<Longrightarrow> distinct (draws draw n s)"
proof -
  assume n: "n \<le> 2 ^ 64"
  have "inj_on (\<lambda>i. count s + of_nat i) {0..<n}"
  proof (rule inj_onI)
    fix i j assume i: "i \<in> {0..<n}" and j: "j \<in> {0..<n}" and eq: "count s + of_nat i = count s + of_nat j"
    from eq have "(of_nat i :: u64) = of_nat j" by simp
    then have "unat (of_nat i :: u64) = unat (of_nat j :: u64)" by simp
    then show "i = j" using i j n by (simp add: word_of_nat_unat_eq)
  qed
  then show ?thesis by (simp add: draws_eq distinct_map)
qed

end

interpretation seq: ticket next_seq sh_seq
  by unfold_locales (simp_all add: next_seq_def)

interpretation job_ids: ticket next_job_id sh_next_job
  by unfold_locales (simp_all add: next_job_id_def)

end
