(* ===== verification/Tally.thy ===== *)
theory Tally
  imports Registry
begin

text \<open>
  \<open>Tally\<close> of \<open>daemon/src/server.rs\<close>: what a Job's files turned out to be, one outcome at a time,
  and the facts its finished row claims. The specification is the list of outcomes itself:
  \<open>tally_fold\<close> shows that the counters are what one would count on that list.
\<close>

section \<open>Definitions\<close>

record tally =
  ta_weakest :: "verification_tier option"
  ta_moved :: u32
  ta_copied :: u32
  ta_replaced :: u32
  ta_skipped_existing :: u32
  ta_bytes :: u64
  ta_landed :: "landed_file list"
  ta_is_move :: bool

definition tally_new :: "bool \<Rightarrow> tally" where
  "tally_new is_move =
     \<lparr>ta_weakest = None, ta_moved = 0, ta_copied = 0, ta_replaced = 0, ta_skipped_existing = 0,
      ta_bytes = 0, ta_landed = [], ta_is_move = is_move\<rparr>"

record completion =
  co_outcome :: string
  co_tier :: string
  co_detail :: string
  co_strength :: "u8 option"

definition landed_as :: "string \<Rightarrow> path \<Rightarrow> landed_file" where
  "landed_as asked committed_as =
     \<lparr>ld_asked = asked,
      ld_name = (case file_name committed_as of Some n \<Rightarrow> from_utf8_lossy n | None \<Rightarrow> asked)\<rparr>"

text \<open>One outcome; \<open>size\<close> is what a look at the landed file gave, for a move.\<close>

fun tally_add :: "string \<Rightarrow> outcome \<Rightarrow> u64 \<Rightarrow> tally \<Rightarrow> tally" where
  "tally_add asked (Moved committed_as) fsize t =
     t\<lparr>ta_moved := ta_moved t + 1, ta_bytes := ta_bytes t + fsize,
       ta_landed := ta_landed t @ [landed_as asked committed_as]\<rparr>"
| "tally_add asked (Copied tier bytes replaced committed_as) fsize t =
     t\<lparr>ta_copied := ta_copied t + 1,
       ta_replaced := (if replaced then ta_replaced t + 1 else ta_replaced t),
       ta_weakest := Some (case ta_weakest t of None \<Rightarrow> tier | Some w \<Rightarrow> weakest w tier),
       ta_bytes := ta_bytes t + bytes,
       ta_landed := ta_landed t @ [landed_as asked committed_as]\<rparr>"
| "tally_add asked SkippedExisting fsize t = t\<lparr>ta_skipped_existing := ta_skipped_existing t + 1\<rparr>"

definition tally_record :: "string \<Rightarrow> outcome \<Rightarrow> tally \<Rightarrow> ('e, tally, 's) io" where
  "tally_record asked out t =
     (case out of
        Moved committed_as \<Rightarrow>
          io_bind (map_unwrap_or md_len 0 (metadata committed_as)) (\<lambda>n. ret (tally_add asked out n t))
      | _ \<Rightarrow> ret (tally_add asked out 0 t))"

definition tally_files_done :: "tally \<Rightarrow> u32" where
  "tally_files_done t = ta_moved t + ta_copied t"

definition tally_finish :: "tally \<Rightarrow> completion" where
  "tally_finish t =
     (if 0 < ta_moved t \<and> ta_copied t = 0
      then \<lparr>co_outcome = ''moved'', co_tier = ''Moved'',
            co_detail = ''same filesystem '' @ em_dash @ '' nothing was copied'', co_strength = None\<rparr>
      else case ta_weakest t of
             Some w \<Rightarrow>
               \<lparr>co_outcome = ''copied'', co_tier = tier_label w, co_detail = tier_detail w (ta_bytes t),
                co_strength = Some (strength w)\<rparr>
           | None \<Rightarrow>
               \<lparr>co_outcome = ''skipped'',
                co_tier = (if ta_is_move t then ''Nothing moved'' else ''Nothing copied''),
                co_detail = ''every file was already there '' @ em_dash @ '' left alone as you asked'',
                co_strength = None\<rparr>)"

section \<open>The tally counts the outcomes\<close>

type_synonym outcomes = "(string \<times> outcome \<times> u64) list"

definition tally_all :: "bool \<Rightarrow> outcomes \<Rightarrow> tally" where
  "tally_all is_move os = fold (\<lambda>(asked, out, n). tally_add asked out n) os (tally_new is_move)"

fun is_moved :: "outcome \<Rightarrow> bool" where
  "is_moved (Moved p) = True" | "is_moved out = False"

fun is_copied :: "outcome \<Rightarrow> bool" where
  "is_copied (Copied t b r p) = True" | "is_copied out = False"

fun is_replacing :: "outcome \<Rightarrow> bool" where
  "is_replacing (Copied t b r p) = r" | "is_replacing out = False"

fun tier_of :: "outcome \<Rightarrow> verification_tier option" where
  "tier_of (Copied t b r p) = Some t" | "tier_of out = None"

fun bytes_of :: "outcome \<times> u64 \<Rightarrow> u64" where
  "bytes_of (Moved p, n) = n" | "bytes_of (Copied t b r p, n) = b" | "bytes_of (SkippedExisting, n) = 0"

fun landing_of :: "string \<times> outcome \<times> u64 \<Rightarrow> landed_file list" where
  "landing_of (asked, Moved p, n) = [landed_as asked p]"
| "landing_of (asked, Copied t b r p, n) = [landed_as asked p]"
| "landing_of (asked, SkippedExisting, n) = []"

definition outs :: "outcomes \<Rightarrow> outcome list" where
  "outs os = map (fst \<circ> snd) os"

definition tiers :: "outcomes \<Rightarrow> verification_tier list" where
  "tiers os = List.map_filter tier_of (outs os)"

definition how_many :: "(outcome \<Rightarrow> bool) \<Rightarrow> outcomes \<Rightarrow> nat" where
  "how_many P os = length (filter P (outs os))"

lemma tiers_snoc: "tiers (os @ [(a, out, n)]) = tiers os @ (case tier_of out of Some t \<Rightarrow> [t] | None \<Rightarrow> [])"
  by (simp add: tiers_def outs_def List.map_filter_def split: option.split)

lemma how_many_snoc: "how_many P (os @ [(a, out, n)]) = how_many P os + (if P out then 1 else 0)"
  by (simp add: how_many_def outs_def)

definition weakest_of :: "verification_tier list \<Rightarrow> verification_tier option" where
  "weakest_of ts = (if ts = [] then None else Some (Min (set ts)))"

lemma weakest_of_snoc: "weakest_of (ts @ [t]) = Some (case weakest_of ts of None \<Rightarrow> t | Some w \<Rightarrow> weakest w t)"
  by (simp add: weakest_of_def weakest_min min.commute)

lemma tally_all_counts:
  "tally_all is_move os =
     \<lparr>ta_weakest = weakest_of (tiers os), ta_moved = of_nat (how_many is_moved os),
      ta_copied = of_nat (how_many is_copied os), ta_replaced = of_nat (how_many is_replacing os),
      ta_skipped_existing = of_nat (how_many ((=) SkippedExisting) os),
      ta_bytes = sum_list (map (bytes_of \<circ> snd) os), ta_landed = concat (map landing_of os),
      ta_is_move = is_move\<rparr>"
proof (induction os rule: rev_induct)
  case Nil
  show ?case
    by (simp add: tally_all_def tally_new_def tiers_def how_many_def outs_def weakest_of_def List.map_filter_def)
next
  case (snoc x os)
  obtain a out n where x: "x = (a, out, n)" by (cases x)
  have "tally_all is_move (os @ [x]) = tally_add a out n (tally_all is_move os)"
    by (simp add: tally_all_def x)
  then show ?case
    by (cases out) (simp_all add: snoc x how_many_snoc tiers_snoc weakest_of_snoc)
qed

lemma tiers_of_copied: "tiers os = [] \<longleftrightarrow> how_many is_copied os = 0"
proof (induction os rule: rev_induct)
  case (snoc x os)
  obtain a out n where x: "x = (a, out, n)" by (cases x)
  show ?case using snoc by (cases out) (simp_all add: x tiers_snoc how_many_snoc)
qed (simp add: tiers_def how_many_def outs_def List.map_filter_def)

lemma how_many_total:
  "how_many is_moved os + how_many is_copied os + how_many ((=) SkippedExisting) os = length os"
proof (induction os rule: rev_induct)
  case (snoc x os)
  obtain a out n where x: "x = (a, out, n)" by (cases x)
  show ?case using snoc by (cases out) (simp_all add: x how_many_snoc)
qed (simp add: how_many_def outs_def)

lemma landed_length: "length (concat (map landing_of os)) = how_many is_moved os + how_many is_copied os"
proof (induction os rule: rev_induct)
  case (snoc x os)
  obtain a out n where x: "x = (a, out, n)" by (cases x)
  show ?case using snoc by (cases out) (simp_all add: x how_many_snoc)
qed (simp add: how_many_def outs_def)

lemma how_many_le: "how_many P os \<le> length os"
  by (simp add: how_many_def outs_def length_filter_le[THEN order_trans])

lemma of_nat_u32: "n < 2 ^ 32 \<Longrightarrow> unat (of_nat n :: u32) = n"
  by (simp add: unat_of_nat take_bit_nat_eq_self)

lemma of_nat_u32_zero: "n < 2 ^ 32 \<Longrightarrow> (of_nat n :: u32) = 0 \<longleftrightarrow> n = 0"
  using of_nat_u32[of n] by auto

section \<open>Properties\<close>

text \<open>
  C30. The finished row claims what happened. For the outcomes of fewer than 2^32 files: the row
  says "moved" when some file moved and none was copied, "copied" when some file was copied, and
  "skipped" when every file was left alone; a strength is shown exactly for "copied" and it is
  that of the weakest tier any copied file received, so the tier named holds for every one.
\<close>

theorem finished_row_is_honest:
  assumes "length os < 2 ^ 32"
  shows "co_outcome (tally_finish (tally_all is_move os)) =
      (if \<exists>out \<in> set (outs os). is_copied out then ''copied''
       else if \<exists>out \<in> set (outs os). is_moved out then ''moved'' else ''skipped'')
    \<and> co_strength (tally_finish (tally_all is_move os)) =
      (if tiers os = [] then None else Some (strength (Min (set (tiers os)))))
    \<and> (\<forall>t \<in> set (tiers os). \<exists>s. co_strength (tally_finish (tally_all is_move os)) = Some s \<and> s \<le> strength t)"
proof -
  have copied: "(\<exists>out \<in> set (outs os). is_copied out) \<longleftrightarrow> how_many is_copied os \<noteq> 0"
    and moved: "(\<exists>out \<in> set (outs os). is_moved out) \<longleftrightarrow> how_many is_moved os \<noteq> 0"
    by (auto simp: how_many_def filter_empty_conv)
  have "how_many is_moved os < 2 ^ 32" "how_many is_copied os < 2 ^ 32"
    using how_many_le[of is_moved os] how_many_le[of is_copied os] assms by simp_all
  then have zero: "(of_nat (how_many is_moved os) :: u32) = 0 \<longleftrightarrow> how_many is_moved os = 0"
    "(of_nat (how_many is_copied os) :: u32) = 0 \<longleftrightarrow> how_many is_copied os = 0"
    by (simp_all only: of_nat_u32_zero)
  have min: "t \<in> set (tiers os) \<Longrightarrow> strength (Min (set (tiers os))) \<le> strength t" for t
    by (metis List.finite_set Min_le less_eq_verification_tier_def)
  show ?thesis
    unfolding tally_all_counts tally_finish_def copied moved
    using zero min tiers_of_copied[of os]
    by (auto simp: weakest_of_def word_neq_0_conv[symmetric])
qed

text \<open>
  The counters add up. Files that arrived, files left alone and files recorded agree; every
  file that arrived has one landing entry, in order; the bytes are the sum of what each outcome
  brought (a skip brings none); and the replaced count is the number of replacing copies.
\<close>

theorem tally_counts_add_up:
  assumes "length os < 2 ^ 32"
  shows "unat (tally_files_done (tally_all is_move os)) + unat (ta_skipped_existing (tally_all is_move os)) = length os
    \<and> length (ta_landed (tally_all is_move os)) = unat (tally_files_done (tally_all is_move os))
    \<and> ta_landed (tally_all is_move os) = concat (map landing_of os)
    \<and> ta_bytes (tally_all is_move os) = sum_list (map (bytes_of \<circ> snd) os)
    \<and> unat (ta_replaced (tally_all is_move os)) = how_many is_replacing os"
proof -
  let ?m = "how_many is_moved os" and ?c = "how_many is_copied os" and ?s = "how_many ((=) SkippedExisting) os"
  have small: "?m + ?c < 2 ^ 32" "?s < 2 ^ 32" "how_many is_replacing os < 2 ^ 32"
    using how_many_total[of os] how_many_le[of is_replacing os] assms by simp_all
  have fd: "tally_files_done (tally_all is_move os) = of_nat (?m + ?c)"
    by (simp add: tally_files_done_def tally_all_counts)
  show ?thesis
    unfolding fd using small how_many_total[of os] landed_length[of os]
    by (simp add: tally_all_counts of_nat_u32 del: of_nat_add)
qed

text \<open>The words of the row do not decide: the outcome does.\<close>

definition three_files :: outcomes where
  "three_files =
     [(''a'', Copied SharedExtents 5 False ''/d/a'', 0), (''b'', Copied SizeChecked 7 True ''/d/b'', 0),
      (''c'', SkippedExisting, 0)]"

lemma finished_row_is_honest_witness:
  "co_outcome (tally_finish (tally_all False three_files)) = ''copied''
   \<and> co_strength (tally_finish (tally_all False three_files)) = Some 1"
proof -
  have "tiers three_files = [SharedExtents, SizeChecked]" "outs three_files \<noteq> []"
    "is_copied (hd (outs three_files))"
    by (simp_all add: three_files_def tiers_def outs_def List.map_filter_def)
  moreover have "Min {SharedExtents, SizeChecked} = SizeChecked"
    by (simp add: min_def less_eq_verification_tier_def word_le_nat_alt)
  ultimately show ?thesis
    using finished_row_is_honest[of three_files False]
    by (auto simp: three_files_def outs_def)
qed

lemma tally_counts_add_up_witness:
  "unat (tally_files_done (tally_all False three_files)) + unat (ta_skipped_existing (tally_all False three_files)) = 3
   \<and> ta_bytes (tally_all False three_files) = 12"
  using tally_counts_add_up[of three_files False] by (simp add: three_files_def)

end
