(* ===== verification/Captured.thy ===== *)
theory Captured
  imports Engine Logic
begin

text \<open>
  What the engine does to the state its progress callback has captured: nothing but call back.
\<close>

section \<open>Computations that keep what the callback keeps\<close>

text \<open>
  Nothing in the engine touches the captured state but the progress callback: what the callback
  keeps, every operation keeps.
\<close>

definition cap_keeps :: "('s \<Rightarrow> bool) \<Rightarrow> ('e, 'a, 's) io \<Rightarrow> bool" where
  "cap_keeps R m \<longleftrightarrow> triple (R \<circ> w_cap) m (\<lambda>_. R \<circ> w_cap) (\<lambda>_. R \<circ> w_cap) (R \<circ> w_cap)"

named_theorems cap_intro \<open>operations that keep what the callback keeps\<close>

lemma cap_keepsD: "cap_keeps R m \<Longrightarrow> R (w_cap w) \<Longrightarrow> m w = (r, w') \<Longrightarrow> R (w_cap w')"
  by (cases r) (auto simp: cap_keeps_def dest: tripleD)

lemma cap_keepsI: "(\<And>w r w'. R (w_cap w) \<Longrightarrow> m w = (r, w') \<Longrightarrow> R (w_cap w')) \<Longrightarrow> cap_keeps R m"
  unfolding cap_keeps_def by (rule tripleI) (auto split: res.split)

lemma cap_sys [cap_intro]: "cap_keeps R (sys op)"
  by (rule cap_keepsI) (auto simp: sys_def Let_def split: if_splits option.splits sum.splits)

lemma cap_ret [cap_intro]: "cap_keeps R (ret a)"
  by (rule cap_keepsI) (simp add: ret_def)

lemma cap_fail [cap_intro]: "cap_keeps R (fail e)"
  by (rule cap_keepsI) (simp add: fail_def)

lemma cap_match [cap_intro]:
  "cap_keeps R m \<Longrightarrow> (\<And>a. cap_keeps R (f a)) \<Longrightarrow> (\<And>e. cap_keeps R (g e)) \<Longrightarrow> cap_keeps R (io_match m f g)"
  unfolding cap_keeps_def by (rule triple_match)

lemma cap_bind [cap_intro]: "cap_keeps R m \<Longrightarrow> (\<And>a. cap_keeps R (f a)) \<Longrightarrow> cap_keeps R (io_bind m f)"
  unfolding cap_keeps_def by (rule triple_bind)

lemma cap_discard [cap_intro]: "cap_keeps R m \<Longrightarrow> cap_keeps R f \<Longrightarrow> cap_keeps R (io_discard m f)"
  unfolding cap_keeps_def by (rule triple_discard)

lemma cap_map_err [cap_intro]: "cap_keeps R m \<Longrightarrow> cap_keeps R (map_err h m)"
  unfolding cap_keeps_def by (rule triple_map_err)

lemma cap_map_unwrap_or [cap_intro]: "cap_keeps R m \<Longrightarrow> cap_keeps R (map_unwrap_or h d m)"
  unfolding map_unwrap_or_def by (intro cap_intro)

lemma cap_get_env [cap_intro]: "cap_keeps R get_env"
  by (rule cap_keepsI) (simp add: get_env_def)

lemma cap_if [cap_intro]: "cap_keeps R m \<Longrightarrow> cap_keeps R n \<Longrightarrow> cap_keeps R (if b then m else n)"
  by simp

lemma cap_write_all [cap_intro]: "cap_keeps R (write_all k off b)"
  by (rule cap_keepsI) (auto simp: write_all_def Let_def split: if_splits option.splits)

lemmas calls =
  metadata_def path_exists_def path_is_dir_def remove_file_def remove_dir_all_def rename_def
  open_read_def open_write_def open_create_def no_effect_def read_at_def sync_all_def ficlone_def
  fs_read_def read_dir_def canonicalize_def

lemma cap_calls [cap_intro]:
  "cap_keeps R (metadata p)" "cap_keeps R (path_exists p)" "cap_keeps R (path_is_dir p)"
  "cap_keeps R (remove_file p)" "cap_keeps R (remove_dir_all p)" "cap_keeps R (rename p q)"
  "cap_keeps R (open_read p)" "cap_keeps R (open_write p)" "cap_keeps R (open_create p)"
  "cap_keeps R no_effect" "cap_keeps R (read_at k off n)" "cap_keeps R (sync_all k)"
  "cap_keeps R (ficlone k k')" "cap_keeps R (fs_read p)" "cap_keeps R (read_dir p)" "cap_keeps R (canonicalize p)"
  unfolding calls by (intro cap_intro)+

lemma cap_fs_write [cap_intro]: "cap_keeps R (fs_write p b)"
  unfolding fs_write_def by (intro cap_intro)

lemma cap_create_dir_all [cap_intro]: "cap_keeps R (create_dir_all p)"
  unfolding create_dir_all_def by (intro cap_intro)

lemma cap_journal [cap_intro]:
  "cap_keeps R (journal_record D J e)" "cap_keeps R (journal_get D J dst)" "cap_keeps R (journal_clear D J dst)"
  "cap_keeps R open_default"
  unfolding journal_record_def journal_get_def journal_clear_def open_default_def open_at_def Let_def
  by (auto intro!: cap_intro split: sum.split)

lemma cap_fs_ops [cap_intro]:
  "cap_keeps R (drop_cache k)" "cap_keeps R (try_reflink_into_temp src temp)" "cap_keeps R (same_filesystem a b)"
  unfolding drop_cache_def try_reflink_into_temp_def same_filesystem_def Let_def by (intro cap_intro)+

lemma cap_first_free: "(\<And>n. cap_keeps R (free n)) \<Longrightarrow> cap_keeps R (first_free free lo hi)"
proof (induction "hi - lo" arbitrary: lo)
  case 0
  then show ?case by (subst first_free.simps) (auto intro!: cap_intro)
next
  case (Suc d)
  then show ?case by (subst first_free.simps) (auto intro!: cap_intro)
qed

lemma cap_free_name_beside [cap_intro]: "cap_keeps R (free_name_beside dst)"
  unfolding free_name_beside_def
  by (intro cap_intro cap_first_free) (auto intro!: cap_intro split: option.split)

lemma cap_resolve_conflict [cap_intro]: "cap_keeps R (resolve_conflict dst existed rule)"
  by (cases existed; cases rule) (auto simp: resolve_conflict_def intro!: cap_intro)

lemma cap_discard_temp [cap_intro]: "cap_keeps R (discard_temp D J temp dst e)"
  unfolding discard_temp_def by (intro cap_intro)

lemma cap_resume_offset [cap_intro]: "cap_keeps R (resume_offset D J dst temp expected checksum)"
  unfolding resume_offset_def by (intro cap_intro) (auto intro!: cap_intro split: option.split)

text \<open>The two loops that call back.\<close>

definition calls_keep :: "('s \<Rightarrow> bool) \<Rightarrow> 's progress \<Rightarrow> bool" where
  "calls_keep R on_progress \<longleftrightarrow> (\<forall>ph d tot c. R c \<longrightarrow> R (on_progress ph d tot c))"

lemma cap_stream_loop_run:
  "calls_keep R on_progress \<Longrightarrow> R (w_cap w) \<Longrightarrow>
   stream_loop fi fo pos sofar expected on_progress w = (r, w') \<Longrightarrow> R (w_cap w')"
proof (induction fi fo pos sofar expected on_progress w rule: stream_loop.induct)
  case (1 fi fo pos sofar expected on_progress w)
  note run = "1.prems"(3)[unfolded stream_loop.simps[of fi fo pos sofar expected on_progress w]]
  obtain rr w1 where r1: "read_at fi pos CHUNK w = (rr, w1)" by fastforce
  have c1: "R (w_cap w1)" by (rule cap_keepsD[where R = R and m = "read_at fi pos CHUNK", OF _ "1.prems"(2) r1]) (intro cap_intro)
  show ?case
  proof (cases rr)
    case (Ok buf)
    show ?thesis
    proof (cases "buf = []")
      case False
      obtain wr w2 where r2: "write_all fo pos buf w1 = (wr, w2)" by fastforce
      have c2: "R (w_cap w2)" by (rule cap_keepsD[where R = R and m = "write_all fo pos buf", OF _ c1 r2]) (intro cap_intro)
      show ?thesis
      proof (cases wr)
        case (Ok u)
        show ?thesis
          by (rule "1.IH"[OF r1[symmetric] \<open>rr = Ok buf\<close> False r2[symmetric] Ok refl "1.prems"(1)])
            (use "1.prems"(1) run r1 r2 \<open>rr = Ok buf\<close> False Ok c2 in \<open>auto simp: Let_def calls_keep_def\<close>)
      qed (use run r1 r2 c2 \<open>rr = Ok buf\<close> False in auto)
    qed (use run r1 c1 Ok in auto)
  qed (use run r1 c1 in auto)
qed

lemma cap_hash_loop_run:
  "calls_keep R on_progress \<Longrightarrow> R (w_cap w) \<Longrightarrow>
   hash_loop f pos fed hashed tot offset on_progress w = (r, w') \<Longrightarrow> R (w_cap w')"
proof (induction f pos fed hashed tot offset on_progress w rule: hash_loop.induct)
  case (1 f pos fed hashed tot offset on_progress w)
  note run = "1.prems"(3)[unfolded hash_loop.simps[of f pos fed hashed tot offset on_progress w]]
  obtain rr w1 where r1: "read_at f pos CHUNK w = (rr, w1)" by fastforce
  have c1: "R (w_cap w1)" by (rule cap_keepsD[where R = R and m = "read_at f pos CHUNK", OF _ "1.prems"(2) r1]) (intro cap_intro)
  show ?case
  proof (cases rr)
    case (Ok buf)
    show ?thesis
    proof (cases "buf = []")
      case False
      show ?thesis
        by (rule "1.IH"[OF r1[symmetric] Ok False refl refl "1.prems"(1)])
          (use "1.prems"(1) run r1 c1 Ok False in \<open>auto simp: Let_def calls_keep_def\<close>)
    qed (use run r1 c1 Ok in auto)
  qed (use run r1 c1 in auto)
qed

lemma cap_loops [cap_intro]:
  "calls_keep R on_progress \<Longrightarrow> cap_keeps R (stream_loop fi fo pos sofar expected on_progress)"
  "calls_keep R on_progress \<Longrightarrow> cap_keeps R (hash_loop f pos fed hashed tot offset on_progress)"
  by (auto intro: cap_keepsI cap_stream_loop_run cap_hash_loop_run)

lemma cap_stream [cap_intro]: "calls_keep R on_progress \<Longrightarrow> cap_keeps R (stream src temp from expected on_progress)"
  unfolding stream_def by (intro cap_intro)

lemma cap_hash_file [cap_intro]: "calls_keep R on_progress \<Longrightarrow> cap_keeps R (hash_file_reporting D p tot offset on_progress)"
  unfolding hash_file_reporting_def by (intro cap_intro)

lemma cap_verify_attempts [cap_intro]:
  "calls_keep R on_progress \<Longrightarrow> cap_keeps R (verify_attempts D src temp tsize tot on_progress as)"
  by (induction as) (auto intro!: cap_intro)

lemma cap_verify [cap_intro]:
  "calls_keep R on_progress \<Longrightarrow> cap_keeps R (verify_with_retry_reporting D J src temp dst on_progress)"
  unfolding verify_with_retry_reporting_def Let_def by (intro cap_intro)

lemma cap_fill_temp [cap_intro]:
  "calls_keep R on_progress \<Longrightarrow> cap_keeps R (fill_temp D J src dst temp opts expected on_progress)"
  unfolding fill_temp_def by (intro cap_intro)

lemma cap_copy_onto [cap_intro]:
  "calls_keep R on_progress \<Longrightarrow> cap_keeps R (copy_onto D J src dst opts replaced expected on_progress)"
  unfolding copy_onto_def copy_streaming_def commit_clone_def Let_def by (intro cap_intro)

lemma cap_copy_file_with [cap_intro]:
  "calls_keep R on_progress \<Longrightarrow> cap_keeps R (copy_file_with D J src dst opts on_progress)"
  unfolding copy_file_with_def Let_def by (intro cap_intro) (auto intro!: cap_intro split: option.split)

lemma cap_move_onto [cap_intro]:
  "calls_keep R on_progress \<Longrightarrow> cap_keeps R (move_onto D J src dst opts on_progress)"
  unfolding move_onto_def by (intro cap_intro) (auto intro!: cap_intro split: outcome.split)

lemma cap_move_file_with [cap_intro]:
  "calls_keep R on_progress \<Longrightarrow> cap_keeps R (move_file_with D J src dst opts on_progress)"
  unfolding move_file_with_def by (intro cap_intro) (auto intro!: cap_intro split: option.split)

end
