(* ===== verification/Jobs.thy ===== *)
theory Jobs
  imports Tally Captured Scenario
begin

text \<open>
  A Job of \<open>daemon/src/server.rs\<close> (\<open>start_job\<close>): what the thread it spawns does, file by file, over
  the shared registry, which is what its progress callback captures (\<open>w_cap\<close>). Other threads
  touch the registry between two puts of a Job only under other ids, or forget an entry that a
  client released.
\<close>

section \<open>Definitions\<close>

definition file_name_of :: "string \<Rightarrow> string" where
  "file_name_of p = (case file_name p of Some n \<Rightarrow> from_utf8_lossy n | None \<Rightarrow> p)"

record job_spec =
  js_base :: job_view
  js_sources :: "string list"
  js_destination_dir :: string
  js_options :: options
  js_is_move :: bool
  js_expected_total :: u64

definition job_label :: "string list \<Rightarrow> string" where
  "job_label sources =
     (if (of_nat (length sources) :: u32) = 1 then file_name_of (sources ! 0)
      else show_nat (unat (of_nat (length sources) :: u32)) @ '' files'')"

definition base_view :: "string \<Rightarrow> string list \<Rightarrow> string \<Rightarrow> u64 \<Rightarrow> job_view" where
  "base_view job sources destination_dir expected_total =
     \<lparr>jv_job = job, jv_label = job_label sources,
      jv_file = (case sources of s # _ \<Rightarrow> file_name_of s | [] \<Rightarrow> []),
      jv_source = (case sources of s # _ \<Rightarrow> s | [] \<Rightarrow> []),
      jv_destination = destination_dir, jv_phase = Some Copying, jv_done = fraction_zero,
      jv_files_done = 0, jv_files_total = of_nat (length sources), jv_files_skipped = 0,
      jv_files_replaced = 0, jv_files_skipped_existing = 0, jv_bytes = 0, jv_expected = expected_total,
      jv_outcome = None, jv_tier = None, jv_strength = None, jv_detail = None, jv_landed_as = [],
      jv_error = None\<rparr>"

definition quotient :: "u64 \<Rightarrow> u64 \<Rightarrow> fraction" where
  "quotient n d = (if 0 < d then Fraction n d else fraction_zero)"

definition file_view :: "job_spec \<Rightarrow> string \<Rightarrow> tally \<Rightarrow> job_view" where
  "file_view js source t =
     (js_base js)\<lparr>jv_file := file_name_of source, jv_source := source, jv_files_done := tally_files_done t,
       jv_files_replaced := ta_replaced t, jv_files_skipped_existing := ta_skipped_existing t\<rparr>"

text \<open>
  What a Job tells of itself goes to one place, a parameter here: a way to take one row (\<open>sink\<close>). The daemon's
  is \<open>put\<close>, into the registry.
\<close>

definition report_to :: "(job_view \<Rightarrow> 's \<Rightarrow> 's) \<Rightarrow> job_spec \<Rightarrow> job_view \<Rightarrow> u64 \<Rightarrow> 's progress" where
  "report_to sink js jv bytes_before ph d tot s =
     sink (jv\<lparr>jv_phase := Some ph, jv_bytes := bytes_before + d,
               jv_done := quotient (bytes_before + d) (js_expected_total js)\<rparr>) s"

definition journal_failed_view :: "job_spec \<Rightarrow> string \<Rightarrow> job_view" where
  "journal_failed_view js err =
     (js_base js)\<lparr>jv_outcome := Some ''failed'', jv_error := Some err,
       jv_files_skipped := of_nat (length (js_sources js))\<rparr>"

definition failed_view :: "job_spec \<Rightarrow> job_view \<Rightarrow> tally \<Rightarrow> nat \<Rightarrow> string \<Rightarrow> job_view" where
  "failed_view js jv t idx err =
     jv\<lparr>jv_phase := None, jv_outcome := Some ''failed'', jv_error := Some err,
       jv_files_done := tally_files_done t,
       jv_files_skipped := of_nat (length (js_sources js)) - of_nat idx - 1,
       jv_bytes := ta_bytes t, jv_landed_as := ta_landed t,
       jv_done := quotient (ta_bytes t) (js_expected_total js)\<rparr>"

definition done_view :: "job_spec \<Rightarrow> tally \<Rightarrow> job_view" where
  "done_view js t =
     (let c = tally_finish t
      in (js_base js)\<lparr>jv_phase := None, jv_done := fraction_one, jv_files_done := tally_files_done t,
           jv_bytes := ta_bytes t, jv_outcome := Some (co_outcome c), jv_tier := Some (co_tier c),
           jv_strength := co_strength c, jv_detail := Some (co_detail c), jv_files_replaced := ta_replaced t,
           jv_files_skipped_existing := ta_skipped_existing t, jv_landed_as := ta_landed t\<rparr>)"

primrec job_files_to ::
  "(job_view \<Rightarrow> 's \<Rightarrow> 's) \<Rightarrow> crates \<Rightarrow> journal \<Rightarrow> job_spec \<Rightarrow> string list \<Rightarrow> nat \<Rightarrow> tally \<Rightarrow> ('e, unit, 's) io" where
  "job_files_to sink D J js [] idx t = on_cap (sink (done_view js t))"
| "job_files_to sink D J js (source # rest) idx t =
     (let name = file_name_of source;
          dst = path_join (js_destination_dir js) name;
          jv = file_view js source t;
          rep = report_to sink js jv (ta_bytes t)
      in io_match
           (if js_is_move js then move_file_with D J source dst (js_options js) rep
            else copy_file_with D J source dst (js_options js) rep)
           (\<lambda>out. io_bind (tally_record name out t) (\<lambda>t'. job_files_to sink D J js rest (Suc idx) t'))
           (\<lambda>e. io_bind get_env (\<lambda>E. on_cap (sink (failed_view js jv t idx (show_transfer_error E e))))))"

definition run_job_to :: "(job_view \<Rightarrow> 's \<Rightarrow> 's) \<Rightarrow> crates \<Rightarrow> job_spec \<Rightarrow> ('e, unit, 's) io" where
  "run_job_to sink D js =
     io_match open_default
       (\<lambda>J. job_files_to sink D J js (js_sources js) 0 (tally_new (js_is_move js)))
       (\<lambda>e. io_bind get_env (\<lambda>E. on_cap (sink (journal_failed_view js (show_io_error E e)))))"

abbreviation report :: "job_spec \<Rightarrow> job_view \<Rightarrow> u64 \<Rightarrow> shared progress" where
  "report \<equiv> report_to put"

abbreviation job_files :: "crates \<Rightarrow> journal \<Rightarrow> job_spec \<Rightarrow> string list \<Rightarrow> nat \<Rightarrow> tally \<Rightarrow> ('e, unit, shared) io" where
  "job_files \<equiv> job_files_to put"

abbreviation run_job :: "crates \<Rightarrow> job_spec \<Rightarrow> ('e, unit, shared) io" where
  "run_job \<equiv> run_job_to put"

section \<open>How a Job ends\<close>

text \<open>The rest of the registry, while one Job runs.\<close>

definition others_kept :: "string \<Rightarrow> shared \<Rightarrow> shared \<Rightarrow> bool" where
  "others_kept job s0 s \<longleftrightarrow> registry_ok s \<and> (\<forall>k. k \<noteq> job \<longrightarrow> lookup_job s k = lookup_job s0 k)"

lemma others_kept_put: "others_kept (jv_job v) s0 s \<Longrightarrow> others_kept (jv_job v) s0 (put v s)"
  by (simp add: others_kept_def registry_ok_put registry.look_ins)

lemma report_keeps: "jv_job v = job \<Longrightarrow> calls_keep (others_kept job s0) (report js v n)"
proof -
  assume v: "jv_job v = job"
  have "others_kept job s0 s \<Longrightarrow> others_kept job s0 (report js v n ph d tot s)" for ph d tot s
    unfolding report_to_def v[symmetric] by (drule others_kept_put[of "v\<lparr>jv_phase := Some ph, jv_bytes := n + d,
      jv_done := quotient (n + d) (js_expected_total js)\<rparr>", simplified]) simp
  then show ?thesis by (simp add: calls_keep_def)
qed

lemma view_ids [simp]:
  "jv_job (file_view js source t) = jv_job (js_base js)"
  "jv_job (failed_view js v t idx err) = jv_job v"
  "jv_job (journal_failed_view js err) = jv_job (js_base js)"
  "jv_job (done_view js t) = jv_job (js_base js)"
  by (simp_all add: file_view_def failed_view_def journal_failed_view_def done_view_def Let_def)

lemma cap_tally_record [cap_intro]: "cap_keeps R (tally_record a out t)"
  unfolding tally_record_def by (cases out) (auto intro!: cap_intro)

lemma tally_record_run:
  assumes "tally_record a out t w = (r, w')"
  shows "(\<exists>n. r = Ok (tally_add a out n t)) \<or> r = Killed"
proof (cases out)
  case (Moved p)
  obtain mr w1 where m: "metadata p w = (mr :: (io_error, meta) res, w1)" by fastforce
  then show ?thesis
    using assms by (cases mr) (auto simp: Moved tally_record_def io_bind_def io_match_def map_unwrap_or_def ret_def
        simp del: tally_add.simps)
qed (use assms in \<open>auto simp: tally_record_def ret_def\<close>)

text \<open>The three ways a finished Job's entry can look.\<close>

definition job_result :: "job_spec \<Rightarrow> job_view \<Rightarrow> bool" where
  "job_result js v \<longleftrightarrow>
     (\<exists>os. length os = length (js_sources js) \<and> v = done_view js (tally_all (js_is_move js) os))
   \<or> (\<exists>os source err. length os < length (js_sources js)
        \<and> v = failed_view js (file_view js source (tally_all (js_is_move js) os)) (tally_all (js_is_move js) os) (length os) err)
   \<or> (\<exists>err. v = journal_failed_view js err)"

definition job_post :: "job_spec \<Rightarrow> shared \<Rightarrow> ('e, unit) res \<Rightarrow> shared \<Rightarrow> bool" where
  "job_post js s0 r s \<longleftrightarrow> others_kept (jv_job (js_base js)) s0 s \<and> (\<forall>e. r \<noteq> Err e)
     \<and> (r = Ok () \<longrightarrow> (\<exists>v. lookup_job s (jv_job (js_base js)) = Some v \<and> job_result js v))"

lemma job_post_put:
  assumes "others_kept (jv_job (js_base js)) s0 (w_cap w)" "jv_job v = jv_job (js_base js)" "job_result js v"
    and "on_cap (put v) w = (r, w')"
  shows "job_post js s0 r (w_cap w')"
  using assms others_kept_put[of v s0 "w_cap w"] registry.look_ins_same[of v "w_cap w"]
  by (auto simp: job_post_def on_cap_def)

lemma job_files_post:
  fixes r :: "('e, unit) res"
  assumes "idx + length rest = length (js_sources js)" "length os = idx"
    and "others_kept (jv_job (js_base js)) s0 (w_cap w)"
    and "job_files D J js rest idx (tally_all (js_is_move js) os) w = (r, w')"
  shows "job_post js s0 r (w_cap w')"
  using assms
proof (induction rest arbitrary: idx os w)
  case Nil
  then show ?case
    by (intro job_post_put[of js s0 w "done_view js (tally_all (js_is_move js) os)"]) (auto simp: job_result_def)
next
  case (Cons source rest)
  let ?t = "tally_all (js_is_move js) os"
  let ?v = "file_view js source ?t"
  let ?R = "others_kept (jv_job (js_base js)) s0"
  let ?dst = "path_join (js_destination_dir js) (file_name_of source)"
  let ?rep = "report js ?v (ta_bytes ?t)"
  let ?m = "if js_is_move js then move_file_with D J source ?dst (js_options js) ?rep
            else copy_file_with D J source ?dst (js_options js) ?rep"
  obtain mr w1 where m: "?m w = (mr, w1)" by fastforce
  have keep: "cap_keeps ?R ?m" by (intro cap_intro report_keeps) simp_all
  have c1: "?R (w_cap w1)" by (rule cap_keepsD[OF keep Cons.prems(3) m])
  show ?case
  proof (cases mr)
    case (Ok out)
    obtain tr :: "('e, tally) res" and w2 where t: "tally_record (file_name_of source) out ?t w1 = (tr, w2)"
      by fastforce
    have c2: "?R (w_cap w2)" by (rule cap_keepsD[where R = ?R and m = "tally_record (file_name_of source) out ?t" and w = w1, OF _ c1 t]) (rule cap_tally_record)
    show ?thesis
    proof (cases "tr = Killed")
      case True
      with Cons.prems(4) m Ok t have "r = Killed" "w' = w2"
        by (simp_all add: Let_def io_match_def io_bind_def)
      with c2 show ?thesis by (simp add: job_post_def)
    next
      case False
      with tally_record_run[OF t] obtain n where n: "tr = Ok (tally_add (file_name_of source) out n ?t)" by auto
      have snoc: "tally_add (file_name_of source) out n ?t = tally_all (js_is_move js) (os @ [(file_name_of source, out, n)])"
        by (simp add: tally_all_def)
      show ?thesis
      proof (rule Cons.IH)
        show "job_files D J js rest (Suc idx) (tally_all (js_is_move js) (os @ [(file_name_of source, out, n)])) w2 = (r, w')"
          using Cons.prems(4) m Ok t n by (auto simp: Let_def io_match_def io_bind_def snoc[symmetric])
      qed (use Cons.prems c2 in auto)
    qed
  next
    case (Err e)
    let ?f = "failed_view js ?v ?t idx (show_transfer_error (w_env w1) e)"
    have "on_cap (put ?f) w1 = (r, w')"
      using Cons.prems(4) m Err by (auto simp: Let_def io_match_def io_bind_def get_env_def)
    moreover have "job_result js ?f"
      unfolding job_result_def
      by (rule disjI2, rule disjI1, intro exI[of _ os] exI[of _ source] exI conjI)
         (use Cons.prems(1,2) in auto)
    ultimately show ?thesis using c1 by (intro job_post_put[of js s0 w1 ?f]) auto
  next
    case Killed
    with Cons.prems(4) m have "r = Killed" "w' = w1" by (auto simp: Let_def io_match_def)
    with c1 show ?thesis by (simp add: job_post_def)
  qed
qed

lemma run_job_post:
  assumes "registry_ok (w_cap w)" "run_job D js w = (r, w')"
  shows "job_post js (w_cap w) r (w_cap w')"
proof -
  let ?R = "others_kept (jv_job (js_base js)) (w_cap w)"
  have start: "?R (w_cap w)" using assms(1) by (simp add: others_kept_def)
  obtain jr w1 where j: "open_default w = (jr, w1)" by fastforce
  have c1: "?R (w_cap w1)"
    by (rule cap_keepsD[where R = ?R and m = open_default, OF _ start j]) (intro cap_intro)
  show ?thesis
  proof (cases jr)
    case (Ok J)
    have "job_files D J js (js_sources js) 0 (tally_all (js_is_move js) []) w1 = (r, w')"
      using assms(2) j Ok by (simp add: run_job_to_def io_match_def tally_all_def)
    from job_files_post[OF _ _ c1 this] show ?thesis by simp
  next
    case (Err e)
    have "on_cap (put (journal_failed_view js (show_io_error (w_env w1) e))) w1 = (r, w')"
      using assms(2) j Err by (simp add: run_job_to_def io_match_def io_bind_def get_env_def)
    then show ?thesis by (intro job_post_put[OF c1]) (auto simp: job_result_def)
  next
    case Killed
    with assms(2) j have "r = Killed" "w' = w1" by (auto simp: run_job_to_def io_match_def)
    with c1 show ?thesis by (simp add: job_post_def)
  qed
qed

section \<open>Properties\<close>

lemma tally_all_unats:
  assumes "length os < 2 ^ 32"
  shows "unat (tally_files_done (tally_all mv os)) + unat (ta_skipped_existing (tally_all mv os)) = length os"
proof -
  let ?m = "how_many is_moved os" and ?c = "how_many is_copied os" and ?s = "how_many ((=) SkippedExisting) os"
  have small: "?m + ?c < 2 ^ 32" "?s < 2 ^ 32" using how_many_total[of os] assms by simp_all
  have fd: "tally_files_done (tally_all mv os) = of_nat (?m + ?c)"
    by (simp add: tally_files_done_def tally_all_counts)
  show ?thesis unfolding fd using small how_many_total[of os]
    by (simp add: tally_all_counts of_nat_u32 del: of_nat_add)
qed

definition accounted :: "nat \<Rightarrow> job_view \<Rightarrow> nat \<Rightarrow> bool" where
  "accounted n v lost \<longleftrightarrow>
     unat (jv_files_done v) + unat (jv_files_skipped_existing v) + unat (jv_files_skipped v) + lost = n"

lemma failed_skips:
  assumes "i < n" "n < 2 ^ 32"
  shows "unat (of_nat n - of_nat i - 1 :: u32) = n - i - 1"
proof -
  have "of_nat n - of_nat i - 1 = (of_nat (n - i - 1) :: u32)" using assms(1) by (simp add: of_nat_diff)
  then show ?thesis using assms by (simp only: of_nat_u32)
qed

lemma job_result_accounts:
  assumes "job_result js v" "length (js_sources js) < 2 ^ 32"
    and "js_base js = base_view job (js_sources js) (js_destination_dir js) (js_expected_total js)"
  shows "terminal v \<and> jv_phase v \<noteq> Some Verifying
    \<and> (if jv_error v = None then accounted (length (js_sources js)) v 0
       else accounted (length (js_sources js)) v 0 \<or> accounted (length (js_sources js)) v 1)"
  using assms(1) unfolding job_result_def
proof (elim disjE exE conjE)
  fix os assume "length os = length (js_sources js)" "v = done_view js (tally_all (js_is_move js) os)"
  then show ?thesis using assms(2,3) tally_all_unats[of os "js_is_move js"]
    by (simp add: done_view_def Let_def terminal_def accounted_def base_view_def)
next
  fix os source err
  let ?t = "tally_all (js_is_move js) os"
  assume len: "length os < length (js_sources js)"
    and v: "v = failed_view js (file_view js source ?t) ?t (length os) err"
  have "unat (jv_files_skipped v) = length (js_sources js) - length os - 1"
    unfolding v by (simp add: failed_view_def failed_skips[OF len assms(2)])
  moreover have "unat (tally_files_done ?t) + unat (ta_skipped_existing ?t) = length os"
    using len assms(2) by (simp add: tally_all_unats)
  ultimately have "accounted (length (js_sources js)) v 1"
    using len by (simp add: accounted_def v failed_view_def file_view_def)
  then show ?thesis by (simp add: v terminal_def failed_view_def)
next
  fix err assume "v = journal_failed_view js err"
  then show ?thesis using assms(2,3)
    by (simp add: journal_failed_view_def terminal_def accounted_def base_view_def of_nat_u32)
qed

text \<open>
  C8. A Job never leaves its row hanging. Unless the daemon itself is killed, a Job whose thread
  ran to its end - whatever the disk did, whatever failed - has left a terminal entry in the
  registry under its own id; the entry accounts for every file of the request (arrived, left
  alone, not reached, and at most the one that failed), and no other Job's entry was touched. It
  never ends with an error nobody sees.
\<close>

theorem job_ends_terminal:
  fixes r :: "('e, unit) res"
  assumes "registry_ok (w_cap w)" "run_job D js w = (r, w')" "length (js_sources js) < 2 ^ 32"
    and "js_base js = base_view job (js_sources js) (js_destination_dir js) (js_expected_total js)"
  shows "registry_ok (w_cap w') \<and> (\<forall>k. k \<noteq> job \<longrightarrow> lookup_job (w_cap w') k = lookup_job (w_cap w) k)
    \<and> (r = Killed \<or> r = Ok () \<and> (\<exists>v. lookup_job (w_cap w') job = Some v \<and> terminal v
         \<and> (if jv_error v = None then accounted (length (js_sources js)) v 0
            else accounted (length (js_sources js)) v 0 \<or> accounted (length (js_sources js)) v 1)))"
proof -
  have id: "jv_job (js_base js) = job" by (simp add: assms(4) base_view_def)
  have post: "job_post js (w_cap w) r (w_cap w')" by (rule run_job_post[OF assms(1,2)])
  then have rest: "registry_ok (w_cap w')" "\<forall>k. k \<noteq> job \<longrightarrow> lookup_job (w_cap w') k = lookup_job (w_cap w) k"
    "r = Killed \<or> r = Ok ()"
    by (cases r; simp add: job_post_def others_kept_def id)+
  show ?thesis
  proof (cases "r = Killed")
    case False
    with rest(3) have ok: "r = Ok ()" by simp
    with post obtain v where "lookup_job (w_cap w') job = Some v" "job_result js v"
      by (auto simp: job_post_def id)
    with job_result_accounts[OF _ assms(3,4)] rest ok show ?thesis by blast
  qed (use rest in simp)
qed

text \<open>One file, copied on the concrete machine: the row ends as copied, with its five bytes.\<close>

definition lab_job :: job_spec where
  "lab_job = \<lparr>js_base = base_view ''1'' [''/src/a''] ''/dst'' 5, js_sources = [''/src/a''],
     js_destination_dir = ''/dst'', js_options = default_options, js_is_move = False, js_expected_total = 5\<rparr>"

definition lab_daemon :: "shared world" where
  "lab_daemon = \<lparr>w_env = lab_reading whole_read, w_fs = lab_fs, w_tick = 0, w_cap = shared_new\<rparr>"

definition lab_done :: "(io_error, unit) res \<times> shared world" where
  "lab_done = run_job lab_crates lab_job lab_daemon"

lemma lab_job_runs:
  "(case lab_done of (r, w) \<Rightarrow> (r, map_option (\<lambda>v. (jv_outcome v, jv_bytes v, jv_error v)) (lookup_job (w_cap w) ''1'')))
     = (Ok (), Some (Some ''copied'', 5, None))"
  by code_simp

lemma job_ends_terminal_witness:
  "fst lab_done = Ok () \<and> registry_ok (w_cap (snd lab_done))
   \<and> (\<exists>v. lookup_job (w_cap (snd lab_done)) ''1'' = Some v \<and> terminal v \<and> accounted 1 v 0)"
proof -
  obtain r w where rw: "lab_done = (r, w)" by fastforce
  from lab_job_runs[unfolded rw prod.case prod.inject] have run: "lab_done = (Ok (), w)"
    and row: "map_option (\<lambda>v. (jv_outcome v, jv_bytes v, jv_error v)) (lookup_job (w_cap w) ''1'') = Some (Some ''copied'', 5, None)"
    by (simp_all add: rw)
  have "registry_ok (w_cap lab_daemon)"
    by (simp add: registry_ok_def lab_daemon_def shared_new_def)
  from job_ends_terminal[OF this run[unfolded lab_done_def], of "''1''"] row show ?thesis
    by (auto simp: run lab_job_def)
qed

end
