(* ===== verification/Returning.thy ===== *)
theory Returning
  imports Jobs
begin

text \<open>
  How long the daemon's work can take. Every call of the model is one tick of the clock, and a
  process that is not killed for a given number of ticks must have come to its end by then: the
  loops of \<open>daemon/src/engine.rs\<close> over a file's chunks are bounded by the largest file there can
  be, the search for a free name by its ten thousand candidates, a Job by its files. The bounds are
  for the worst machine (one byte per read, every call of every branch); what they need is that
  the medium returns no more bytes than it holds.
\<close>

section \<open>Bounded computations\<close>

definition fits :: "fs \<Rightarrow> bool" where
  "fits f \<longleftrightarrow> (\<forall>k. sized (map_of f k))"

definition tame :: "env \<Rightarrow> bool" where
  "tame E \<longleftrightarrow> (\<forall>t b. length (e_read E t b) \<le> length b \<and> length (e_write E t b) \<le> length b)
     \<and> (\<forall>t f. fits f \<longrightarrow> fits (e_other E t f))"

text \<open>The computation ends by itself, in at most \<open>n\<close> ticks, or the process is killed before that.\<close>

definition spent :: "env \<Rightarrow> nat \<Rightarrow> 's world \<Rightarrow> ('e, 'a) res \<Rightarrow> 's world \<Rightarrow> bool" where
  "spent E n w r w' \<longleftrightarrow> (if r = Killed then e_kill E < w_tick w + n
     else w_env w' = E \<and> fits (w_fs w') \<and> w_tick w' \<le> w_tick w + n)"

definition within :: "env \<Rightarrow> nat \<Rightarrow> ('e, 'a, 's) io \<Rightarrow> bool" where
  "within E n m \<longleftrightarrow> (\<forall>w r w'. tame E \<longrightarrow> w_env w = E \<longrightarrow> fits (w_fs w) \<longrightarrow> m w = (r, w') \<longrightarrow>
     spent E n w r w')"

lemma spent_step: "spent E n w1 r w' \<Longrightarrow> w_tick w1 + n \<le> w_tick w + k \<Longrightarrow> spent E k w r w'"
  by (auto simp: spent_def split: if_splits)

named_theorems within_intro \<open>how many ticks a computation takes at most\<close>

lemma withinI:
  assumes "\<And>w r w'. tame E \<Longrightarrow> w_env w = E \<Longrightarrow> fits (w_fs w) \<Longrightarrow> m w = (r, w') \<Longrightarrow> spent E n w r w'"
  shows "within E n m"
  unfolding within_def by (intro allI impI) (rule assms)

lemma withinS: "within E n m \<Longrightarrow> tame E \<Longrightarrow> w_env w = E \<Longrightarrow> fits (w_fs w) \<Longrightarrow> m w = (r, w') \<Longrightarrow> spent E n w r w'"
  by (simp add: within_def)

lemma withinD:
  assumes "within E n m" "tame E" "w_env w = E" "fits (w_fs w)" "m w = (r, w')"
  shows "r = Killed \<Longrightarrow> e_kill E < w_tick w + n"
    "r \<noteq> Killed \<Longrightarrow> w_env w' = E" "r \<noteq> Killed \<Longrightarrow> fits (w_fs w')" "r \<noteq> Killed \<Longrightarrow> w_tick w' \<le> w_tick w + n"
  using assms(1)[unfolded within_def, rule_format, OF assms(2-5)] by (simp_all add: spent_def)

lemma within_mono: "within E n m \<Longrightarrow> n \<le> k \<Longrightarrow> within E k m"
  by (rule withinI) (rule spent_step[OF withinS], assumption+, simp)

lemma within_ret [within_intro]: "within E 0 (ret a)"
  by (simp add: within_def spent_def ret_def)

lemma within_fail [within_intro]: "within E 0 (fail e)"
  by (simp add: within_def spent_def fail_def)

lemma within_get_env [within_intro]: "within E 0 get_env"
  by (simp add: within_def spent_def get_env_def)

lemma within_on_cap [within_intro]: "within E 0 (on_cap h)"
  by (simp add: within_def spent_def on_cap_def)

lemma within_match [within_intro]:
  assumes m: "within E n m" and f: "\<And>a. within E k (f a)" and g: "\<And>e. within E l (g e)"
  shows "within E (n + max k l) (io_match m f g)"
proof (rule withinI)
  fix w r w'
  assume E: "tame E" "w_env w = E" "fits (w_fs w)" and run: "io_match m f g w = (r, w')"
  obtain mr w1 where mr: "m w = (mr, w1)" by fastforce
  note 1 = withinD[OF m E mr]
  show "spent E (n + max k l) w r w'"
  proof (cases mr)
    case (Ok a)
    with run mr have "f a w1 = (r, w')" by (simp add: io_match_def)
    from withinS[OF f E(1) 1(2,3) this] 1(4) Ok show ?thesis by (auto elim!: spent_step)
  next
    case (Err e)
    with run mr have "g e w1 = (r, w')" by (simp add: io_match_def)
    from withinS[OF g E(1) 1(2,3) this] 1(4) Err show ?thesis by (auto elim!: spent_step)
  qed (use run mr 1(1) in \<open>simp add: io_match_def spent_def\<close>)
qed

lemma within_bind [within_intro]: "within E n m \<Longrightarrow> (\<And>a. within E k (f a)) \<Longrightarrow> within E (n + k) (io_bind m f)"
  unfolding io_bind_def by (rule within_mono[OF within_match[where l = 0]]) (auto intro: within_fail)

lemma within_discard [within_intro]: "within E n m \<Longrightarrow> within E k f \<Longrightarrow> within E (n + k) (io_discard m f)"
  unfolding io_discard_def by (rule within_mono[OF within_match]) auto

lemma within_map_err [within_intro]: "within E n m \<Longrightarrow> within E n (map_err h m)"
  unfolding map_err_def by (rule within_mono[OF within_match]) (auto intro: within_intro)

lemma within_map_unwrap_or [within_intro]: "within E n m \<Longrightarrow> within E n (map_unwrap_or h d m)"
  unfolding map_unwrap_or_def by (rule within_mono[OF within_match]) (auto intro: within_intro)

lemma within_if [within_intro]: "within E n m \<Longrightarrow> within E k m' \<Longrightarrow> within E (max n k) (if b then m else m')"
  by (cases b) (auto elim: within_mono)

lemma within_option [within_intro]:
  "within E n m \<Longrightarrow> (\<And>a. within E k (f a)) \<Longrightarrow> within E (max n k) (case x of None \<Rightarrow> m | Some a \<Rightarrow> f a)"
  by (cases x) (auto intro: within_mono[where n = n] within_mono[where n = k])

section \<open>Calls\<close>

lemma within_sys [within_intro]:
  assumes "\<And>t f a f'. tame E \<Longrightarrow> fits f \<Longrightarrow> op E t f = Inr (a, f') \<Longrightarrow> fits f'"
  shows "within E 1 (sys op)"
proof (rule withinI)
  fix w :: "'b world" and r w'
  assume E: "tame E" "w_env w = E" "fits (w_fs w)" and run: "sys op w = (r, w')"
  have "fits (e_other E (w_tick w) (w_fs w))" using E by (simp add: tame_def)
  with run E assms show "spent E 1 w r w'"
    by (auto simp: spent_def sys_def Let_def split: if_splits option.splits sum.splits)
qed

lemma fits_update: "fits f \<Longrightarrow> sized (Some n) \<Longrightarrow> fits (AList.update k n f)"
  by (simp add: fits_def)

lemma fits_delete: "fits f \<Longrightarrow> fits (AList.delete k f)"
  by (simp add: fits_def sized_def)

lemma fitsD: "fits f \<Longrightarrow> map_of f k = x \<Longrightarrow> sized x"
  by (auto simp: fits_def)

lemma sized_simps [simp]:
  "sized None" "sized (Some Dir)" "sized (Some (Sock b))" "sized (Some (File c d)) \<longleftrightarrow> length c \<le> MAX_FILE"
  by (simp_all add: sized_def)

lemma fits_move_tree: "fits f \<Longrightarrow> fits (fs_move_tree a b f)"
  by (auto simp: fits_def map_of_move_tree)

lemma fits_remove_tree: "fits f \<Longrightarrow> fits (fs_remove_tree a f)"
  by (auto simp: fits_def fs_remove_tree_def map_of_filter_key)

lemma fits_mkdirs: "mkdirs p ns f = Inr f' \<Longrightarrow> fits f \<Longrightarrow> fits f'"
  by (induction p ns f rule: mkdirs.induct) (auto simp: fits_update split: option.splits node.splits)

lemma fits_rename: "fs_rename E a b f = Inr f' \<Longrightarrow> fits f \<Longrightarrow> fits f'"
  by (auto simp: fs_rename_def dest: fitsD intro!: fits_update fits_delete fits_move_tree
      split: option.splits node.splits if_splits)

lemma within_calls [within_intro]:
  "within E 1 (metadata p)" "within E 1 (remove_file p)" "within E 1 (remove_dir_all p)" "within E 1 (rename p q)"
  "within E 1 (open_read p)" "within E 1 (open_write p)" "within E 1 (open_create p)" "within E 1 no_effect"
  "within E 1 (read_at k off n)" "within E 1 (sync_all k)" "within E 1 (ficlone k k')" "within E 1 (fs_read p)"
  unfolding calls
  by (intro within_sys; auto dest!: at_path_Inr dest: fitsD fits_rename
      intro!: fits_update fits_delete fits_remove_tree split: option.splits node.splits sum.splits if_splits)+

lemma within_path_exists [within_intro]: "within E 1 (path_exists p)"
  unfolding path_exists_def by (intro within_intro)

lemma within_create_dir_all [within_intro]: "within E 1 (create_dir_all p)"
  unfolding create_dir_all_def
  by (rule within_mono[OF within_if[OF within_ret within_sys]]) (auto dest!: at_path_Inr dest: fits_mkdirs split: sum.splits)

lemma fits_put_data: "fits f \<Longrightarrow> off + length s \<le> MAX_FILE \<Longrightarrow> fits (put_data k off s f)"
  by (auto simp: put_data_def write_at_def dest: fitsD intro!: fits_update split: option.split node.split)

lemma within_write_all [within_intro]: "within E 1 (write_all k off b)"
proof (rule withinI)
  fix w :: "'a world" and r w'
  assume E: "tame E" "w_env w = E" "fits (w_fs w)" and run: "write_all k off b w = (r, w')"
  have f: "fits (e_other E (w_tick w) (w_fs w))" and "length (e_write E (w_tick w) b) \<le> length b"
    using E by (simp_all add: tame_def)
  then have "off + length (take n (e_write E (w_tick w) b)) \<le> MAX_FILE" if "off + length b \<le> MAX_FILE" for n
    using that by (simp add: min_def)
  note put = fits_put_data[OF f this] fits_put_data[OF f this[of "length (e_write E (w_tick w) b)"]]
  show "spent E 1 w r w'"
    using run E f put by (auto simp: spent_def write_all_def Let_def split: if_splits option.splits)
qed

lemma within_fs_write [within_intro]: "within E 2 (fs_write p b)"
  unfolding fs_write_def by (rule within_mono, (rule within_intro)+) simp

section \<open>Loops\<close>

lemma read_at_reach:
  assumes "tame E" "w_env w = E" "fits (w_fs w)" "read_at k off n w = (Ok buf, w1)" "buf \<noteq> []"
  shows "off + length buf \<le> MAX_FILE"
proof -
  let ?f = "e_other E (w_tick w) (w_fs w)"
  have read: "length (e_read E (w_tick w) b) \<le> length b" for b using assms(1) by (simp add: tame_def)
  have f: "fits ?f" using assms(1,3) by (simp add: tame_def)
  from assms(2,4) obtain b where b: "buf = take n (e_read E (w_tick w) b)"
    "b = [] \<or> (\<exists>c d. map_of ?f k = Some (File c d) \<and> b = drop off c)"
    by (auto simp: read_at_def sys_def Let_def split: if_splits option.splits node.splits)
  from assms(5) b(1) read[of b] have "b \<noteq> []" by auto
  with b(2) obtain c d where c: "map_of ?f k = Some (File c d)" "b = drop off c" by blast
  have "length c \<le> MAX_FILE" using fitsD[OF f c(1)] by simp
  moreover have "length buf \<le> length c - off" using b(1) read[of b] c(2) by simp
  moreover have "off < length c" using \<open>b \<noteq> []\<close> c(2) by simp
  ultimately show ?thesis by linarith
qed

lemma stream_loop_within_run:
  assumes "tame E"
  shows "w_env w = E \<Longrightarrow> fits (w_fs w) \<Longrightarrow> stream_loop fi fo pos sofar expected on_progress w = (r, w') \<Longrightarrow>
   spent E (2 * (MAX_FILE - pos) + 2) w r w'"
proof (induction fi fo pos sofar expected on_progress w rule: stream_loop.induct)
  case (1 fi fo pos sofar expected on_progress w)
  note run = "1.prems"(3)[unfolded stream_loop.simps[of fi fo pos sofar expected on_progress w]]
  obtain rr w1 where r1: "read_at fi pos CHUNK w = (rr, w1)" by fastforce
  note c1 = withinD[OF within_calls(9) assms "1.prems"(1,2) r1]
  show ?case
  proof (cases rr)
    case (Ok buf)
    show ?thesis
    proof (cases "buf = []")
      case False
      obtain wr w2 where r2: "write_all fo pos buf w1 = (wr, w2)" by fastforce
      have o1: "w_env w1 = E" "fits (w_fs w1)" "w_tick w1 \<le> w_tick w + 1" using c1 Ok by simp_all
      note c2 = withinD[OF within_write_all assms o1(1,2) r2]
      show ?thesis
      proof (cases wr)
        case (Ok u)
        have pos: "pos + length buf \<le> MAX_FILE" "0 < length buf"
          using read_at_reach[OF assms "1.prems"(1,2) r1[unfolded \<open>rr = Ok buf\<close>] False] False by simp_all
        have o2: "w_env w2 = E" "fits (w_fs w2)" "w_tick w2 \<le> w_tick w + 2"
          using c2 Ok o1 by simp_all
        let ?w2 = "w2\<lparr>w_cap := on_progress Copying (sofar + of_nat (length buf)) expected (w_cap w2)\<rparr>"
        have "stream_loop fi fo (pos + length buf) (sofar + of_nat (length buf)) expected on_progress ?w2 = (r, w')"
          using run r1 r2 \<open>rr = Ok buf\<close> False Ok by (simp add: Let_def)
        moreover have "w_env ?w2 = E" "fits (w_fs ?w2)" using o2 by simp_all
        ultimately have "spent E (2 * (MAX_FILE - (pos + length buf)) + 2) ?w2 r w'"
          using "1.IH"[OF r1[symmetric] \<open>rr = Ok buf\<close> False r2[symmetric] Ok refl] by blast
        moreover have "w_tick w2 + (2 * (MAX_FILE - (pos + length buf)) + 2) \<le> w_tick w + (2 * (MAX_FILE - pos) + 2)"
          using o2(3) pos by linarith
        ultimately show ?thesis by (auto elim!: spent_step)
      qed (use run r1 r2 c2 o1 \<open>rr = Ok buf\<close> False in \<open>auto simp: spent_def\<close>)
    qed (use run r1 c1 Ok in \<open>auto simp: spent_def\<close>)
  qed (use run r1 c1 in \<open>auto simp: spent_def\<close>)
qed

lemma hash_loop_within_run:
  assumes "tame E"
  shows "w_env w = E \<Longrightarrow> fits (w_fs w) \<Longrightarrow> hash_loop f pos fed hashed tot offset on_progress w = (r, w') \<Longrightarrow>
   spent E (MAX_FILE - pos + 1) w r w'"
proof (induction f pos fed hashed tot offset on_progress w rule: hash_loop.induct)
  case (1 f pos fed hashed tot offset on_progress w)
  note run = "1.prems"(3)[unfolded hash_loop.simps[of f pos fed hashed tot offset on_progress w]]
  obtain rr w1 where r1: "read_at f pos CHUNK w = (rr, w1)" by fastforce
  note c1 = withinD[OF within_calls(9) assms "1.prems"(1,2) r1]
  show ?case
  proof (cases rr)
    case (Ok buf)
    show ?thesis
    proof (cases "buf = []")
      case False
      have pos: "pos + length buf \<le> MAX_FILE" "0 < length buf"
        using read_at_reach[OF assms "1.prems"(1,2) r1[unfolded Ok] False] False by simp_all
      have o1: "w_env w1 = E" "fits (w_fs w1)" "w_tick w1 \<le> w_tick w + 1" using c1 Ok by simp_all
      let ?h = "hashed + of_nat (length buf)"
      let ?w1 = "if 0 < tot then w1\<lparr>w_cap := on_progress Verifying (offset + ?h) tot (w_cap w1)\<rparr> else w1"
      have "hash_loop f (pos + length buf) (fed @ buf) ?h tot offset on_progress ?w1 = (r, w')"
        using run r1 Ok False by (simp add: Let_def)
      moreover have "w_env ?w1 = E" "fits (w_fs ?w1)" "w_tick ?w1 \<le> w_tick w + 1" using o1 by simp_all
      ultimately have "spent E (MAX_FILE - (pos + length buf) + 1) ?w1 r w'"
        using "1.IH"[OF r1[symmetric] Ok False refl refl] by blast
      moreover have t: "w_tick ?w1 = w_tick w1" by simp
      moreover have "w_tick ?w1 + (MAX_FILE - (pos + length buf) + 1) \<le> w_tick w + (MAX_FILE - pos + 1)"
        unfolding t using o1(3) pos by linarith
      ultimately show ?thesis by (blast intro: spent_step)
    qed (use run r1 c1 Ok in \<open>auto simp: spent_def\<close>)
  qed (use run r1 c1 in \<open>auto simp: spent_def\<close>)
qed

lemma within_stream_loop [within_intro]:
  "within E (2 * MAX_FILE + 2) (stream_loop fi fo pos sofar expected on_progress)"
  by (rule within_mono[of E "2 * (MAX_FILE - pos) + 2"], rule withinI, rule stream_loop_within_run) simp_all

lemma within_hash_loop [within_intro]:
  "within E (MAX_FILE + 1) (hash_loop f pos fed hashed tot offset on_progress)"
  by (rule within_mono[of E "MAX_FILE - pos + 1"], rule withinI, rule hash_loop_within_run) simp_all

lemma within_first_free:
  assumes "\<And>n. within E k (free n)"
  shows "within E (k * (hi - lo)) (first_free free lo hi)"
proof (induction "hi - lo" arbitrary: lo)
  case 0
  then show ?case by (subst first_free.simps) (auto intro: within_intro)
next
  case (Suc d)
  then have "within E (k * d) (first_free free (Suc lo) hi)" by (metis diff_Suc_1 diff_Suc_eq_diff_pred diff_commute)
  then have "within E (k + max 0 (k * d)) (io_bind (free lo) (\<lambda>b. if b then ret (Some lo) else first_free free (Suc lo) hi))"
    by (intro within_intro assms)
  moreover have "lo < hi" using Suc(2) by simp
  ultimately show ?case by (subst first_free.simps) (simp flip: Suc(2))
qed

section \<open>The engine and a Job\<close>

text \<open>The worst case of one transfer, and of a Job of \<open>n\<close> files.\<close>

definition transfer_ticks :: nat where
  "transfer_ticks = 6 * MAX_FILE + 20100"

definition job_ticks :: "nat \<Rightarrow> nat" where
  "job_ticks n = 1 + n * (transfer_ticks + 1)"

lemma within_sum [within_intro]:
  "(\<And>e. within E n (f e)) \<Longrightarrow> (\<And>a. within E k (g a)) \<Longrightarrow> within E (max n k) (case x of Inl e \<Rightarrow> f e | Inr a \<Rightarrow> g a)"
  by (cases x) (auto intro: within_mono[where n = n] within_mono[where n = k])

lemma within_journal [within_intro]:
  "within E 5 (journal_record D J e)" "within E 1 (journal_get D J dst)" "within E 1 (journal_clear D J dst)"
  "within E 1 open_default"
  unfolding journal_record_def journal_get_def journal_clear_def open_default_def open_at_def Let_def
  by (rule within_mono, (rule within_intro)+, simp)+

lemma within_fs_ops [within_intro]:
  "within E 1 (drop_cache k)" "within E 4 (try_reflink_into_temp src temp)" "within E 2 (same_filesystem a b)"
  unfolding drop_cache_def try_reflink_into_temp_def same_filesystem_def Let_def
  by (rule within_mono, (rule within_intro)+, simp)+

lemma within_resume_offset [within_intro]: "within E 2 (resume_offset D J dst temp expected checksum)"
  unfolding resume_offset_def by (rule within_mono, (rule within_intro)+, simp)

lemma within_free_name_beside [within_intro]: "within E 9998 (free_name_beside dst)"
  unfolding free_name_beside_def
  by (rule within_mono, (rule within_intro within_first_free)+, simp)

lemma within_resolve_conflict [within_intro]: "within E 9998 (resolve_conflict dst existed rule)"
  by (cases existed; cases rule; simp add: resolve_conflict_def) (rule within_mono, (rule within_intro)+, simp)+

lemma within_discard_temp [within_intro]: "within E 2 (discard_temp D J temp dst e)"
  unfolding discard_temp_def by (rule within_mono, (rule within_intro)+, simp)

lemma within_stream [within_intro]: "within E (2 * MAX_FILE + 7) (stream src temp from expected on_progress)"
  unfolding stream_def by (rule within_mono, (rule within_intro)+, simp)

lemma within_hash_file [within_intro]: "within E (MAX_FILE + 3) (hash_file_reporting D p tot offset on_progress)"
  unfolding hash_file_reporting_def by (rule within_mono, (rule within_intro)+, simp)

lemma within_verify [within_intro]:
  "within E (4 * MAX_FILE + 15) (verify_with_retry_reporting D J src temp dst on_progress)"
  unfolding verify_with_retry_reporting_def Let_def verify_attempts.simps
  by (rule within_mono, (rule within_intro)+, simp)

lemma within_fill_temp [within_intro]: "within E (2 * MAX_FILE + 18) (fill_temp D J src dst temp opts expected on_progress)"
  unfolding fill_temp_def by (rule within_mono, (rule within_intro)+, simp)

lemma within_copy_onto [within_intro]:
  "within E (6 * MAX_FILE + 41) (copy_onto D J src dst opts replaced expected on_progress)"
  unfolding copy_onto_def copy_streaming_def commit_clone_def Let_def
  by (rule within_mono, (rule within_intro)+, simp)

lemma within_copy_file_with [within_intro]:
  "within E (6 * MAX_FILE + 10050) (copy_file_with D J src dst opts on_progress)"
  unfolding copy_file_with_def Let_def by (rule within_mono, (rule within_intro)+, simp)

lemma within_outcome [within_intro]:
  "(\<And>t b r p. within E n (f t b r p)) \<Longrightarrow> (\<And>p. within E k (g p)) \<Longrightarrow> within E l h \<Longrightarrow>
   within E (max n (max k l)) (case out of Copied t b r p \<Rightarrow> f t b r p | Moved p \<Rightarrow> g p | SkippedExisting \<Rightarrow> h)"
  by (cases out) (auto intro: within_mono[where n = n] within_mono[where n = k] within_mono[where n = l])

lemma within_move_file_with [within_intro]:
  "within E transfer_ticks (move_file_with D J src dst opts on_progress)"
  unfolding move_file_with_def move_onto_def transfer_ticks_def
  by (rule within_mono, (rule within_intro)+, simp)

lemma within_job_files [within_intro]: "within E (length rest * (transfer_ticks + 1)) (job_files D J js rest idx t)"
proof (induction rest arbitrary: idx t)
  case (Cons source rest)
  show ?case
    unfolding job_files_to.simps Let_def tally_record_def
    by (rule within_mono, (rule within_intro Cons)+, simp add: transfer_ticks_def)
qed (auto intro: within_intro)

lemma within_run_job: "within E (job_ticks (length (js_sources js))) (run_job D js)"
  unfolding run_job_to_def job_ticks_def by (rule within_mono, (rule within_intro)+, simp)

section \<open>Properties\<close>

text \<open>
  C31. A transfer ends. Whatever calls fail and whatever other processes do, on a medium that returns
  no more bytes than it holds and keeps files within the kernel's limit, a move or a copy comes to
  an end - with an outcome or an error - within six calls per byte of the largest file, the ten thousand
  names it may try, and a constant: unless the process is killed before that, it returns.
\<close>

theorem transfer_returns:
  fixes w :: "'s world"
  assumes "tame (w_env w)" "fits (w_fs w)" "w_tick w + transfer_ticks \<le> e_kill (w_env w)"
  shows "fst (copy_file_with D J src dst opts on_progress w) \<noteq> Killed
    \<and> fst (move_file_with D J src dst opts on_progress w) \<noteq> Killed
    \<and> w_tick (snd (copy_file_with D J src dst opts on_progress w)) \<le> w_tick w + transfer_ticks
    \<and> w_tick (snd (move_file_with D J src dst opts on_progress w)) \<le> w_tick w + transfer_ticks"
proof -
  have returns: "fst (m w) \<noteq> Killed \<and> w_tick (snd (m w)) \<le> w_tick w + transfer_ticks"
    if "within (w_env w) transfer_ticks m" for m :: "(transfer_error, outcome, 's) io"
    using withinS[OF that assms(1) refl assms(2) surjective_pairing] assms(3) by (auto simp: spent_def split: if_splits)
  have "within (w_env w) transfer_ticks (copy_file_with D J src dst opts on_progress)"
    by (rule within_mono[OF within_copy_file_with]) (simp add: transfer_ticks_def)
  from returns[OF this] returns[OF within_move_file_with] show ?thesis by blast
qed

lemma lab_tame: "tame (lab_reading whole_read\<lparr>e_kill := n\<rparr>)"
  by (simp add: tame_def whole_read_def)

lemma lab_fits: "fits lab_fs"
  by (simp add: fits_def lab_fs_def sized_def MAX_FILE_def)

lemma transfer_returns_witness:
  "fst (copy_file_with lab_crates lab_journal ''/src/a'' ''/dst/b'' replace_checked unreported
     (lab_world whole_read\<lparr>w_env := lab_reading whole_read\<lparr>e_kill := transfer_ticks\<rparr>\<rparr>)) \<noteq> Killed"
  using transfer_returns[of "lab_world whole_read\<lparr>w_env := lab_reading whole_read\<lparr>e_kill := transfer_ticks\<rparr>\<rparr>"]
  by (simp add: lab_tame lab_fits lab_world_def)

lemma run_job_returns:
  fixes r :: "('e, unit) res"
  assumes "tame (w_env w)" "fits (w_fs w)" "w_tick w + job_ticks (length (js_sources js)) \<le> e_kill (w_env w)"
    and "registry_ok (w_cap w)" "run_job D js w = (r, w')"
  shows "r = Ok ()"
  using withinD(1)[OF within_run_job assms(1) refl assms(2,5)] run_job_post[OF assms(4,5)] assms(3)
  by (cases r) (auto simp: job_post_def)

text \<open>
  C6. Every Job ends. On such a machine a Job's thread that is not killed within the bound for its
  files returns without an error, and by then its registry entry is terminal and accounts for every
  file of the request.
\<close>

theorem every_job_ends:
  fixes js :: job_spec and w :: "shared world"
  assumes "tame (w_env w)" "fits (w_fs w)" "w_tick w + job_ticks (length (js_sources js)) \<le> e_kill (w_env w)"
    and "registry_ok (w_cap w)" "length (js_sources js) < 2 ^ 32"
    and "js_base js = base_view job (js_sources js) (js_destination_dir js) (js_expected_total js)"
  shows "\<exists>w' v. (run_job D js w :: ('e, unit) res \<times> shared world) = (Ok (), w')
    \<and> lookup_job (w_cap w') job = Some v \<and> terminal v
    \<and> (if jv_error v = None then accounted (length (js_sources js)) v 0
       else accounted (length (js_sources js)) v 0 \<or> accounted (length (js_sources js)) v 1)"
proof -
  obtain r :: "('e, unit) res" and w' where run: "run_job D js w = (r, w')" by fastforce
  from run_job_returns[OF assms(1-4) run] have "r = Ok ()" .
  with run_job_post[OF assms(4) run] obtain v where r: "r = Ok ()" "lookup_job (w_cap w') job = Some v" "job_result js v"
    by (auto simp: job_post_def assms(6) base_view_def)
  from job_result_accounts[OF r(3) assms(5,6)] r(1,2) run show ?thesis
    by (intro exI[of _ w'] exI[of _ v]) (simp del: One_nat_def)
qed

lemma every_job_ends_witness:
  "\<exists>w' v. (run_job lab_crates lab_job (lab_daemon\<lparr>w_env := lab_reading whole_read\<lparr>e_kill := job_ticks 1\<rparr>\<rparr>)
       :: (io_error, unit) res \<times> shared world) = (Ok (), w')
    \<and> lookup_job (w_cap w') ''1'' = Some v \<and> terminal v"
  using every_job_ends[of "lab_daemon\<lparr>w_env := lab_reading whole_read\<lparr>e_kill := job_ticks 1\<rparr>\<rparr>" lab_job "''1''" lab_crates]
  by (simp add: lab_tame lab_fits lab_daemon_def registry_ok_def shared_new_def lab_job_def) blast

end
