(* ===== verification/Rename.thy ===== *)
theory Rename
  imports Names Scenario
begin

text \<open>
  \<open>rename_in_place\<close> of \<open>daemon/src/server.rs\<close>: a rename within one directory, to a name that is
  checked for its shape.
\<close>

section \<open>Definition\<close>

definition rename_in_place :: "path \<Rightarrow> string \<Rightarrow> (string, path, 's) io" where
  "rename_in_place p new_name =
     (if new_name = [] then fail ''a name cannot be empty''
      else if CHR ''/'' \<in> set new_name \<or> CHR 0x00 \<in> set new_name
      then fail ''a name cannot contain a path separator''
      else if new_name = ''.'' \<or> new_name = ''..''
      then fail ([CHR 0x27] @ new_name @ [CHR 0x27] @ '' is not a usable name'')
      else io_bind (path_exists p) (\<lambda>b.
        if \<not> b then fail (p @ '' no longer exists'')
        else case parent p of
               None \<Rightarrow> fail ''no parent directory''
             | Some d \<Rightarrow>
                 let to = path_join d new_name
                 in if path_eq to p then ret to
                    else io_bind (path_exists to) (\<lambda>c.
                      if c then fail (new_name @ '' already exists here'')
                      else io_match (rename p to) (\<lambda>_. ret to)
                        (\<lambda>e. io_bind get_env (\<lambda>E. fail (show_io_error E e))))))"

section \<open>What a rename does\<close>

definition bare_name :: "string \<Rightarrow> bool" where
  "bare_name n \<longleftrightarrow> normal_name n \<and> CHR 0x00 \<notin> set n"

text \<open>A shape that is refused is refused before anything is looked at.\<close>

lemma rename_refuses: "\<not> bare_name n \<Longrightarrow> \<exists>e. rename_in_place p n w = (Err e, w)"
  by (auto simp: rename_in_place_def bare_name_def normal_name_def fail_def)

text \<open>The file is under its new name in its own directory, and that name was free.\<close>

definition renamed :: "env \<Rightarrow> (key \<Rightarrow> node option) \<Rightarrow> path \<Rightarrow> string \<Rightarrow> node \<Rightarrow> path \<Rightarrow> 's world \<Rightarrow> bool" where
  "renamed E g p n node to w \<longleftrightarrow>
     path_key (e_cwd E) to = butlast (path_key (e_cwd E) p) @ [n]
     \<and> (path_key (e_cwd E) to = path_key (e_cwd E) p \<and> map_of (w_fs w) = g
        \<or> g (path_key (e_cwd E) to) = None
          \<and> map_of (w_fs w) = g(path_key (e_cwd E) p := None, path_key (e_cwd E) to \<mapsto> node))"

lemma triple_rename_in_place:
  assumes E: "calm E" "quiet E UNIV" and n: "file_name p = Some m" "CHR 0x00 \<notin> set p"
    and g: "g (path_key (e_cwd E) p) = Some (File c d)"
  shows "triple (view E UNIV g) (rename_in_place p new_name) (renamed E g p new_name (File c d))
    (\<lambda>_. view E UNIV g) (view E UNIV g)"
proof (cases "bare_name new_name")
  case False
  show ?thesis
  proof (rule tripleI)
    fix w :: "'a world" and r w1
    assume "view E UNIV g w" "rename_in_place p new_name w = (r, w1)"
    with rename_refuses[OF False, of p w]
    show "case r of Ok to \<Rightarrow> renamed E g p new_name (File c d) to w1 | Err e \<Rightarrow> view E UNIV g w1
      | Killed \<Rightarrow> view E UNIV g w1" by auto
  qed
next
  case True
  then have nn: "normal_name new_name" "CHR 0x00 \<notin> set new_name" by (simp_all add: bare_name_def)
  obtain dir where dir: "parent p = Some dir" "path_key (e_cwd E) p = path_key (e_cwd E) dir @ [m]"
    by (rule path_key_parent[OF n(1)])
  let ?to = "path_join dir new_name"
  have to: "path_key (e_cwd E) ?to = path_key (e_cwd E) dir @ [new_name]" by (rule path_key_join[OF nn(1)])
  have ok: "?to \<noteq> []" "CHR 0x00 \<notin> set ?to"
    using nn parent_no_nul[OF dir(1) n(2)] by (auto simp: normal_name_def path_join_not_Nil dest!: path_join_set)
  have same: "triple (view E UNIV g) (ret ?to) (renamed E g p new_name (File c d)) (\<lambda>_. view E UNIV g) (view E UNIV g)"
    if "path_eq ?to p"
    using path_eq_key[OF that, of "e_cwd E"] to dir(2)
    by (intro triple_ret) (auto simp: renamed_def dest: view_UNIV)
  have mv: "triple (view E UNIV g)
      (io_match (rename p ?to) (\<lambda>_. ret ?to) (\<lambda>e. io_bind get_env (\<lambda>E. fail (show_io_error E e))))
      (renamed E g p new_name (File c d)) (\<lambda>_. view E UNIV g) (view E UNIV g)"
    if free: "g (path_key (e_cwd E) ?to) = None"
  proof (rule triple_match[where R = "\<lambda>_. view E UNIV (g(path_key (e_cwd E) p := None, path_key (e_cwd E) ?to \<mapsto> File c d))"
        and S = "\<lambda>_. view E UNIV g"])
    show "triple (view E UNIV g) (rename p ?to)
        (\<lambda>_. view E UNIV (g(path_key (e_cwd E) p := None, path_key (e_cwd E) ?to \<mapsto> File c d)))
        (\<lambda>_. view E UNIV g) (view E UNIV g)"
      using free g by (intro triple_rename_file) auto
    show "triple (view E UNIV (g(path_key (e_cwd E) p := None, path_key (e_cwd E) ?to \<mapsto> File c d))) (ret ?to)
        (renamed E g p new_name (File c d)) (\<lambda>_. view E UNIV g) (view E UNIV g)"
      using free to dir(2) by (intro triple_ret) (auto simp: renamed_def dest: view_UNIV)
    show "triple (view E UNIV g) (io_bind get_env (\<lambda>E. fail (show_io_error E e)))
        (renamed E g p new_name (File c d)) (\<lambda>_. view E UNIV g) (view E UNIV g)" for e
      by (simp add: triple_def io_bind_def io_match_def get_env_def fail_def)
  qed
  have rest: "triple (view E UNIV g)
      (io_bind (path_exists ?to) (\<lambda>c. if c then fail (new_name @ '' already exists here'')
         else io_match (rename p ?to) (\<lambda>_. ret ?to) (\<lambda>e. io_bind get_env (\<lambda>E. fail (show_io_error E e)))))
      (renamed E g p new_name (File c d)) (\<lambda>_. view E UNIV g) (view E UNIV g)"
    by (rule triple_bind[OF triple_exists[OF refl]], rule triple_conj, rule triple_if)
      (use E(1) ok mv in \<open>auto intro: triple_fail\<close>)
  have shape: "new_name \<noteq> []" "\<not> (CHR ''/'' \<in> set new_name \<or> CHR 0x00 \<in> set new_name)"
    "\<not> (new_name = ''.'' \<or> new_name = ''..'')"
    using nn by (auto simp: normal_name_def)
  show ?thesis
    unfolding rename_in_place_def dir(1) option.case Let_def if_not_P[OF shape(2)] if_not_P[OF shape(3)]
      if_not_P[OF shape(1)]
    by (rule triple_bind[OF triple_exists[OF refl]], rule triple_conj, rule triple_if)
      (auto intro!: triple_fail triple_if same rest)
qed

text \<open>
  C28. A rename stays where it is and replaces nothing. Where no call fails and no other process
  writes: if \<open>rename_in_place\<close> answers with a path, the file stands under exactly the new name in its own
  directory, that name was free before (or is the file's own), the old name is gone and no other
  key changed; if it refuses, or is killed, nothing changed at all. A name that is empty, a dot
  name, or holds a separator or a NUL is refused.
\<close>

theorem rename_stays_and_replaces_nothing:
  assumes "calm (w_env w)" "quiet (w_env w) UNIV" "file_name p \<noteq> None" "CHR 0x00 \<notin> set p"
    and "map_of (w_fs w) (path_key (e_cwd (w_env w)) p) = Some (File c d)"
    and "rename_in_place p new_name w = (r, w')"
  shows "case r of Ok to \<Rightarrow> bare_name new_name \<and> renamed (w_env w) (map_of (w_fs w)) p new_name (File c d) to w'
    | _ \<Rightarrow> map_of (w_fs w') = map_of (w_fs w)"
proof -
  obtain m where m: "file_name p = Some m" using assms(3) by auto
  have "bare_name new_name" if "r = Ok to" for to
    using that assms(6) rename_refuses[of new_name p w] by auto
  moreover have "case r of Ok to \<Rightarrow> renamed (w_env w) (map_of (w_fs w)) p new_name (File c d) to w'
    | Err e \<Rightarrow> view (w_env w) UNIV (map_of (w_fs w)) w' | Killed \<Rightarrow> view (w_env w) UNIV (map_of (w_fs w)) w'"
    using tripleD[OF triple_rename_in_place[where g = "map_of (w_fs w)", OF assms(1,2) m assms(4,5)]
        view_start[OF assms(2)], of new_name] assms(6)
    by (cases r) auto
  ultimately show ?thesis by (auto split: res.splits dest: view_UNIV)
qed

lemma rename_stays_and_replaces_nothing_witness:
  "\<exists>w'. rename_in_place ''/src/a'' ''b'' (lab_world whole_read) = (Ok ''/src/b'', w')
     \<and> map_of (w_fs w') = (map_of lab_fs)([''src'', ''a''] := None, [''src'', ''b''] \<mapsto> File ''hello'' True)"
proof -
  define a where "a = rename_in_place ''/src/a'' ''b'' (lab_world whole_read)"
  have "fst a = Ok ''/src/b''" unfolding a_def by code_simp
  then have run: "rename_in_place ''/src/a'' ''b'' (lab_world whole_read) = (Ok ''/src/b'', snd a)"
    by (simp add: a_def prod_eq_iff)
  have keys: "path_key [] ''/src/b'' = [''src'', ''b'']" by code_simp
  from rename_stays_and_replaces_nothing[OF _ _ _ _ _ run, of "''hello''" True] run keys show ?thesis
    by (auto simp: lab_calm quiet_def lab_paths lab_files renamed_def)
qed

end
