(* ===== verification/Space.thy ===== *)
theory Space
  imports Logic Utf8 Scenario
begin

text \<open>
  \<open>daemon/src/space.rs\<close>: what a filesystem can still hold. \<open>statvfs\<close> is the kernel's answer
  (\<open>e_statvfs\<close>), refused by a fault or for a path that names nothing.
\<close>

section \<open>Definitions\<close>

record space =
  sp_total :: u64
  sp_available :: u64

definition statvfs_call :: "path \<Rightarrow> (io_error, statvfs, 's) io" where
  "statvfs_call p = sys (\<lambda>E t f. at_path p E (\<lambda>k.
     case map_of f k of None \<Rightarrow> Inl (Os NotFound) | Some n \<Rightarrow> Inr (e_statvfs E k, f)))"

definition query :: "path \<Rightarrow> (string, space, 's) io" where
  "query p =
     (if CHR 0x00 \<in> set p then fail (from_utf8_lossy p @ '' is not a usable path'')
      else io_match (statvfs_call p)
        (\<lambda>st. let unit_size = (if 0 < f_frsize st then f_frsize st else f_bsize st)
              in if unit_size = 0 then fail (from_utf8_lossy p @ '' reports no block size to count in'')
                 else ret \<lparr>sp_total = saturating_mul (f_blocks st) unit_size,
                           sp_available = saturating_mul (f_bavail st) unit_size\<rparr>)
        (\<lambda>e. io_bind get_env (\<lambda>E. fail (from_utf8_lossy p @ '': '' @ show_io_error E e))))"

section \<open>Properties\<close>

lemma saturating_mul_zero: "u \<noteq> 0 \<Longrightarrow> saturating_mul a u = 0 \<longleftrightarrow> a = 0"
proof -
  assume u: "u \<noteq> 0"
  have "saturating_mul a u = 0 \<longleftrightarrow> min (unat a * unat u) (2 ^ 64 - 1) = 0"
    by (simp only: saturating_mul_unat[symmetric] unat_eq_zero)
  also have "\<dots> \<longleftrightarrow> unat a = 0" using u by (auto simp: unat_eq_zero min_def)
  finally show ?thesis by (simp add: unat_eq_zero)
qed

definition block_unit :: "statvfs \<Rightarrow> nat" where
  "block_unit st = (if f_frsize st \<noteq> 0 then unat (f_frsize st) else unat (f_bsize st))"

text \<open>
  C37. A space answer is measured, never a guess. When \<open>query\<close> answers, the path named something, the
  kernel was asked about it, and both numbers are the kernel's block counts times the size of its
  blocks, capped at the largest number that fits; so no space is reported only where the kernel
  counts no free block. The available figure is the one for ordinary users.
\<close>

theorem space_is_never_a_guess:
  fixes w :: "'s world"
  assumes "query p w = (Ok s, w')"
  shows "\<exists>k st. k = path_key (e_cwd (w_env w)) p \<and> st = e_statvfs (w_env w) k
    \<and> CHR 0x00 \<notin> set p \<and> map_of (w_fs w') k \<noteq> None \<and> 0 < block_unit st
    \<and> unat (sp_total s) = min (unat (f_blocks st) * block_unit st) (2 ^ 64 - 1)
    \<and> unat (sp_available s) = min (unat (f_bavail st) * block_unit st) (2 ^ 64 - 1)
    \<and> (sp_available s = 0 \<longleftrightarrow> f_bavail st = 0)"
proof -
  let ?k = "path_key (e_cwd (w_env w)) p"
  let ?st = "e_statvfs (w_env w) ?k"
  let ?u = "if 0 < f_frsize ?st then f_frsize ?st else f_bsize ?st"
  have nul: "CHR 0x00 \<notin> set p" using assms by (auto simp: query_def fail_def split: if_splits)
  obtain r w1 where call: "(statvfs_call p :: (io_error, statvfs, 's) io) w = (r, w1)" by fastforce
  have "r = Ok ?st \<and> map_of (w_fs w1) ?k \<noteq> None \<and> ?u \<noteq> 0 \<and> w' = w1
      \<and> s = \<lparr>sp_total = saturating_mul (f_blocks ?st) ?u, sp_available = saturating_mul (f_bavail ?st) ?u\<rparr>"
    using assms call nul
    by (auto simp: query_def io_match_def io_bind_def get_env_def fail_def ret_def Let_def statvfs_call_def
        sys_def at_path_def split: if_splits option.splits sum.splits res.splits)
  moreover have u: "unat ?u = block_unit ?st"
    by (auto simp: block_unit_def word_neq_0_conv)
  moreover from calculation have "0 < block_unit ?st" by (auto simp: unat_gt_0 simp flip: u)
  moreover have "sp_available s = 0 \<longleftrightarrow> f_bavail ?st = 0"
    using calculation(1) by (simp add: saturating_mul_zero)
  ultimately show ?thesis using nul by (auto simp: saturating_mul_unat)
qed

lemma space_is_never_a_guess_witness:
  "\<exists>s w'. query ''/dst'' (lab_world whole_read) = (Ok s, w') \<and> unat (sp_available s) = 40 * 4096"
proof -
  define a where "a = query ''/dst'' (lab_world whole_read)"
  have ok: "fst a = Ok \<lparr>sp_total = 409600, sp_available = 163840\<rparr>"
    unfolding a_def by code_simp
  then have "query ''/dst'' (lab_world whole_read) = (Ok \<lparr>sp_total = 409600, sp_available = 163840\<rparr>, snd a)"
    by (simp add: a_def prod_eq_iff)
  from space_is_never_a_guess[OF this] show ?thesis
    using ok by (auto simp: a_def prod_eq_iff lab_reading_def lab_world_def block_unit_def)
qed

end
