(* ===== verification/Uri.thy ===== *)
theory Uri
  imports Journal
begin

text \<open>
  The two byte encodings of the daemon: the percent-encoding of a trash record
  (\<open>daemon/src/trash.rs\<close>: \<open>uri_escape\<close>, \<open>uri_unescape\<close>, \<open>hex_digit\<close>) and the hexadecimal name
  of a journal file (\<open>{:x}\<close> of a digest). Both write each byte on its own, so that the locale
  \<open>byte_codec\<close> gives both their round trips.
\<close>

section \<open>Encodings that write byte by byte\<close>

locale byte_codec =
  fixes enc :: "char \<Rightarrow> string" and dec :: "string \<Rightarrow> bytes"
  assumes dec_Nil: "dec [] = []" and dec_enc: "dec (enc b @ s) = b # dec s"
begin

lemma decodes: "dec (concat (map enc s)) = s"
  by (induction s) (simp_all add: dec_Nil dec_enc)

lemma injective: "concat (map enc s) = concat (map enc t) \<longleftrightarrow> s = t"
  by (metis decodes)

end

section \<open>Percent-encoding\<close>

definition unreserved :: "char \<Rightarrow> bool" where
  "unreserved b \<longleftrightarrow>
     (let n = (of_char b :: nat)
      in 65 \<le> n \<and> n \<le> 90 \<or> 97 \<le> n \<and> n \<le> 122 \<or> 48 \<le> n \<and> n \<le> 57 \<or> b \<in> set ''/-_.~'')"

definition escape_byte :: "char \<Rightarrow> string" where
  "escape_byte b = (if unreserved b then [b] else CHR ''%'' # hex02 b)"

definition uri_escape :: "string \<Rightarrow> string" where
  "uri_escape s = concat (map escape_byte s)"

definition hex_digit :: "char \<Rightarrow> nat option" where
  "hex_digit b =
     (let n = of_char b
      in if 48 \<le> n \<and> n \<le> 57 then Some (n - 48)
         else if 97 \<le> n \<and> n \<le> 102 then Some (n - 97 + 10)
         else if 65 \<le> n \<and> n \<le> 70 then Some (n - 65 + 10)
         else None)"

fun unescape_bytes :: "bytes \<Rightarrow> bytes" where
  "unescape_bytes (b # h # l # r) =
     (if b = CHR ''%''
      then (case (hex_digit h, hex_digit l) of
              (Some hi, Some lo) \<Rightarrow> char_of (hi * 16 + lo) # unescape_bytes r
            | _ \<Rightarrow> b # unescape_bytes (h # l # r))
      else b # unescape_bytes (h # l # r))"
| "unescape_bytes s = s"

definition uri_unescape :: "string \<Rightarrow> string" where
  "uri_unescape s = from_utf8_lossy (unescape_bytes s)"

lemma hex_digit_upper: "d < 16 \<Longrightarrow> hex_digit (hex_upper d) = Some d"
  by (auto simp: hex_digit_def hex_upper_def Let_def)

lemma unescape_other: "b \<noteq> CHR ''%'' \<Longrightarrow> unescape_bytes (b # s) = b # unescape_bytes s"
  by (cases s; cases "tl s") auto

lemma not_unreserved_percent: "\<not> unreserved CHR ''%''"
  by (simp add: unreserved_def Let_def)

lemma unescape_escape: "unescape_bytes (escape_byte b @ s) = b # unescape_bytes s"
proof (cases "unreserved b")
  case True
  then have "b \<noteq> CHR ''%''" using not_unreserved_percent by auto
  with True show ?thesis by (simp add: escape_byte_def unescape_other)
next
  case False
  have "of_char b div 16 < (16 :: nat)" "of_char b mod 16 < (16 :: nat)" by (rule of_char_nibbles)+
  with False show ?thesis
    by (simp add: escape_byte_def hex02_def hex_digit_upper)
qed

interpretation uri: byte_codec escape_byte unescape_bytes
  by unfold_locales (simp_all add: unescape_escape)

text \<open>What an escaped text is made of: no space, no control character, no line break.\<close>

lemma hex_upper_plain: "d < 16 \<Longrightarrow> unreserved (hex_upper d)"
  by (auto simp: hex_upper_def unreserved_def Let_def)

lemma escape_plain: "c \<in> set (uri_escape s) \<Longrightarrow> unreserved c \<or> c = CHR ''%''"
  using of_char_nibbles
  by (auto simp: uri_escape_def escape_byte_def hex02_def hex_upper_plain split: if_splits)

lemma unescape_uri_escape: "uri_unescape (uri_escape s) = from_utf8_lossy s"
  by (simp add: uri_unescape_def uri_escape_def uri.decodes)

section \<open>Hexadecimal names\<close>

definition hex_value :: "char \<Rightarrow> nat" where
  "hex_value c = (case hex_digit c of Some d \<Rightarrow> d | None \<Rightarrow> 0)"

fun unhex :: "string \<Rightarrow> bytes" where
  "unhex (h # l # r) = char_of (hex_value h * 16 + hex_value l) # unhex r"
| "unhex s = []"

lemma hex_value_lower: "d < 16 \<Longrightarrow> hex_value (hex_lower d) = d"
  by (auto simp: hex_value_def hex_digit_def hex_lower_def Let_def)

interpretation hex: byte_codec "\<lambda>b. [hex_lower (of_char b div 16), hex_lower (of_char b mod 16)]" unhex
  by unfold_locales (simp_all add: hex_value_lower of_char_nibbles)

lemma show_hex_inject: "show_hex s = show_hex t \<longleftrightarrow> s = t"
  unfolding show_hex_def by (rule hex.injective)

text \<open>
  C39. Percent-encoding loses nothing: the path of a trash record, read back, is the path that was
  written when that is text, and its lossy reading otherwise; and the encoded path contains only
  unreserved ASCII characters and percent signs, so no line break of a name can forge a line of
  the record.
\<close>

theorem uri_escape_round_trip:
  "uri_unescape (uri_escape s) = (if valid_utf8 s then s else from_utf8_lossy s)
   \<and> set (uri_escape s) \<subseteq> insert CHR ''%'' {c. unreserved c} \<and> CHR 0x0A \<notin> set (uri_escape s)"
proof -
  have "\<not> unreserved CHR 0x0A" by (simp add: unreserved_def Let_def)
  then show ?thesis
    using escape_plain by (auto simp: unescape_uri_escape lossy_valid)
qed

text \<open>
  Two destinations share a journal file exactly when their digests agree: the name of a
  journal file is the digest in hexadecimal, which is injective.
\<close>

theorem journal_files_are_per_destination:
  "path_for D J a = path_for D J b \<longleftrightarrow> sha256 D a = sha256 D b"
proof -
  have "\<not> has_root (show_hex x @ ''.json'')" for x
    using show_hex_plain[of "hd (show_hex x)" x] by (cases "show_hex x") (auto simp: has_root_def)
  then have "path_join d (show_hex x @ ''.json'') = path_join d (show_hex y @ ''.json'') \<longleftrightarrow> x = y" for d x y
    by (simp add: path_join_def show_hex_inject)
  then show ?thesis by (simp add: path_for_def)
qed

end
