(* ===== verification/Calendar.thy ===== *)
theory Calendar
  imports Prelude "HOL-Library.Code_Target_Nat"
begin

text \<open>
  The date of a trash record (\<open>daemon/src/trash.rs\<close>: \<open>civil_from_unix\<close>). \<open>i64\<close> values are
  integers: every intermediate value is smaller than the seconds that are put in, so nothing
  wraps. The divisions the source writes with \<open>/\<close> have non-negative operands, where truncation
  and \<open>div\<close> agree. The specification is the calendar itself: what day follows a day.
\<close>

section \<open>The algorithm\<close>

definition civil_from_unix :: "int \<Rightarrow> int \<times> u32 \<times> u32 \<times> u32 \<times> u32 \<times> u32" where
  "civil_from_unix secs =
     (let days = secs div 86400;
          re = secs mod 86400;
          z = days + 719468;
          era = z div 146097;
          doe = z mod 146097;
          yoe = (doe - doe div 1460 + doe div 36524 - doe div 146096) div 365;
          y = yoe + era * 400;
          doy = doe - (365 * yoe + yoe div 4 - yoe div 100);
          mp = (5 * doy + 2) div 153;
          d = (of_int (doy - (153 * mp + 2) div 5 + 1) :: u32);
          m = (of_int (if mp < 10 then mp + 3 else mp - 9) :: u32);
          y = (if m \<le> 2 then y + 1 else y)
      in (y, m, d, of_int (re div 3600), of_int ((re mod 3600) div 60), of_int (re mod 60)))"

section \<open>The calendar\<close>

text \<open>The Gregorian calendar, as the day after a day.\<close>

definition is_leap :: "int \<Rightarrow> bool" where
  "is_leap y \<longleftrightarrow> y mod 4 = 0 \<and> (y mod 100 \<noteq> 0 \<or> y mod 400 = 0)"

definition month_length :: "int \<Rightarrow> int \<Rightarrow> int" where
  "month_length y m =
     (if m = 2 then (if is_leap y then 29 else 28) else if m \<in> {4, 6, 9, 11} then 30 else 31)"

definition next_date :: "int \<times> int \<times> int \<Rightarrow> int \<times> int \<times> int" where
  "next_date = (\<lambda>(y, m, d).
     if d < month_length y m then (y, m, d + 1) else if m < 12 then (y, m + 1, 1) else (y + 1, 1, 1))"

definition valid_date :: "int \<times> int \<times> int \<Rightarrow> bool" where
  "valid_date = (\<lambda>(y, m, d). 1 \<le> m \<and> m \<le> 12 \<and> 1 \<le> d \<and> d \<le> month_length y m)"

section \<open>Years of an era\<close>

text \<open>
  The algorithm counts from the first of March, in eras of 400 years: \<open>year_start Y\<close> is the day
  of the era on which its year \<open>Y\<close> begins, and \<open>year_of\<close> the year a day of the era lies in.
\<close>

definition year_of :: "int \<Rightarrow> int" where
  "year_of doe = (doe - doe div 1460 + doe div 36524 - doe div 146096) div 365"

definition year_start :: "int \<Rightarrow> int" where
  "year_start Y = 365 * Y + Y div 4 - Y div 100 + Y div 400"

lemma year_start_below: "0 \<le> Y \<Longrightarrow> Y < 400 \<Longrightarrow> 365 * Y + Y div 4 - Y div 100 = year_start Y"
  by (simp only: year_start_def div_pos_pos_trivial add_0_right)

lemma year_of_endpoints:
  "\<forall>Y \<in> set [0..399]. year_of (year_start Y) = Y \<and> year_of (year_start (Y + 1) - 1) = Y
     \<and> 0 \<le> year_start Y \<and> year_start (Y + 1) \<le> 146097"
  by code_simp

lemma div_step: "0 < k \<Longrightarrow> (n + 1) div k \<le> n div k + (1 :: int)"
  using zdiv_mono1[of "n + 1" "n + k" k] by (simp add: div_add_self2)

lemma step_le:
  "a' \<le> a + 1 \<Longrightarrow> b \<le> b' \<Longrightarrow> c = 0 \<Longrightarrow> c' = 0 \<Longrightarrow> n - a + b - c \<le> n + 1 - a' + b' - (c' :: int)"
  by simp

lemma year_of_mono:
  assumes "0 \<le> a" "a \<le> b" "b < 146097"
  shows "year_of a \<le> year_of b"
proof -
  define N where "N = (\<lambda>n :: int. n - n div 1460 + n div 36524 - n div 146096)"
  have step_N: "N n \<le> N (n + 1)" if "0 \<le> n" "n < 146096" for n
  proof (cases "n + 1 = 146096")
    case True
    then have "n = 146095" by simp
    then show ?thesis by (simp add: N_def)
  next
    case False
    with that have z: "n div 146096 = 0" "(n + 1) div 146096 = 0" by (auto intro!: div_pos_pos_trivial)
    show ?thesis
      unfolding N_def by (rule step_le[OF div_step _ z]) (auto intro: zdiv_mono1)
  qed
  have "b < 146097 \<longrightarrow> N a \<le> N b"
    using assms(2)
  proof (induction b rule: int_ge_induct)
    case (step i)
    have "N i \<le> N (i + 1)" if "i < 146096" using step(1) assms(1) that by (intro step_N) auto
    with step(2) show ?case by auto
  qed simp
  then have "N a \<le> N b" using assms(3) by simp
  then show ?thesis unfolding year_of_def N_def by (rule zdiv_mono1) simp
qed

lemma year_of_unique:
  assumes "0 \<le> Y" "Y < 400" "year_start Y \<le> doe" "doe < year_start (Y + 1)"
  shows "year_of doe = Y"
proof -
  have Y: "year_of (year_start Y) = Y" "year_of (year_start (Y + 1) - 1) = Y"
    "0 \<le> year_start Y" "year_start (Y + 1) \<le> 146097"
    using year_of_endpoints assms(1,2) by auto
  have "year_of (year_start Y) \<le> year_of doe"
    using Y(3,4) assms(3,4) by (intro year_of_mono) auto
  moreover have "year_of doe \<le> year_of (year_start (Y + 1) - 1)"
    using Y(3,4) assms(3,4) by (intro year_of_mono) auto
  ultimately show ?thesis using Y(1,2) by simp
qed

lemma year_length: "0 \<le> Y \<Longrightarrow> Y < 400 \<Longrightarrow>
    year_start (Y + 1) - year_start Y = (if is_leap (Y + 1) then 366 else 365)"
proof -
  have "\<forall>Y \<in> set [0..399]. year_start (Y + 1) - year_start Y = (if is_leap (Y + 1) then 366 else 365)"
    by code_simp
  then show "0 \<le> Y \<Longrightarrow> Y < 400 \<Longrightarrow> ?thesis" by auto
qed

lemma year_of_bounds:
  assumes "0 \<le> doe" "doe < 146097"
  shows "0 \<le> year_of doe \<and> year_of doe < 400 \<and> year_start (year_of doe) \<le> doe
    \<and> doe < year_start (year_of doe + 1)"
proof -
  have "\<exists>Y. 0 \<le> Y \<and> Y < 400 \<and> year_start Y \<le> doe \<and> doe < year_start (Y + 1)"
    using assms
  proof (induction doe rule: int_ge_induct)
    case base
    show ?case by (rule exI[of _ 0]) (simp add: year_start_def)
  next
    case (step doe)
    then obtain Y where Y: "0 \<le> Y" "Y < 400" "year_start Y \<le> doe" "doe < year_start (Y + 1)" by auto
    show ?case
    proof (cases "doe + 1 < year_start (Y + 1)")
      case True
      with Y show ?thesis by (intro exI[of _ Y]) auto
    next
      case False
      with Y have eq: "doe + 1 = year_start (Y + 1)" by simp
      have "Y \<noteq> 399" using eq step(3) by (auto simp: year_start_def)
      with Y have "Y + 1 \<in> set [0..399]" by simp
      then have "year_of (year_start (Y + 1 + 1) - 1) = Y + 1" "year_of (year_start (Y + 1)) = Y + 1"
        using year_of_endpoints by blast+
      moreover have "year_start (Y + 1) < year_start (Y + 1 + 1)"
        using year_length[of "Y + 1"] Y(1,2) \<open>Y \<noteq> 399\<close> by (simp split: if_splits)
      ultimately show ?thesis using eq Y \<open>Y \<noteq> 399\<close> by (intro exI[of _ "Y + 1"]) auto
    qed
  qed
  then show ?thesis using year_of_unique by metis
qed

lemma is_leap_era: "is_leap (Y + era * 400) = is_leap Y"
proof -
  have "Y + era * 400 = Y + era * 100 * 4" "Y + era * 400 = Y + era * 4 * 100" by simp_all
  then have "(Y + era * 400) mod 4 = Y mod 4" "(Y + era * 400) mod 100 = Y mod 100"
    by (metis mod_mult_self1)+
  then show ?thesis by (simp add: is_leap_def)
qed

section \<open>Days of a year\<close>

definition month_day :: "int \<Rightarrow> int \<times> int" where
  "month_day doy =
     (let mp = (5 * doy + 2) div 153
      in (if mp < 10 then mp + 3 else mp - 9, doy - (153 * mp + 2) div 5 + 1))"

lemma month_day_range: "\<forall>doy \<in> set [0..365]. case month_day doy of (m, d) \<Rightarrow> 1 \<le> m \<and> m \<le> 12 \<and> 1 \<le> d \<and> d \<le> 31"
  by code_simp

lemma month_day_next:
  "\<forall>doy \<in> set [0..363]. case (month_day doy, month_day (doy + 1)) of ((m, d), (m', d')) \<Rightarrow>
     (let l = (if m = 2 then 28 else month_length 1 m) in
        d < l \<and> m' = m \<and> d' = d + 1
      \<or> m \<noteq> 2 \<and> d = l \<and> d' = 1 \<and> (m < 12 \<and> m' = m + 1 \<and> (m \<le> 2 \<longleftrightarrow> m' \<le> 2) \<or> m = 12 \<and> m' = 1))"
  by code_simp

lemma month_day_ends: "month_day 0 = (3, 1)" "month_day 364 = (2, 28)" "month_day 365 = (2, 29)"
  by code_simp+

section \<open>The date of a day\<close>

definition civil_date :: "int \<Rightarrow> int \<times> int \<times> int" where
  "civil_date z =
     (let era = z div 146097; doe = z mod 146097; Y = year_of doe
      in case month_day (doe - year_start Y) of
           (m, d) \<Rightarrow> (Y + era * 400 + (if m \<le> 2 then 1 else 0), m, d))"

lemma day_parts:
  obtains era Y doy where "z = era * 146097 + (year_start Y + doy)" "0 \<le> Y" "Y < 400"
    "0 \<le> doy" "doy < (if is_leap (Y + 1) then 366 else 365)" "z mod 146097 = year_start Y + doy"
proof -
  let ?doe = "z mod 146097"
  have b: "0 \<le> ?doe" "?doe < 146097" by simp_all
  note yb = year_of_bounds[OF b]
  show thesis
    by (rule that[of "z div 146097" "year_of ?doe" "?doe - year_start (year_of ?doe)"])
      (use yb year_length[of "year_of ?doe"] in \<open>auto simp: algebra_simps\<close>)
qed

lemma civil_date_at:
  assumes "0 \<le> Y" "Y < 400" "0 \<le> doy" "doy < (if is_leap (Y + 1) then 366 else 365)"
  shows "civil_date (era * 146097 + (year_start Y + doy)) =
    (case month_day doy of (m, d) \<Rightarrow> (Y + era * 400 + (if m \<le> 2 then 1 else 0), m, d))"
proof -
  have Y: "0 \<le> year_start Y" "year_start (Y + 1) \<le> 146097"
    using year_of_endpoints assms(1,2) by auto
  have doe: "0 \<le> year_start Y + doy" "year_start Y + doy < year_start (Y + 1)"
    using Y(1) assms year_length[OF assms(1,2)] by auto
  with Y(2) have "(era * 146097 + (year_start Y + doy)) mod 146097 = year_start Y + doy"
    "(era * 146097 + (year_start Y + doy)) div 146097 = era"
    by (simp_all add: mod_pos_pos_trivial div_pos_pos_trivial)
  moreover have "year_of (year_start Y + doy) = Y"
    using assms(1-3) doe(2) by (intro year_of_unique) auto
  ultimately show ?thesis by (simp add: civil_date_def Let_def)
qed

text \<open>Each day is the day after the day before.\<close>

lemma month_length_not_feb: "m \<noteq> 2 \<Longrightarrow> month_length y m = month_length 1 m"
  by (simp add: month_length_def)

lemma next_date_in_year:
  assumes "0 \<le> doy" "doy < 364" "month_day doy = (m, d)" "month_day (doy + 1) = (m', d')"
  shows "next_date (B + (if m \<le> 2 then 1 else 0), m, d) = (B + (if m' \<le> 2 then 1 else 0), m', d')"
proof -
  have "doy \<in> set [0..363]" using assms(1,2) by simp
  from bspec[OF month_day_next this]
  have c: "let l = (if m = 2 then 28 else month_length 1 m) in
        d < l \<and> m' = m \<and> d' = d + 1
      \<or> m \<noteq> 2 \<and> d = l \<and> d' = 1 \<and> (m < 12 \<and> m' = m + 1 \<and> (m \<le> 2 \<longleftrightarrow> m' \<le> 2) \<or> m = 12 \<and> m' = 1)"
    by (simp add: assms(3,4))
  let ?y = "B + (if m \<le> 2 then 1 else 0)"
  have l: "(if m = 2 then 28 else month_length 1 m) \<le> month_length ?y m"
    using month_length_not_feb[of m ?y] by (simp add: month_length_def)
  from c consider "d < month_length ?y m" "m' = m" "d' = d + 1"
    | "m \<noteq> 2" "d = month_length ?y m" "d' = 1" "m < 12" "m' = m + 1" "m \<le> 2 \<longleftrightarrow> m' \<le> 2"
    | "d = month_length ?y m" "d' = 1" "m = 12" "m' = 1"
    using l month_length_not_feb[of m ?y] by (auto simp: Let_def split: if_splits)
  then show ?thesis by cases (auto simp: next_date_def)
qed

lemma civil_date_next: "civil_date (z + 1) = next_date (civil_date z)"
proof (rule day_parts[of z])
  fix era Y doy
  assume z: "z = era * 146097 + (year_start Y + doy)" and Y: "0 \<le> Y" "Y < 400"
    and doy: "0 \<le> doy" "doy < (if is_leap (Y + 1) then 366 else 365)"
  note here = civil_date_at[OF Y doy, of era, folded z]
  have leap: "is_leap (Y + era * 400 + 1) = is_leap (Y + 1)"
    using is_leap_era[of "Y + 1" era] by (simp add: algebra_simps)
  show ?thesis
  proof (cases "doy + 1 < (if is_leap (Y + 1) then 366 else 365)")
    case True
    have z1: "z + 1 = era * 146097 + (year_start Y + (doy + 1))" using z by simp
    have there: "civil_date (z + 1) =
        (case month_day (doy + 1) of (m, d) \<Rightarrow> (Y + era * 400 + (if m \<le> 2 then 1 else 0), m, d))"
      unfolding z1 by (rule civil_date_at[OF Y _ True]) (use doy(1) in simp)
    show ?thesis
    proof (cases "doy = 364")
      case True
      then have "is_leap (Y + 1)" using \<open>doy + 1 < _\<close> by (simp split: if_splits)
      then show ?thesis
        using here there leap True by (simp add: month_day_ends next_date_def month_length_def add.assoc)
    next
      case False
      then have "doy < 364" using True by (simp split: if_splits)
      then show ?thesis
        using here there next_date_in_year[OF doy(1) \<open>doy < 364\<close>]
        by (cases "month_day doy"; cases "month_day (doy + 1)") simp
    qed
  next
    case False
    then have last: "doy = (if is_leap (Y + 1) then 365 else 364)" using doy(2) by (simp split: if_splits)
    then have "year_start Y + doy + 1 = year_start (Y + 1)"
      using year_length[OF Y] by (cases "is_leap (Y + 1)") simp_all
    then have z1: "z + 1 = era * 146097 + (year_start (Y + 1) + 0)" using z by simp
    have "civil_date (z + 1) = (Y + 1 + era * 400, 3, 1)"
    proof (cases "Y = 399")
      case True
      then have z0: "z + 1 = (era + 1) * 146097 + (year_start 0 + 0)" using z1 by (simp add: year_start_def)
      have "civil_date (z + 1) = (case month_day 0 of (m, d) \<Rightarrow> (0 + (era + 1) * 400 + (if m \<le> 2 then 1 else 0), m, d))"
        unfolding z0 by (rule civil_date_at) simp_all
      with True show ?thesis by (simp add: month_day_ends)
    next
      case False
      with z1 civil_date_at[of "Y + 1" 0 era] Y show ?thesis by (simp add: month_day_ends)
    qed
    with here last leap show ?thesis
      by (simp add: month_day_ends next_date_def month_length_def add.assoc add.commute split: if_splits)
  qed
qed

lemma civil_date_valid: "case civil_date z of (y, m, d) \<Rightarrow> 1 \<le> m \<and> m \<le> 12 \<and> 1 \<le> d \<and> d \<le> 31"
proof (rule day_parts[of z])
  fix era Y doy
  assume z: "z = era * 146097 + (year_start Y + doy)" and Y: "0 \<le> Y" "Y < 400"
    and doy: "0 \<le> doy" "doy < (if is_leap (Y + 1) then 366 else 365)"
  have "doy \<in> set [0..365]" using doy by (simp split: if_splits)
  from bspec[OF month_day_range this] show ?thesis
    using civil_date_at[OF Y doy, of era] z by (cases "month_day doy") simp
qed

lemma civil_date_parts:
  assumes "civil_date z = (y, m, d)"
  shows "month_day (z mod 146097 - year_start (year_of (z mod 146097))) = (m, d)"
    and "y = year_of (z mod 146097) + z div 146097 * 400 + (if m \<le> 2 then 1 else 0)"
proof -
  obtain m0 d0 where md: "month_day (z mod 146097 - year_start (year_of (z mod 146097))) = (m0, d0)"
    by (rule prod.exhaust)
  from assms have "y = year_of (z mod 146097) + z div 146097 * 400 + (if m0 \<le> 2 then 1 else 0) \<and> m0 = m \<and> d0 = d"
    by (simp only: civil_date_def Let_def md prod.case prod.inject) (elim conjE, simp only: simp_thms)
  with md show "month_day (z mod 146097 - year_start (year_of (z mod 146097))) = (m, d)"
    and "y = year_of (z mod 146097) + z div 146097 * 400 + (if m \<le> 2 then 1 else 0)" by (simp_all only: simp_thms)
qed

lemma civil_from_unix_date:
  assumes "civil_date (secs div 86400 + 719468) = (y, m, d)"
  shows "civil_from_unix secs = (y, of_int m, of_int d, of_int (secs mod 86400 div 3600),
    of_int (secs mod 86400 mod 3600 div 60), of_int (secs mod 86400 mod 60))"
proof -
  define z where "z = secs div 86400 + 719468"
  define doe where "doe = z mod 146097"
  define doy where "doy = doe - year_start (year_of doe)"
  have "0 \<le> year_of doe" "year_of doe < 400" using year_of_bounds[of doe] by (auto simp: doe_def)
  then have start: "365 * year_of doe + year_of doe div 4 - year_of doe div 100 = year_start (year_of doe)"
    by (rule year_start_below)
  have "1 \<le> m" "m \<le> 12" using civil_date_valid[of z] assms by (auto simp: z_def)
  then have le: "((of_int m :: u32) \<le> 2) = (m \<le> 2)"
    by (simp add: word_le_def uint_word_of_int take_bit_int_eq_self)
  note parts = civil_date_parts[OF assms, folded z_def, folded doe_def, folded doy_def]
  then have md: "(if (5 * doy + 2) div 153 < 10 then (5 * doy + 2) div 153 + 3 else (5 * doy + 2) div 153 - 9) = m"
    "doy - (153 * ((5 * doy + 2) div 153) + 2) div 5 + 1 = d"
    by (simp_all only: month_day_def Let_def prod.inject)
  show ?thesis
    unfolding civil_from_unix_def Let_def
    by (simp only: z_def[symmetric] doe_def[symmetric] year_of_def[symmetric] start doy_def[symmetric] md le parts(2))
      (simp only: if_distrib[of "\<lambda>x. (_ :: int) + x"] add_0_right refl split: if_split)
qed

section \<open>The calendar is the one everybody uses\<close>

definition date_part :: "int \<times> u32 \<times> u32 \<times> u32 \<times> u32 \<times> u32 \<Rightarrow> int \<times> int \<times> int" where
  "date_part = (\<lambda>(y, m, d, h, mi, s). (y, uint m, uint d))"

definition second_of_day :: "int \<times> u32 \<times> u32 \<times> u32 \<times> u32 \<times> u32 \<Rightarrow> int" where
  "second_of_day = (\<lambda>(y, m, d, h, mi, s). uint h * 3600 + uint mi * 60 + uint s)"

lemma small_u32: "0 \<le> i \<Longrightarrow> i < 86400 \<Longrightarrow> uint (of_int i :: u32) = i"
  by (simp add: uint_word_of_int take_bit_int_eq_self)

lemma date_part_civil: "date_part (civil_from_unix secs) = civil_date (secs div 86400 + 719468)"
proof (cases "civil_date (secs div 86400 + 719468)")
  case (fields y m d)
  then show ?thesis
    using civil_date_valid[of "secs div 86400 + 719468"]
    by (simp add: date_part_def civil_from_unix_date small_u32)
qed

lemma second_split: "0 \<le> r \<Longrightarrow> r div 3600 * 3600 + r mod 3600 div 60 * 60 + r mod 60 = (r :: int)"
proof -
  have "r mod 60 = r mod 3600 mod 60" by (simp add: mod_mod_cancel)
  then have "r mod 3600 div 60 * 60 + r mod 60 = r mod 3600" by simp
  then show ?thesis by (metis add.assoc div_mult_mod_eq)
qed

lemma div_le_self: "0 \<le> r \<Longrightarrow> 0 < k \<Longrightarrow> r div k \<le> (r :: int)"
  using zdiv_mono2[of r 1 k] by simp

lemma second_small:
  assumes "0 \<le> r" "r < 86400"
  shows "uint (of_int (r div 3600) :: u32) = r div 3600" "uint (of_int (r mod 3600 div 60) :: u32) = r mod 3600 div 60"
    "uint (of_int (r mod 60) :: u32) = r mod 60"
proof (rule_tac [!] small_u32)
  show "0 \<le> r div 3600" "0 \<le> r mod 3600 div 60" "0 \<le> r mod 60"
    using assms(1) by (simp_all only: pos_imp_zdiv_nonneg_iff zero_less_numeral pos_mod_sign)
  show "r div 3600 < 86400"
    by (rule le_less_trans[OF div_le_self[OF assms(1)] assms(2)]) simp
  show "r mod 60 < 86400"
    by (rule less_trans[OF pos_mod_bound]) simp_all
  have "r mod 3600 div 60 \<le> r mod 3600" by (rule div_le_self) simp_all
  also have "r mod 3600 < 86400" by (rule less_trans[OF pos_mod_bound]) simp_all
  finally show "r mod 3600 div 60 < 86400" .
qed

lemma second_civil: "second_of_day (civil_from_unix secs) = secs mod 86400"
proof (cases "civil_date (secs div 86400 + 719468)")
  case (fields y m d)
  have r: "0 \<le> secs mod 86400" "secs mod 86400 < 86400" by simp_all
  show ?thesis
    by (simp only: second_of_day_def civil_from_unix_date[OF fields] prod.case second_small[OF r] second_split[OF r(1)])
qed

text \<open>
  C38. The dates of trash records are calendar dates. For every second there is: second 0 lies on
  1970-01-01, the date 86400 seconds later is the next date by the Gregorian rules, the date is
  the same throughout a day, and the time of day counts the seconds since its start.
\<close>

theorem civil_from_unix_is_the_calendar:
  "date_part (civil_from_unix 0) = (1970, 1, 1)
   \<and> date_part (civil_from_unix (secs + 86400)) = next_date (date_part (civil_from_unix secs))
   \<and> date_part (civil_from_unix (86400 * (secs div 86400))) = date_part (civil_from_unix secs)
   \<and> second_of_day (civil_from_unix secs) = secs mod 86400"
proof (intro conjI)
  show "date_part (civil_from_unix 0) = (1970, 1, 1)"
    by code_simp
  have "(secs + 86400) div 86400 + 719468 = secs div 86400 + 719468 + 1"
    using div_add_self2[of "86400 :: int" secs] by simp
  then show "date_part (civil_from_unix (secs + 86400)) = next_date (date_part (civil_from_unix secs))"
    by (simp only: date_part_civil civil_date_next)
  show "date_part (civil_from_unix (86400 * (secs div 86400))) = date_part (civil_from_unix secs)"
    by (simp add: date_part_civil)
qed (rule second_civil)

end
