(* ===== verification/Trash.thy ===== *)
theory Trash
  imports Uri Texts Calendar Names
begin

text \<open>
  \<open>daemon/src/trash.rs\<close>: the freedesktop.org trash. Whether a file can be trashed, trashing with
  its \<open>.trashinfo\<close> record, restoring from a record, and permanent deletion. The clock and the
  output of \<open>date +%z\<close> are the environment's.
\<close>

section \<open>Definitions\<close>

datatype disposal = Trashed path path | Permanent

definition home_trash :: "('e, path, 's) io" where
  "home_trash =
     io_bind get_env (\<lambda>E.
       let base = (case e_vars E ''XDG_DATA_HOME'' of
                     Some v \<Rightarrow> v
                   | None \<Rightarrow> path_join (case e_vars E ''HOME'' of Some h \<Rightarrow> h | None \<Rightarrow> []) ''.local/share'')
       in ret (path_join base ''Trash''))"

text \<open>\<open>m.ok()\<close>.\<close>

definition ok_of :: "('d, 'a, 's) io \<Rightarrow> ('e, 'a option, 's) io" where
  "ok_of m = map_unwrap_or Some None m"

definition can_trash_in :: "path \<Rightarrow> path \<Rightarrow> ('e, bool, 's) io" where
  "can_trash_in root p =
     io_bind (path_exists root) (\<lambda>b.
     let anchor = (if b then root else dir_of root)
     in io_bind (ok_of (metadata (dir_of p))) (\<lambda>a.
        io_bind (ok_of (metadata anchor)) (\<lambda>c.
        ret (case (a, c) of (Some ma, Some mc) \<Rightarrow> md_dev ma = md_dev mc | _ \<Rightarrow> False))))"

definition can_trash :: "path \<Rightarrow> ('e, bool, 's) io" where
  "can_trash p = io_bind home_trash (\<lambda>root. can_trash_in root p)"

definition trash_candidate :: "string \<Rightarrow> nat \<Rightarrow> string" where
  "trash_candidate stem n = (if n = 0 then stem else stem @ ''.'' @ show_nat n)"

definition trash_probe :: "path \<Rightarrow> path \<Rightarrow> string \<Rightarrow> nat \<Rightarrow> ('e, bool, 's) io" where
  "trash_probe files info stem n =
     (let candidate = trash_candidate stem n; info_path = path_join info (candidate @ ''.trashinfo'')
      in io_bind (path_exists (path_join files candidate)) (\<lambda>b.
         if b then ret False
         else io_bind (path_exists info_path) (\<lambda>c. ret (\<not> c))))"

definition unique_name :: "path \<Rightarrow> path \<Rightarrow> string \<Rightarrow> (io_error, string \<times> path, 's) io" where
  "unique_name files info stem =
     io_bind (first_free (trash_probe files info stem) 0 10000) (\<lambda>r.
     case r of
       Some n \<Rightarrow> ret (trash_candidate stem n, path_join info (trash_candidate stem n @ ''.trashinfo''))
     | None \<Rightarrow> fail (Custom AlreadyExists ''no free name in trash''))"

text \<open>
  The offset of local time from the text \<open>date +%z\<close> printed. Slicing a text inside a character
  panics, which ends the computation like a kill does.
\<close>

definition char_boundary :: "string \<Rightarrow> nat \<Rightarrow> bool" where
  "char_boundary s i \<longleftrightarrow> i = length s \<or> i < length s \<and> \<not> is_cont s i"

definition utc_offset :: "string \<Rightarrow> int option option" where
  "utc_offset out =
     (if \<not> valid_utf8 out then Some None
      else let s = trim out
           in if length s < 5 then Some None
              else if \<not> (char_boundary s 1 \<and> char_boundary s 3) then None
              else case parse_signed 64 (take 2 (drop 1 s)) of
                     None \<Rightarrow> Some None
                   | Some h \<Rightarrow>
                       if \<not> char_boundary s 5 then None
                       else case parse_signed 64 (take 2 (drop 3 s)) of
                              None \<Rightarrow> Some None
                            | Some m \<Rightarrow>
                                Some (Some ((if hd s = CHR ''-'' then - 1 else 1) * (h * 3600 + m * 60))))"

definition local_utc_offset_secs :: "('e, int, 's) io" where
  "local_utc_offset_secs w =
     (case e_date_z (w_env w) of
        None \<Rightarrow> (Ok 0, w)
      | Some out \<Rightarrow>
          (case utc_offset out of
             None \<Rightarrow> (Killed, w)
           | Some r \<Rightarrow> (Ok (case r of Some i \<Rightarrow> i | None \<Rightarrow> 0), w)))"

definition show_datetime :: "int \<times> u32 \<times> u32 \<times> u32 \<times> u32 \<times> u32 \<Rightarrow> string" where
  "show_datetime = (\<lambda>(y, mo, d, h, mi, s).
     pad0_int 4 y @ ''-'' @ pad0 2 (unat mo) @ ''-'' @ pad0 2 (unat d) @ ''T''
     @ pad0 2 (unat h) @ '':'' @ pad0 2 (unat mi) @ '':'' @ pad0 2 (unat s))"

definition iso8601_local_now :: "('e, string, 's) io" where
  "iso8601_local_now =
     io_bind get_env (\<lambda>E. io_bind get_tick (\<lambda>t.
     let secs = (if e_now E t < 0 then 0 else e_now E t)
     in io_bind local_utc_offset_secs (\<lambda>off. ret (show_datetime (civil_from_unix (secs + off))))))"

definition trash_record :: "string \<Rightarrow> string \<Rightarrow> string" where
  "trash_record original date =
     ''[Trash Info]'' @ [CHR 0x0A] @ ''Path='' @ uri_escape original @ [CHR 0x0A]
     @ ''DeletionDate='' @ date @ [CHR 0x0A]"

definition trash_in :: "path \<Rightarrow> path \<Rightarrow> (transfer_error, disposal, 's) io" where
  "trash_in root p =
     io_bind (can_trash_in root p) (\<lambda>can.
     if \<not> can then ret Permanent
     else let files = path_join root ''files''; info = path_join root ''info'';
              stem = (case file_name p of Some n \<Rightarrow> from_utf8_lossy n | None \<Rightarrow> ''file'')
          in io_bind (try_io (create_dir_all files)) (\<lambda>_.
             io_bind (try_io (create_dir_all info)) (\<lambda>_.
             io_bind (try_io (unique_name files info stem)) (\<lambda>(name, info_path).
             let dest = path_join files name
             in io_bind (map_unwrap_or id p (canonicalize p)) (\<lambda>original.
                io_bind iso8601_local_now (\<lambda>date.
                io_bind (try_io (fs_write info_path (trash_record (from_utf8_lossy original) date))) (\<lambda>_.
                io_match (rename p dest)
                  (\<lambda>_. ret (Trashed dest info_path))
                  (\<lambda>e. io_discard (remove_file info_path) (fail (Io e))))))))))"

definition trash :: "path \<Rightarrow> (transfer_error, disposal, 's) io" where
  "trash p = io_bind home_trash (\<lambda>root. trash_in root p)"

text \<open>The path a record names: the last line that starts with \<open>Path=\<close>.\<close>

definition recorded_path :: "string \<Rightarrow> path option" where
  "recorded_path raw =
     fold (\<lambda>line original. case strip_prefix ''Path='' line of Some v \<Rightarrow> Some (uri_unescape v) | None \<Rightarrow> original)
       (text_lines raw) None"

definition read_to_string :: "path \<Rightarrow> (io_error, string, 's) io" where
  "read_to_string p =
     io_bind (fs_read p) (\<lambda>raw.
     if valid_utf8 raw then ret raw
     else fail (Custom InvalidData ''stream did not contain valid UTF-8''))"

definition restore :: "path \<Rightarrow> path \<Rightarrow> (transfer_error, path, 's) io" where
  "restore trashed_as info =
     io_bind (try_io (read_to_string info)) (\<lambda>raw.
     case recorded_path raw of
       None \<Rightarrow> fail (Io (Custom InvalidData ''trashinfo has no Path''))
     | Some original \<Rightarrow>
         io_bind (case parent original of Some d \<Rightarrow> try_io (create_dir_all d) | None \<Rightarrow> ret ()) (\<lambda>_.
         io_bind (try_io (rename trashed_as original)) (\<lambda>_.
         io_discard (remove_file info) (ret original))))"

definition delete_permanently :: "path \<Rightarrow> (transfer_error, disposal, 's) io" where
  "delete_permanently p =
     io_bind (path_is_dir p) (\<lambda>b.
     io_bind (try_io (if b then remove_dir_all p else remove_file p)) (\<lambda>_. ret Permanent))"

end
