(* ===== verification/Server.thy ===== *)
theory Server
  imports Jobs Rename Space Trash
begin

text \<open>
  The reader side of a connection of \<open>daemon/src/server.rs\<close>: \<open>send\<close>, the opening of \<open>handle\<close>, its
  line loop, \<open>dispatch\<close> and the part of \<open>start_job\<close> that runs before its thread. A line's parser
  (\<open>serde_json\<close>) is the argument \<open>parse\<close>. The world's captured state is the connection: the
  registry it shares, the lines it has written to its client, and the Jobs it has spawned.
  What other threads do to the registry meanwhile is the business of theory \<open>Writer\<close>.
\<close>

section \<open>A connection\<close>

text \<open>
  \<open>cn_broken n\<close> says how the \<open>n\<close>-th write to the socket fails, if it does; \<open>cn_order n\<close> is the order
  in which the hash map gives its values after \<open>n\<close> writes.
\<close>

record conn =
  cn_shared :: shared
  cn_out :: "event list"
  cn_spawned :: "job_spec list"
  cn_writes :: nat
  cn_broken :: "nat \<Rightarrow> error_kind option"
  cn_order :: "nat \<Rightarrow> hash_order"

definition DAEMON_VERSION :: string where
  "DAEMON_VERSION = ''0.2.1''"

definition send :: "event \<Rightarrow> (io_error, unit, conn) io" where
  "send ev w =
     (let c = w_cap w; c1 = c\<lparr>cn_writes := Suc (cn_writes c)\<rparr>
      in case cn_broken c (cn_writes c) of
           Some k \<Rightarrow> (Err (Os k), w\<lparr>w_cap := c1\<rparr>)
         | None \<Rightarrow> (Ok (), w\<lparr>w_cap := c1\<lparr>cn_out := cn_out c @ [ev]\<rparr>\<rparr>))"

definition from_shared :: "(shared \<Rightarrow> 'a \<times> shared) \<Rightarrow> ('e, 'a, conn) io" where
  "from_shared h w =
     (let (a, s) = h (cn_shared (w_cap w)) in (Ok a, w\<lparr>w_cap := (w_cap w)\<lparr>cn_shared := s\<rparr>\<rparr>))"

definition get_snapshot :: "('e, job_view list, conn) io" where
  "get_snapshot w = (Ok (snapshot (cn_order (w_cap w) (cn_writes (w_cap w))) (cn_shared (w_cap w))), w)"

definition spawn :: "job_spec \<Rightarrow> ('e, unit, conn) io" where
  "spawn js = on_cap (\<lambda>c. c\<lparr>cn_spawned := cn_spawned c @ [js]\<rparr>)"

text \<open>\<open>send(out, &Event::X { seq: shared.next_seq(), .. })\<close>: the number is drawn, then the line written.\<close>

definition send_next :: "(u64 \<Rightarrow> event) \<Rightarrow> (io_error, unit, conn) io" where
  "send_next f = io_bind (from_shared next_seq) (\<lambda>q. send (f q))"

definition reply :: "u64 \<Rightarrow> string option \<Rightarrow> string option \<Rightarrow> (io_error, unit, conn) io" where
  "reply i job err = send_next (\<lambda>q. Ev_Reply q i job err)"

section \<open>Starting a Job\<close>

primrec sum_sizes :: "string list \<Rightarrow> u64 \<Rightarrow> ('e, u64, 's) io" where
  "sum_sizes [] acc = ret acc"
| "sum_sizes (s # ss) acc =
     io_bind (map_unwrap_or md_len 0 (metadata s)) (\<lambda>n. sum_sizes ss (acc + n))"

definition job_name :: "u64 \<Rightarrow> string" where
  "job_name n = CHR ''j'' # show_nat (unat n)"

definition start_job ::
  "u64 \<Rightarrow> string list \<Rightarrow> string \<Rightarrow> bool \<Rightarrow> conflict \<Rightarrow> bool \<Rightarrow> (io_error, unit, conn) io" where
  "start_job i sources destination_dir checksum on_conflict is_move =
     io_bind (from_shared next_job_id) (\<lambda>n.
     io_bind (sum_sizes sources 0) (\<lambda>expected_total.
     let job = job_name n; base = base_view job sources destination_dir expected_total
     in io_bind (from_shared (\<lambda>s. ((), put base s))) (\<lambda>_.
        io_bind (reply i (Some job) None) (\<lambda>_.
        spawn \<lparr>js_base = base, js_sources = sources, js_destination_dir = destination_dir,
               js_options = \<lparr>opt_checksum = checksum, opt_on_conflict = on_conflict\<rparr>,
               js_is_move = is_move, js_expected_total = expected_total\<rparr>))))"

section \<open>Requests\<close>

primrec existing_names :: "path \<Rightarrow> string list \<Rightarrow> ('e, string list, 's) io" where
  "existing_names dir [] = ret []"
| "existing_names dir (s # ss) =
     io_bind (path_exists (path_join dir (file_name_of s))) (\<lambda>b.
     io_bind (existing_names dir ss) (\<lambda>ns. ret (if b then file_name_of s # ns else ns)))"

definition answer_delete :: "u64 \<Rightarrow> path \<Rightarrow> ('e, u64 \<Rightarrow> event, conn) io" where
  "answer_delete i p =
     io_match (trash p)
       (\<lambda>d. case d of
          Trashed trashed_as info \<Rightarrow>
            ret (\<lambda>q. Ev_Deleted q i p True (Some (from_utf8_lossy trashed_as)) (Some (from_utf8_lossy info)) None)
        | Permanent \<Rightarrow>
            io_match (delete_permanently p)
              (\<lambda>_. ret (\<lambda>q. Ev_Deleted q i p False None None None))
              (\<lambda>e. io_bind get_env (\<lambda>E. ret (\<lambda>q. Ev_Deleted q i p False None None (Some (show_transfer_error E e))))))
       (\<lambda>e. io_bind get_env (\<lambda>E. ret (\<lambda>q. Ev_Deleted q i p False None None (Some (show_transfer_error E e)))))"

definition answer_rename :: "u64 \<Rightarrow> path \<Rightarrow> string \<Rightarrow> ('e, u64 \<Rightarrow> event, conn) io" where
  "answer_rename i p new_name =
     io_match (rename_in_place p new_name)
       (\<lambda>to. ret (\<lambda>q. Ev_Renamed q i p (Some (from_utf8_lossy to)) None))
       (\<lambda>e. ret (\<lambda>q. Ev_Renamed q i p None (Some e)))"

definition answer_space :: "u64 \<Rightarrow> path \<Rightarrow> ('e, u64 \<Rightarrow> event, conn) io" where
  "answer_space i p =
     io_match (query p)
       (\<lambda>s. ret (\<lambda>q. Ev_Space q i p (Some (sp_total s)) (Some (sp_available s)) None))
       (\<lambda>e. ret (\<lambda>q. Ev_Space q i p None None (Some e)))"

definition answer_restore :: "u64 \<Rightarrow> path \<Rightarrow> path \<Rightarrow> ('e, u64 \<Rightarrow> event, conn) io" where
  "answer_restore i trashed_as info =
     io_match (restore trashed_as info)
       (\<lambda>p. ret (\<lambda>q. Ev_Restored q i (Some (from_utf8_lossy p)) None))
       (\<lambda>e. io_bind get_env (\<lambda>E. ret (\<lambda>q. Ev_Restored q i None (Some (show_transfer_error E e)))))"

fun dispatch :: "request \<Rightarrow> (io_error, unit, conn) io" where
  "dispatch (Req_Hello i client_version) = reply i None None"
| "dispatch (Req_State i) =
     io_bind (reply i None None) (\<lambda>_.
     io_bind (from_shared next_seq) (\<lambda>q. io_bind get_snapshot (\<lambda>jobs. send (Ev_State q jobs))))"
| "dispatch (Req_Copy i sources destination_dir checksum on_conflict) =
     start_job i sources destination_dir checksum on_conflict False"
| "dispatch (Req_Move i sources destination_dir checksum on_conflict) =
     start_job i sources destination_dir checksum on_conflict True"
| "dispatch (Req_Conflicts i sources destination_dir) =
     io_bind (existing_names destination_dir sources) (\<lambda>ns. send_next (\<lambda>q. Ev_Conflicts q i ns))"
| "dispatch (Req_CanTrash i p) =
     io_bind (can_trash p) (\<lambda>b. send_next (\<lambda>q. Ev_TrashAvailable q i p b))"
| "dispatch (Req_Delete i p) = io_bind (answer_delete i p) send_next"
| "dispatch (Req_Rename i p new_name) = io_bind (answer_rename i p new_name) send_next"
| "dispatch (Req_Space i p) = io_bind (answer_space i p) send_next"
| "dispatch (Req_Release i job) =
     io_bind (from_shared (\<lambda>s. ((), remove job s))) (\<lambda>_. reply i None None)"
| "dispatch (Req_Restore i trashed_as info) = io_bind (answer_restore i trashed_as info) send_next"

section \<open>The connection's thread\<close>

text \<open>The opening: the version, then everything; what is terminal in it counts as delivered.\<close>

definition open_conn :: "(io_error, string set, conn) io" where
  "open_conn =
     io_bind (send_next (\<lambda>q. Ev_Hello q DAEMON_VERSION PROTOCOL_VERSION)) (\<lambda>_.
     io_bind get_snapshot (\<lambda>opening.
     io_bind (send_next (\<lambda>q. Ev_State q opening)) (\<lambda>_.
     ret (set (map jv_job (filter terminal opening))))))"

text \<open>The line loop. A line that could not be read ends it; \<open>Inl\<close> is that error.\<close>

primrec handle_lines ::
  "(string \<Rightarrow> string + request) \<Rightarrow> (io_error + string) list \<Rightarrow> (io_error, unit, conn) io" where
  "handle_lines parse [] = ret ()"
| "handle_lines parse (l # ls) =
     (case l of
        Inl e \<Rightarrow> fail e
      | Inr line \<Rightarrow>
          if trim line = [] then handle_lines parse ls
          else case parse line of
                 Inl e \<Rightarrow> io_discard (reply 0 None (Some (''unparseable request: '' @ e))) (handle_lines parse ls)
               | Inr req \<Rightarrow> io_bind (dispatch req) (\<lambda>_. handle_lines parse ls))"

definition handle ::
  "(string \<Rightarrow> string + request) \<Rightarrow> (io_error + string) list \<Rightarrow> (io_error, unit, conn) io" where
  "handle parse ls = io_bind open_conn (\<lambda>already_terminal. handle_lines parse ls)"

section \<open>Computations that write nothing and never fail\<close>

named_theorems silent_intro \<open>operations that answer with a value and write nothing\<close>

definition silent :: "('e, 'a, 's) io \<Rightarrow> ('a \<Rightarrow> bool) \<Rightarrow> bool" where
  "silent m P \<longleftrightarrow>
     (\<forall>w r w'. m w = (r, w') \<longrightarrow> w_cap w' = w_cap w \<and> (case r of Ok a \<Rightarrow> P a | Err e \<Rightarrow> False | Killed \<Rightarrow> True))"

lemma silent_ret [silent_intro]: "P a \<Longrightarrow> silent (ret a) P"
  by (simp add: silent_def ret_def)

lemma silent_bind:
  assumes m: "silent m Q" and f: "\<And>a. Q a \<Longrightarrow> silent (f a) P"
  shows "silent (io_bind m f) P"
  unfolding silent_def
proof (intro allI impI)
  fix w r w' assume run: "io_bind m f w = (r, w')"
  obtain mr w1 where mr: "m w = (mr, w1)" by fastforce
  from m mr have c: "w_cap w1 = w_cap w" and "case mr of Ok a \<Rightarrow> Q a | Err e \<Rightarrow> False | Killed \<Rightarrow> True"
    by (auto simp: silent_def)
  then show "w_cap w' = w_cap w \<and> (case r of Ok a \<Rightarrow> P a | Err e \<Rightarrow> False | Killed \<Rightarrow> True)"
    using run mr f c by (cases mr) (auto simp: io_bind_def io_match_def silent_def)
qed

lemma silent_bind_any [silent_intro]:
  "silent m (\<lambda>_. True) \<Longrightarrow> (\<And>a. silent (f a) P) \<Longrightarrow> silent (io_bind m f) P"
  by (rule silent_bind)

lemma silent_match [silent_intro]:
  assumes m: "\<And>c. cap_keeps ((=) c) m" and f: "\<And>a. silent (f a) P" and g: "\<And>e. silent (g e) P"
  shows "silent (io_match m f g) P"
  unfolding silent_def
proof (intro allI impI)
  fix w r w' assume run: "io_match m f g w = (r, w')"
  obtain mr w1 where mr: "m w = (mr, w1)" by fastforce
  have c: "w_cap w = w_cap w1" by (rule cap_keepsD[OF m refl mr])
  show "w_cap w' = w_cap w \<and> (case r of Ok a \<Rightarrow> P a | Err e \<Rightarrow> False | Killed \<Rightarrow> True)"
  proof (cases mr)
    case (Ok a)
    with run mr f[of a] c show ?thesis by (simp add: io_match_def silent_def)
  next
    case (Err e)
    with run mr g[of e] c show ?thesis by (simp add: io_match_def silent_def)
  qed (use run mr c in \<open>auto simp: io_match_def\<close>)
qed

lemma silent_get_env [silent_intro]: "silent get_env (\<lambda>_. True)"
  by (simp add: silent_def get_env_def)

lemma silent_map_unwrap_or [silent_intro]: "(\<And>c. cap_keeps ((=) c) m) \<Longrightarrow> silent (map_unwrap_or h d m) (\<lambda>_. True)"
  unfolding map_unwrap_or_def by (intro silent_intro) auto

lemma silent_path_exists [silent_intro]: "silent (path_exists p) (\<lambda>_. True)"
  unfolding path_exists_def by (intro silent_intro cap_intro)

lemma silent_sum_sizes [silent_intro]: "silent (sum_sizes ss acc) (\<lambda>_. True)"
  by (induction ss arbitrary: acc) (auto intro!: silent_intro cap_intro)

lemma silent_existing_names [silent_intro]: "silent (existing_names dir ss) (\<lambda>_. True)"
  by (induction ss) (auto intro!: silent_intro)

subsection \<open>The trash, the space query and the rename keep what is captured\<close>

lemma cap_home_trash [cap_intro]: "cap_keeps R home_trash"
  unfolding home_trash_def Let_def by (intro cap_intro)

lemma cap_ok_of [cap_intro]: "cap_keeps R m \<Longrightarrow> cap_keeps R (ok_of m)"
  unfolding ok_of_def by (intro cap_intro)

lemma cap_can_trash_in [cap_intro]: "cap_keeps R (can_trash_in root p)"
  unfolding can_trash_in_def Let_def by (intro cap_intro)

lemma cap_unique_name [cap_intro]: "cap_keeps R (unique_name files info stem)"
  unfolding unique_name_def trash_probe_def Let_def
  by (intro cap_intro cap_first_free) (auto intro!: cap_intro split: option.split)

lemma cap_get_tick [cap_intro]: "cap_keeps R get_tick"
  by (rule cap_keepsI) (simp add: get_tick_def)

lemma cap_local_offset [cap_intro]: "cap_keeps R local_utc_offset_secs"
  by (rule cap_keepsI) (auto simp: local_utc_offset_secs_def split: option.splits)

lemma cap_iso8601 [cap_intro]: "cap_keeps R iso8601_local_now"
  unfolding iso8601_local_now_def Let_def by (intro cap_intro)

lemma cap_trash [cap_intro]: "cap_keeps R (trash p)"
  unfolding trash_def trash_in_def Let_def by (intro cap_intro) (auto intro!: cap_intro)

lemma cap_restore [cap_intro]: "cap_keeps R (restore trashed_as info)"
  unfolding restore_def read_to_string_def
  by (intro cap_intro) (auto intro!: cap_intro split: option.split)

lemma cap_delete_permanently [cap_intro]: "cap_keeps R (delete_permanently p)"
  unfolding delete_permanently_def by (intro cap_intro)

lemma cap_query [cap_intro]: "cap_keeps R (query p)"
  unfolding query_def statvfs_call_def Let_def by (intro cap_intro)

lemma cap_rename_in_place [cap_intro]: "cap_keeps R (rename_in_place p n)"
  unfolding rename_in_place_def Let_def by (intro cap_intro) (auto intro!: cap_intro split: option.split)

lemma silent_can_trash [silent_intro]: "silent (can_trash p) (\<lambda>_. True)"
  unfolding can_trash_def home_trash_def can_trash_in_def ok_of_def Let_def
  by (intro silent_intro cap_intro) auto

end
