(* ===== verification/Session.thy ===== *)
theory Session
  imports Server
begin

text \<open>
  What a client hears on one connection: the specification of a session is the list of answers its
  lines call for, and the line loop writes exactly those, in order.
\<close>

section \<open>The answer a request calls for\<close>

fun plain_reply :: "u64 \<Rightarrow> event \<Rightarrow> bool" where
  "plain_reply i (Ev_Reply q j job err) \<longleftrightarrow> j = i \<and> job = None \<and> err = None"
| "plain_reply i e \<longleftrightarrow> False"

fun job_reply :: "u64 \<Rightarrow> event \<Rightarrow> bool" where
  "job_reply i (Ev_Reply q j job err) \<longleftrightarrow> j = i \<and> job \<noteq> None \<and> err = None"
| "job_reply i e \<longleftrightarrow> False"

fun error_reply :: "u64 \<Rightarrow> event \<Rightarrow> bool" where
  "error_reply i (Ev_Reply q j job err) \<longleftrightarrow> j = i \<and> job = None \<and> err \<noteq> None"
| "error_reply i e \<longleftrightarrow> False"

fun state_event :: "event \<Rightarrow> bool" where
  "state_event (Ev_State q jobs) \<longleftrightarrow> True"
| "state_event e \<longleftrightarrow> False"

fun conflicts_answer :: "u64 \<Rightarrow> string list \<Rightarrow> event \<Rightarrow> bool" where
  "conflicts_answer i names (Ev_Conflicts q j existing) \<longleftrightarrow> j = i \<and> subseq existing names"
| "conflicts_answer i names e \<longleftrightarrow> False"

fun can_trash_answer :: "u64 \<Rightarrow> path \<Rightarrow> event \<Rightarrow> bool" where
  "can_trash_answer i p (Ev_TrashAvailable q j p' b) \<longleftrightarrow> j = i \<and> p' = p"
| "can_trash_answer i p e \<longleftrightarrow> False"

text \<open>A deletion is recoverable exactly when it says where the file went, and never when it failed.\<close>

fun delete_answer :: "u64 \<Rightarrow> path \<Rightarrow> event \<Rightarrow> bool" where
  "delete_answer i p (Ev_Deleted q j p' recoverable trashed_as info err) \<longleftrightarrow>
     j = i \<and> p' = p \<and> (recoverable \<longleftrightarrow> trashed_as \<noteq> None) \<and> (recoverable \<longleftrightarrow> info \<noteq> None)
     \<and> (err \<noteq> None \<longrightarrow> \<not> recoverable)"
| "delete_answer i p e \<longleftrightarrow> False"

fun rename_answer :: "u64 \<Rightarrow> path \<Rightarrow> event \<Rightarrow> bool" where
  "rename_answer i p (Ev_Renamed q j from_path to err) \<longleftrightarrow> j = i \<and> from_path = p \<and> (to = None \<longleftrightarrow> err \<noteq> None)"
| "rename_answer i p e \<longleftrightarrow> False"

text \<open>Absent numbers, never zero, when the filesystem could not be asked.\<close>

fun space_answer :: "u64 \<Rightarrow> path \<Rightarrow> event \<Rightarrow> bool" where
  "space_answer i p (Ev_Space q j p' tot avail err) \<longleftrightarrow>
     j = i \<and> p' = p \<and> (tot = None \<longleftrightarrow> err \<noteq> None) \<and> (avail = None \<longleftrightarrow> err \<noteq> None)"
| "space_answer i p e \<longleftrightarrow> False"

fun restore_answer :: "u64 \<Rightarrow> event \<Rightarrow> bool" where
  "restore_answer i (Ev_Restored q j p err) \<longleftrightarrow> j = i \<and> (p = None \<longleftrightarrow> err \<noteq> None)"
| "restore_answer i e \<longleftrightarrow> False"

fun calls_for :: "request \<Rightarrow> (event \<Rightarrow> bool) list" where
  "calls_for (Req_Hello i v) = [plain_reply i]"
| "calls_for (Req_State i) = [plain_reply i, state_event]"
| "calls_for (Req_Copy i sources d checksum rule) = [job_reply i]"
| "calls_for (Req_Move i sources d checksum rule) = [job_reply i]"
| "calls_for (Req_Conflicts i sources d) = [conflicts_answer i (map file_name_of sources)]"
| "calls_for (Req_Delete i p) = [delete_answer i p]"
| "calls_for (Req_CanTrash i p) = [can_trash_answer i p]"
| "calls_for (Req_Restore i trashed_as info) = [restore_answer i]"
| "calls_for (Req_Rename i p n) = [rename_answer i p]"
| "calls_for (Req_Release i job) = [plain_reply i]"
| "calls_for (Req_Space i p) = [space_answer i p]"

definition line_calls_for :: "(string \<Rightarrow> string + request) \<Rightarrow> string \<Rightarrow> (event \<Rightarrow> bool) list" where
  "line_calls_for parse line =
     (if trim line = [] then []
      else case parse line of Inl e \<Rightarrow> [error_reply 0] | Inr req \<Rightarrow> calls_for req)"

section \<open>Computations that write what is called for\<close>

definition matches :: "(event \<Rightarrow> bool) list \<Rightarrow> event list \<Rightarrow> bool" where
  "matches ps evs \<longleftrightarrow> list_all2 (\<lambda>p e. p e) ps evs"

text \<open>
  Whatever happens to the socket, the lines written match, in order, some of the answers called
  for; when no write breaks and the computation is not killed, it succeeds and they match them all.
\<close>

definition said ::
  "(nat \<Rightarrow> error_kind option) \<Rightarrow> (event \<Rightarrow> bool) list \<Rightarrow> conn \<Rightarrow> ('e, 'a) res \<Rightarrow> conn \<Rightarrow> bool" where
  "said B ps c r c' \<longleftrightarrow>
     cn_broken c' = B \<and> (B = (\<lambda>_. None) \<longrightarrow> (\<forall>e. r \<noteq> Err e))
     \<and> (\<exists>evs qs. cn_out c' = cn_out c @ evs \<and> subseq qs ps \<and> matches qs evs
          \<and> (B = (\<lambda>_. None) \<and> r \<noteq> Killed \<longrightarrow> qs = ps))"

definition says :: "(nat \<Rightarrow> error_kind option) \<Rightarrow> (io_error, 'a, conn) io \<Rightarrow> (event \<Rightarrow> bool) list \<Rightarrow> bool" where
  "says B m ps \<longleftrightarrow>
     (\<forall>w r w'. cn_broken (w_cap w) = B \<longrightarrow> m w = (r, w') \<longrightarrow> said B ps (w_cap w) r (w_cap w'))"

named_theorems says_intro \<open>operations that write what is called for\<close>

lemma saysI:
  "(\<And>w r w'. cn_broken (w_cap w) = B \<Longrightarrow> m w = (r, w') \<Longrightarrow> said B ps (w_cap w) r (w_cap w')) \<Longrightarrow> says B m ps"
  by (simp add: says_def)

lemma saysD: "says B m ps \<Longrightarrow> cn_broken (w_cap w) = B \<Longrightarrow> m w = (r, w') \<Longrightarrow> said B ps (w_cap w) r (w_cap w')"
  by (simp add: says_def)

lemma said_nothing:
  "cn_broken c' = B \<Longrightarrow> cn_out c' = cn_out c \<Longrightarrow> (\<And>e. B = (\<lambda>_. None) \<Longrightarrow> r \<noteq> Err e) \<Longrightarrow>
   (B = (\<lambda>_. None) \<Longrightarrow> r \<noteq> Killed \<Longrightarrow> ps = []) \<Longrightarrow> said B ps c r c'"
  by (auto simp: said_def matches_def)

lemma said_one:
  "cn_broken c' = B \<Longrightarrow> cn_out c' = cn_out c @ [ev] \<Longrightarrow> (\<And>e. r \<noteq> Err e) \<Longrightarrow> p ev \<Longrightarrow> said B [p] c r c'"
  unfolding said_def by (intro conjI exI[of _ "[ev]"] exI[of _ "[p]"]) (auto simp: matches_def)

lemma matches_append: "matches qs evs \<Longrightarrow> matches qs' evs' \<Longrightarrow> matches (qs @ qs') (evs @ evs')"
  by (simp add: matches_def list_all2_appendI)

lemma said_append:
  assumes "said B ps c r1 c1" "said B ps' c1 r c'" "r1 \<noteq> Killed"
  shows "said B (ps @ ps') c r c'"
proof -
  from assms(1,3) obtain evs qs where 1: "cn_out c1 = cn_out c @ evs" "subseq qs ps" "matches qs evs"
    "B = (\<lambda>_. None) \<longrightarrow> qs = ps" by (auto simp: said_def)
  from assms(2) obtain evs' qs' where 2: "cn_out c' = cn_out c1 @ evs'" "subseq qs' ps'" "matches qs' evs'"
    "B = (\<lambda>_. None) \<and> r \<noteq> Killed \<longrightarrow> qs' = ps'" by (auto simp: said_def)
  have "subseq (qs @ qs') (ps @ ps')" by (rule list_emb_append_mono[OF 1(2) 2(2)])
  with 1 2 matches_append[OF 1(3) 2(3)] assms(2) show ?thesis
    unfolding said_def by (intro conjI exI[of _ "evs @ evs'"] exI[of _ "qs @ qs'"]) auto
qed

lemma said_stop:
  assumes "said B ps c (r :: ('e, 'a) res) c'" "(\<exists>e. r = Err e \<and> r' = Err e) \<or> r = Killed \<and> r' = Killed"
  shows "said B (ps @ ps') c (r' :: ('e, 'b) res) c'"
proof -
  from assms(1) obtain evs qs where 1: "cn_out c' = cn_out c @ evs" "subseq qs ps" "matches qs evs"
    by (auto simp: said_def)
  have "subseq qs (ps @ ps')" by (rule subseq_rev_drop_many[OF 1(2)])
  with 1 assms show ?thesis
    unfolding said_def by (intro conjI exI[of _ evs] exI[of _ qs]) auto
qed

lemma says_silent: "silent m P \<Longrightarrow> says B m []"
  by (intro saysI said_nothing) (auto simp: silent_def split: res.splits)

lemma says_ret [says_intro]: "says B (ret a) []"
  by (intro saysI said_nothing) (auto simp: ret_def)

lemma says_from_shared [says_intro]: "says B (from_shared h) []"
  by (intro saysI said_nothing) (auto simp: from_shared_def split: prod.splits)

lemma says_spawn [says_intro]: "says B (spawn js) []"
  by (intro saysI said_nothing) (auto simp: spawn_def on_cap_def)

lemma says_get_snapshot [says_intro]: "says B get_snapshot []"
  by (intro saysI said_nothing) (auto simp: get_snapshot_def)

lemma says_send [says_intro]: "p ev \<Longrightarrow> says B (send ev) [p]"
proof (rule saysI)
  fix w r w' assume p: "p ev" and B: "cn_broken (w_cap w) = B" and run: "send ev w = (r, w')"
  show "said B [p] (w_cap w) r (w_cap w')"
  proof (cases "B (cn_writes (w_cap w))")
    case None
    then show ?thesis using p B run by (intro said_one[where ev = ev]) (auto simp: send_def Let_def)
  next
    case (Some k)
    then have "r = Err (Os k)" "cn_out (w_cap w') = cn_out (w_cap w)" "cn_broken (w_cap w') = B" "B \<noteq> (\<lambda>_. None)"
      using B run by (auto simp: send_def Let_def)
    then show ?thesis by (auto simp: said_def matches_def)
  qed
qed

lemma says_bind:
  assumes m: "says B m ps" and f: "\<And>a. says B (f a) ps'"
  shows "says B (io_bind m f) (ps @ ps')"
proof (rule saysI)
  fix w r w' assume B: "cn_broken (w_cap w) = B" and run: "io_bind m f w = (r, w')"
  obtain mr w1 where mr: "m w = (mr, w1)" by fastforce
  have 1: "said B ps (w_cap w) mr (w_cap w1)" by (rule saysD[OF m B mr])
  show "said B (ps @ ps') (w_cap w) r (w_cap w')"
  proof (cases mr)
    case (Ok a)
    then have "f a w1 = (r, w')" using run mr by (simp add: io_bind_def io_match_def)
    moreover have "cn_broken (w_cap w1) = B" using 1 by (simp add: said_def)
    ultimately have "said B ps' (w_cap w1) r (w_cap w')" by (rule saysD[OF f, rotated])
    with 1 Ok show ?thesis by (blast intro: said_append)
  qed (use said_stop[OF 1] run mr in \<open>auto simp: io_bind_def io_match_def fail_def\<close>)
qed

text \<open>A computation that says nothing first, and one that says all of it first.\<close>

lemma says_then [says_intro]: "says B m [] \<Longrightarrow> (\<And>a. says B (f a) ps) \<Longrightarrow> says B (io_bind m f) ps"
  using says_bind[of B m "[]" f ps] by simp

lemma says_first: "says B m ps \<Longrightarrow> (\<And>a. says B (f a) []) \<Longrightarrow> says B (io_bind m f) ps"
  using says_bind[of B m ps f "[]"] by simp

lemma says_send_next [says_intro]: "(\<And>q. p (f q)) \<Longrightarrow> says B (send_next f) [p]"
  unfolding send_next_def by (intro says_intro)

lemma says_reply [says_intro]: "(\<And>q. p (Ev_Reply q i job err)) \<Longrightarrow> says B (reply i job err) [p]"
  unfolding reply_def by (intro says_intro)

text \<open>A value computed without a word, and then told.\<close>

lemma says_answer: "silent m (\<lambda>f. \<forall>q. p (f q)) \<Longrightarrow> says B (io_bind m send_next) [p]"
proof (rule saysI)
  fix w r w' assume m: "silent m (\<lambda>f. \<forall>q. p (f q))" and B: "cn_broken (w_cap w) = B"
    and run: "io_bind m send_next w = (r, w')"
  obtain mr w1 where mr: "m w = (mr, w1)" by fastforce
  with m have c: "w_cap w1 = w_cap w" and k: "case mr of Ok f \<Rightarrow> \<forall>q. p (f q) | Err e \<Rightarrow> False | Killed \<Rightarrow> True"
    by (auto simp: silent_def)
  show "said B [p] (w_cap w) r (w_cap w')"
  proof (cases mr)
    case (Ok f)
    then have "send_next f w1 = (r, w')" using run mr by (simp add: io_bind_def io_match_def)
    moreover have "says B (send_next f) [p]" using k Ok by (intro says_intro) simp
    ultimately show ?thesis using saysD[of B "send_next f" "[p]" w1] B c by simp
  next
    case Killed
    then show ?thesis using run mr c B
      by (intro said_nothing) (auto simp: io_bind_def io_match_def)
  qed (use k in simp)
qed

text \<open>\<open>let _ = m; f\<close>: what \<open>m\<close> could not say is not said, and \<open>f\<close> speaks all the same.\<close>

lemma says_discard:
  assumes m: "says B m ps" and f: "says B f ps'"
  shows "says B (io_discard m f) (ps @ ps')"
proof (rule saysI)
  fix w r w' assume B: "cn_broken (w_cap w) = B" and run: "io_discard m f w = (r, w')"
  obtain mr w1 where mr: "m w = (mr, w1)" by fastforce
  have 1: "said B ps (w_cap w) mr (w_cap w1)" by (rule saysD[OF m B mr])
  show "said B (ps @ ps') (w_cap w) r (w_cap w')"
  proof (cases "mr = Killed")
    case True
    then show ?thesis using said_stop[OF 1, of r] run mr by (simp add: io_discard_def io_match_def)
  next
    case False
    then have "f w1 = (r, w')" using run mr by (cases mr) (auto simp: io_discard_def io_match_def)
    moreover have "cn_broken (w_cap w1) = B" using 1 by (simp add: said_def)
    ultimately have "said B ps' (w_cap w1) r (w_cap w')" by (rule saysD[OF f, rotated])
    with 1 False show ?thesis by (blast intro: said_append)
  qed
qed

section \<open>The operations\<close>

lemma says_start_job [says_intro]: "says B (start_job i sources d checksum rule is_move) [job_reply i]"
  unfolding start_job_def Let_def
  by (intro says_intro says_first says_silent[OF silent_sum_sizes]) simp

lemma silent_answer_delete: "silent (answer_delete i p) (\<lambda>f. \<forall>q. delete_answer i p (f q))"
  unfolding answer_delete_def
  by (intro silent_intro cap_intro) (auto intro!: silent_intro cap_intro split: disposal.split)

lemma silent_answer_rename: "silent (answer_rename i p n) (\<lambda>f. \<forall>q. rename_answer i p (f q))"
  unfolding answer_rename_def by (intro silent_intro cap_intro) simp_all

lemma silent_answer_space: "silent (answer_space i p) (\<lambda>f. \<forall>q. space_answer i p (f q))"
  unfolding answer_space_def by (intro silent_intro cap_intro) simp_all

lemma silent_answer_restore: "silent (answer_restore i a b) (\<lambda>f. \<forall>q. restore_answer i (f q))"
  unfolding answer_restore_def by (intro silent_intro cap_intro) simp_all

lemma silent_existing: "silent (existing_names dir ss) (\<lambda>ns. subseq ns (map file_name_of ss))"
proof (induction ss)
  case (Cons s ss)
  show ?case
    unfolding existing_names.simps
    by (rule silent_bind[OF silent_path_exists], rule silent_bind[OF Cons.IH]) (auto intro!: silent_intro)
qed (simp add: silent_ret)

lemma silent_conflicts:
  "silent (io_bind (existing_names dir ss) (\<lambda>ns. ret (\<lambda>q. Ev_Conflicts q i ns)))
     (\<lambda>f. \<forall>q. conflicts_answer i (map file_name_of ss) (f q))"
  by (rule silent_bind[OF silent_existing], rule silent_ret) simp

lemma says_dispatch: "says B (dispatch req) (calls_for req)"
proof (cases req)
  case (Req_State i)
  have "says B (io_bind (reply i None None) (\<lambda>_. io_bind (from_shared next_seq) (\<lambda>q.
      io_bind get_snapshot (\<lambda>jobs. send (Ev_State q jobs))))) ([plain_reply i] @ [state_event])"
    by (rule says_bind) (intro says_intro; simp)+
  then show ?thesis by (simp add: Req_State)
next
  case (Req_Conflicts i sources d)
  have "io_bind (existing_names d sources) (\<lambda>ns. send_next (\<lambda>q. Ev_Conflicts q i ns))
      = io_bind (io_bind (existing_names d sources) (\<lambda>ns. ret (\<lambda>q. Ev_Conflicts q i ns))) send_next"
    by (rule ext) (auto simp: io_bind_def io_match_def ret_def fail_def split: prod.splits res.splits)
  then show ?thesis using says_answer[OF silent_conflicts] by (simp add: Req_Conflicts)
next
  case (Req_CanTrash i p)
  then show ?thesis by (simp, intro says_intro says_silent[OF silent_can_trash]) simp
qed (auto intro!: says_intro says_answer silent_answer_delete silent_answer_rename silent_answer_space
    silent_answer_restore)

lemma says_handle_lines:
  "says B (handle_lines parse (map Inr ls)) (concat (map (line_calls_for parse) ls))"
proof (induction ls)
  case (Cons l ls)
  consider (blank) "trim l = []" | (bad) e where "trim l \<noteq> []" "parse l = Inl e"
    | (good) req where "trim l \<noteq> []" "parse l = Inr req"
    by (cases "parse l") auto
  then show ?case
  proof cases
    case blank
    with Cons show ?thesis by (simp add: line_calls_for_def)
  next
    case bad
    have "says B (reply 0 None (Some (''unparseable request: '' @ e))) [error_reply 0]"
      by (intro says_intro) simp
    from says_discard[OF this Cons] bad show ?thesis by (simp add: line_calls_for_def)
  next
    case good
    with says_bind[OF says_dispatch Cons, of req] show ?thesis by (simp add: line_calls_for_def)
  qed
qed (simp add: says_ret)

fun hello_event :: "event \<Rightarrow> bool" where
  "hello_event (Ev_Hello q v p) \<longleftrightarrow> v = DAEMON_VERSION \<and> p = PROTOCOL_VERSION"
| "hello_event e \<longleftrightarrow> False"

lemma says_open: "says B open_conn [hello_event, state_event]"
proof -
  have state: "says B (io_bind (send_next (\<lambda>q. Ev_State q js)) (\<lambda>_. ret x)) [state_event]"
    for js and x :: "string set"
    by (rule says_first) (intro says_intro; simp)+
  have "says B open_conn ([hello_event] @ [state_event])"
    unfolding open_conn_def
    by (rule says_bind, intro says_intro, simp) (intro says_intro state)
  then show ?thesis by simp
qed

section \<open>Properties\<close>

text \<open>
  C9. Every line is answered, once, in order. On any connection, whatever the disk does, what the
  reader writes is the opening pair followed by the answers the client's lines call for, in the
  order of the lines: each of the right kind, carrying the request's id and echoing its path,
  never one too many and never out of turn. A broken write can only leave answers out. When no
  write breaks and the daemon is not killed, the connection ends without an error and every answer
  was given. A blank line calls for nothing and an unreadable one for an error with id 0.
\<close>

theorem every_line_is_answered:
  assumes "handle parse (map Inr ls) w = (r, w')"
  shows "said (cn_broken (w_cap w)) ([hello_event, state_event] @ concat (map (line_calls_for parse) ls))
    (w_cap w) r (w_cap w')"
  using says_bind[OF says_open says_handle_lines, of "cn_broken (w_cap w)" parse ls] assms
  by (auto simp: handle_def dest: saysD)

text \<open>Two lines on the concrete machine: a blank one and a question about space.\<close>

definition lab_conn :: conn where
  "lab_conn = \<lparr>cn_shared = shared_new, cn_out = [], cn_spawned = [], cn_writes = 0,
     cn_broken = \<lambda>_. None, cn_order = \<lambda>_. id\<rparr>"

definition lab_client :: "conn world" where
  "lab_client = \<lparr>w_env = lab_reading whole_read, w_fs = lab_fs, w_tick = 0, w_cap = lab_conn\<rparr>"

definition lab_parse :: "string \<Rightarrow> string + request" where
  "lab_parse l = (if l = ''space'' then Inr (Req_Space 7 ''/dst'') else Inl ''expected value'')"

definition lab_session :: "(io_error, unit) res \<times> conn world" where
  "lab_session = handle lab_parse (map Inr ['' '', ''space'', ''what'']) lab_client"

lemma lab_trims: "trim '' '' = []" "trim ''space'' \<noteq> []" "trim ''what'' \<noteq> []"
  by code_simp+

lemma lab_session_ends: "fst lab_session = Ok ()"
  by code_simp

lemma every_line_is_answered_witness:
  "\<exists>a b c d. cn_out (w_cap (snd lab_session)) = [a, b, c, d] \<and> hello_event a \<and> state_event b
     \<and> space_answer 7 ''/dst'' c \<and> error_reply 0 d"
proof -
  have "handle lab_parse (map Inr ['' '', ''space'', ''what'']) lab_client = (fst lab_session, snd lab_session)"
    by (simp add: lab_session_def)
  from every_line_is_answered[OF this] show ?thesis
    using lab_trims lab_session_ends
    by (auto simp: said_def matches_def line_calls_for_def lab_parse_def lab_client_def lab_conn_def
        list_all2_Cons1)
qed

end
