(* ===== verification/Starting.thy ===== *)
theory Starting
  imports Session
begin

text \<open>
  What starting a Job leaves behind, on every ending of \<open>start_job\<close>: the promise to the client, the
  registry's entry, and the thread that will finish it.
\<close>

section \<open>Runs of start_job\<close>

definition job_started ::
  "u64 \<Rightarrow> string list \<Rightarrow> string \<Rightarrow> bool \<Rightarrow> conflict \<Rightarrow> bool \<Rightarrow> conn \<Rightarrow> job_view \<Rightarrow> conn \<Rightarrow> bool" where
  "job_started i sources d checksum rule is_move c v c' \<longleftrightarrow>
     cn_out c' = cn_out c @ [Ev_Reply (sh_seq (cn_shared c)) i (Some (jv_job v)) None]
     \<and> cn_spawned c' = cn_spawned c @
         [\<lparr>js_base = v, js_sources = sources, js_destination_dir = d,
           js_options = \<lparr>opt_checksum = checksum, opt_on_conflict = rule\<rparr>, js_is_move = is_move,
           js_expected_total = jv_expected v\<rparr>]"

lemma sum_sizes_run:
  assumes "sum_sizes ss acc w = (r, w')"
  shows "w_cap w' = w_cap w" "r \<noteq> Err e"
  using assms silent_sum_sizes[of ss acc] by (cases r; fastforce simp: silent_def)+

lemma start_job_run:
  assumes "start_job i sources d checksum rule is_move w = (r, w')" "r \<noteq> Killed"
  obtains n where
    "lookup_job (cn_shared (w_cap w')) (job_name (sh_next_job (cn_shared (w_cap w))))
       = Some (base_view (job_name (sh_next_job (cn_shared (w_cap w)))) sources d n)"
    "registry_ok (cn_shared (w_cap w)) \<Longrightarrow> registry_ok (cn_shared (w_cap w'))"
    "if r = Ok () then job_started i sources d checksum rule is_move (w_cap w)
        (base_view (job_name (sh_next_job (cn_shared (w_cap w)))) sources d n) (w_cap w')
     else cn_out (w_cap w') = cn_out (w_cap w) \<and> cn_spawned (w_cap w') = cn_spawned (w_cap w)"
proof -
  let ?c = "w_cap w"
  let ?s = "snd (next_job_id (cn_shared ?c))"
  let ?w1 = "w\<lparr>w_cap := ?c\<lparr>cn_shared := ?s\<rparr>\<rparr>"
  let ?job = "job_name (sh_next_job (cn_shared ?c))"
  obtain sr w2 where sum: "sum_sizes sources 0 ?w1 = (sr :: (io_error, u64) res, w2)" by fastforce
  note sr = sum_sizes_run[OF sum]
  have "sr \<noteq> Killed"
    using assms sum by (auto simp: start_job_def io_bind_def io_match_def from_shared_def next_job_id_def)
  with sr(2) obtain n where n: "sr = Ok n" by (cases sr) auto
  let ?v = "base_view ?job sources d n"
  let ?c3 = "?c\<lparr>cn_shared := put ?v ?s\<rparr>"
  have look: "lookup_job (put ?v ?s) ?job = Some ?v"
    using registry.look_ins_same[of ?v ?s] by (simp add: base_view_def)
  have ok: "registry_ok (cn_shared ?c) \<Longrightarrow> registry_ok (put ?v ?s)"
    by (intro registry_ok_put) (simp add: registry_ok_def next_job_id_def)
  have exp: "jv_expected ?v = n" "jv_job ?v = ?job" by (simp_all add: base_view_def)
  have seq: "sh_seq (put ?v ?s) = sh_seq (cn_shared ?c)" by (simp add: put_def next_job_id_def)
  have c2: "w_cap w2 = ?c\<lparr>cn_shared := ?s\<rparr>" using sr(1) by simp
  have regs: "sh_jobs (snd (next_seq s)) = sh_jobs s" for s by (simp add: next_seq_def)
  have w': "cn_shared (w_cap w') = snd (next_seq (put ?v ?s))
     \<and> (if r = Ok () then job_started i sources d checksum rule is_move ?c ?v (w_cap w')
        else cn_out (w_cap w') = cn_out ?c \<and> cn_spawned (w_cap w') = cn_spawned ?c)"
    using assms(1) sum n c2 seq exp
    by (auto simp: start_job_def io_bind_def io_match_def from_shared_def next_job_id_def next_seq_def Let_def
        reply_def send_next_def send_def spawn_def on_cap_def fail_def job_started_def split: option.splits prod.splits)
  show ?thesis
    by (rule that[of n])
      (use w' look ok regs in \<open>auto simp: lookup_job_def registry_ok_def\<close>)
qed

section \<open>Properties\<close>

text \<open>
  C19. Starting a Job keeps its promise to the client. When \<open>start_job\<close> returns without an error, the client
  was told the new Job's id, the registry holds its entry under that id, and exactly one thread
  was spawned, with that entry and that id. When the reply could not be written, nothing was spawned
  and nothing said, but the entry stays in the registry, not finished, for good.
\<close>

theorem started_job_is_promised:
  assumes "start_job i sources d checksum rule is_move w = (r, w')" "r \<noteq> Killed"
  shows "\<exists>v. lookup_job (cn_shared (w_cap w')) (jv_job v) = Some v \<and> \<not> terminal v
    \<and> jv_job v = job_name (sh_next_job (cn_shared (w_cap w)))
    \<and> v = base_view (jv_job v) sources d (jv_expected v)
    \<and> (if r = Ok () then job_started i sources d checksum rule is_move (w_cap w) v (w_cap w')
       else cn_out (w_cap w') = cn_out (w_cap w) \<and> cn_spawned (w_cap w') = cn_spawned (w_cap w))"
proof (rule start_job_run[OF assms])
  fix n
  let ?v = "base_view (job_name (sh_next_job (cn_shared (w_cap w)))) sources d n"
  assume "lookup_job (cn_shared (w_cap w')) (job_name (sh_next_job (cn_shared (w_cap w)))) = Some ?v"
    and "if r = Ok () then job_started i sources d checksum rule is_move (w_cap w) ?v (w_cap w')
     else cn_out (w_cap w') = cn_out (w_cap w) \<and> cn_spawned (w_cap w') = cn_spawned (w_cap w)"
  then show ?thesis
    by (intro exI[of _ ?v]) (auto simp: base_view_def terminal_def)
qed

text \<open>
  No number is given twice. As long as a counter has not gone round (2^64 draws), no two
  events of the daemon carry the same sequence number and no two Jobs the same id.
\<close>

theorem ids_never_repeat:
  assumes "n \<le> 2 ^ 64"
  shows "distinct (draws next_seq n s) \<and> distinct (map job_name (draws next_job_id n s))"
proof -
  have "inj job_name" by (auto simp: inj_def job_name_def word_unat_eq_iff)
  then show ?thesis
    using seq.draws_distinct[OF assms, of s] job_ids.draws_distinct[OF assms, of s]
    by (auto simp: distinct_map intro: inj_on_subset)
qed

lemma ids_never_repeat_witness:
  "distinct (draws next_seq 3 shared_new) \<and> distinct (map job_name (draws next_job_id 3 shared_new))"
  using ids_never_repeat[of 3 shared_new] by simp

definition lab_started :: "(io_error, unit) res \<times> conn world" where
  "lab_started = start_job 5 [''/src/a''] ''/dst'' False Skip False lab_client"

lemma lab_start_ends: "fst lab_started = Ok ()"
  by code_simp

lemma started_job_is_promised_witness:
  "\<exists>v. cn_out (w_cap (snd lab_started)) = [Ev_Reply 0 5 (Some ''j1'') None] \<and> \<not> terminal v
     \<and> map js_base (cn_spawned (w_cap (snd lab_started))) = [v]"
proof -
  have run: "start_job 5 [''/src/a''] ''/dst'' False Skip False lab_client = (fst lab_started, snd lab_started)"
    by (simp add: lab_started_def)
  have "job_name 1 = ''j1''" by code_simp
  with started_job_is_promised[OF run] lab_start_ends show ?thesis
    by (auto simp: job_started_def lab_client_def lab_conn_def shared_new_def)
qed

end
