(* ===== verification/Reader.thy ===== *)
theory Reader
  imports Starting
begin

text \<open>
  The reader thread of a connection (\<open>handle\<close>, \<open>dispatch\<close>, \<open>start_job\<close> of \<open>daemon/src/server.rs\<close>) as a state
  machine, one atomic step per access to something shared, so that other threads can come between
  any two of them. The theorem says that the computations of theory \<open>Server\<close> are runs of it.
\<close>

section \<open>The machine\<close>

text \<open>What the thread does after a line was written, and where it stands.\<close>

datatype after = Read_on | Read_anyway | Then_opening | Then_state | Then_spawn job_spec

datatype reader_pc =
    Away
  | Opening
  | Reading
  | Sizing u64 string "string list" string bool conflict bool
  | Inserting u64 job_spec
  | Revising u64 job_spec
  | Numbering "u64 \<Rightarrow> event" after
  | Writing event after
  | Drawing
  | Picturing u64
  | Spawning job_spec
  | Ended "job_spec option"

record desk =
  dk_shared :: shared
  dk_pc :: reader_pc
  dk_out :: "event list"

definition new_job :: "string \<Rightarrow> string list \<Rightarrow> string \<Rightarrow> bool \<Rightarrow> conflict \<Rightarrow> bool \<Rightarrow> u64 \<Rightarrow> job_spec" where
  "new_job job sources destination_dir checksum on_conflict is_move expected_total =
     \<lparr>js_base = base_view job sources destination_dir expected_total, js_sources = sources,
      js_destination_dir = destination_dir,
      js_options = \<lparr>opt_checksum = checksum, opt_on_conflict = on_conflict\<rparr>,
      js_is_move = is_move, js_expected_total = expected_total\<rparr>"

text \<open>The requests that only ask the file system, and the line each is answered with.\<close>

fun file_answer :: "request \<Rightarrow> (io_error, u64 \<Rightarrow> event, conn) io option" where
  "file_answer (Req_Conflicts i sources destination_dir) =
     Some (io_bind (existing_names destination_dir sources) (\<lambda>ns. ret (\<lambda>q. Ev_Conflicts q i ns)))"
| "file_answer (Req_CanTrash i p) = Some (io_bind (can_trash p) (\<lambda>b. ret (\<lambda>q. Ev_TrashAvailable q i p b)))"
| "file_answer (Req_Delete i p) = Some (answer_delete i p)"
| "file_answer (Req_Rename i p new_name) = Some (answer_rename i p new_name)"
| "file_answer (Req_Space i p) = Some (answer_space i p)"
| "file_answer (Req_Restore i trashed_as info) = Some (answer_restore i trashed_as info)"
| "file_answer req = None"

fun on_written :: "after \<Rightarrow> reader_pc" where
  "on_written Then_opening = Opening"
| "on_written Then_state = Drawing"
| "on_written (Then_spawn js) = Spawning js"
| "on_written a = Reading"

text \<open>A write that fails ends the thread (\<open>?\<close>), but for the answer to a line that did not parse.\<close>

fun on_broken :: "after \<Rightarrow> reader_pc" where
  "on_broken Read_anyway = Reading"
| "on_broken (Then_spawn js) = Ended (Some js)"
| "on_broken a = Ended None"

definition at :: "reader_pc \<Rightarrow> desk \<Rightarrow> desk" where
  "at pc k = k\<lparr>dk_pc := pc\<rparr>"

definition sharing :: "shared \<Rightarrow> desk \<Rightarrow> desk" where
  "sharing s k = k\<lparr>dk_shared := s\<rparr>"

text \<open>
  One step, and the Job it spawns if it spawns one. The opening snapshot and the first \<open>State\<close> line, which
  this thread writes too, are the first steps of theory \<open>Writer\<close>; the thread stands at \<open>Opening\<close> meanwhile.
\<close>

inductive rstep :: "desk \<Rightarrow> job_spec option \<Rightarrow> desk \<Rightarrow> bool" where
  greets: "dk_pc k = Away \<Longrightarrow>
    rstep k None (at (Numbering (\<lambda>q. Ev_Hello q DAEMON_VERSION PROTOCOL_VERSION) Then_opening) k)"
| reads_garbage: "dk_pc k = Reading \<Longrightarrow>
    rstep k None (at (Numbering (\<lambda>q. Ev_Reply q 0 None (Some (''unparseable request: '' @ e))) Read_anyway) k)"
| reads_hello: "dk_pc k = Reading \<Longrightarrow> rstep k None (at (Numbering (\<lambda>q. Ev_Reply q i None None) Read_on) k)"
| reads_state: "dk_pc k = Reading \<Longrightarrow> rstep k None (at (Numbering (\<lambda>q. Ev_Reply q i None None) Then_state) k)"
| reads_transfer: "dk_pc k = Reading \<Longrightarrow> next_job_id (dk_shared k) = (n, s) \<Longrightarrow>
    rstep k None (at (Sizing i (job_name n) sources d checksum rule is_move) (sharing s k))"
| reads_release: "dk_pc k = Reading \<Longrightarrow>
    rstep k None (at (Numbering (\<lambda>q. Ev_Reply q i None None) Read_on) (sharing (remove job (dk_shared k)) k))"
| reads_question: "dk_pc k = Reading \<Longrightarrow> file_answer req = Some m \<Longrightarrow> m w = (Ok f, w') \<Longrightarrow>
    rstep k None (at (Numbering f Read_on) k)"
| sizes: "dk_pc k = Sizing i job sources d checksum rule is_move \<Longrightarrow>
    sum_sizes sources 0 (w :: conn world) = (Ok n :: (io_error, u64) res, w') \<Longrightarrow>
    rstep k None (at (Inserting i (new_job job sources d checksum rule is_move n)) k)"
| inserts: "dk_pc k = Inserting i js \<Longrightarrow>
    rstep k None (at (Revising i js) (sharing (insert_row (js_base js) (dk_shared k)) k))"
| bumps: "dk_pc k = Revising i js \<Longrightarrow>
    rstep k None (at (Numbering (\<lambda>q. Ev_Reply q i (Some (jv_job (js_base js))) None) (Then_spawn js))
                    (sharing (bump (dk_shared k)) k))"
| numbers: "dk_pc k = Numbering f a \<Longrightarrow> next_seq (dk_shared k) = (q, s) \<Longrightarrow>
    rstep k None (at (Writing (f q) a) (sharing s k))"
| writes: "dk_pc k = Writing ev a \<Longrightarrow> rstep k None (at (on_written a) (k\<lparr>dk_out := dk_out k @ [ev]\<rparr>))"
| breaks: "dk_pc k = Writing ev a \<Longrightarrow> rstep k None (at (on_broken a) k)"
| draws: "dk_pc k = Drawing \<Longrightarrow> next_seq (dk_shared k) = (q, s) \<Longrightarrow> rstep k None (at (Picturing q) (sharing s k))"
| pictures: "dk_pc k = Picturing q \<Longrightarrow> \<forall>xs. mset (ord xs) = mset xs \<Longrightarrow>
    rstep k None (at (Writing (Ev_State q (snapshot ord (dk_shared k))) Read_on) k)"
| spawns: "dk_pc k = Spawning js \<Longrightarrow> rstep k (Some js) (at Reading k)"
| hangs_up: "dk_pc k = Reading \<Longrightarrow> rstep k None (at (Ended None) k)"

text \<open>Runs of the thread alone, with the Jobs they spawn.\<close>

inductive rruns :: "desk \<Rightarrow> job_spec list \<Rightarrow> desk \<Rightarrow> bool" where
  stop: "rruns k [] k"
| go: "rstep k None k1 \<Longrightarrow> rruns k1 jss k2 \<Longrightarrow> rruns k jss k2"
| start: "rstep k (Some js) k1 \<Longrightarrow> rruns k1 jss k2 \<Longrightarrow> rruns k (js # jss) k2"

lemma rruns_trans: "rruns k jss k1 \<Longrightarrow> rruns k1 jss' k2 \<Longrightarrow> rruns k (jss @ jss') k2"
  by (induction rule: rruns.induct) (auto intro: rruns.intros)

section \<open>The code runs on it\<close>

definition desk_of :: "conn \<Rightarrow> reader_pc \<Rightarrow> desk" where
  "desk_of c pc = \<lparr>dk_shared = cn_shared c, dk_pc = pc, dk_out = cn_out c\<rparr>"

definition orders_ok :: "conn \<Rightarrow> bool" where
  "orders_ok c \<longleftrightarrow> (\<forall>n xs. mset (cn_order c n xs) = mset xs)"

text \<open>From one place the computation takes the machine to another, or to its end.\<close>

definition runs_to :: "conn \<Rightarrow> reader_pc \<Rightarrow> conn \<Rightarrow> reader_pc \<Rightarrow> bool" where
  "runs_to c pc c' pc' \<longleftrightarrow> orders_ok c' \<and>
     (\<exists>jss. rruns (desk_of c pc) jss (desk_of c' pc') \<and> cn_spawned c' = cn_spawned c @ jss)"

definition follows :: "reader_pc \<Rightarrow> (io_error, 'a, conn) io \<Rightarrow> ('a \<Rightarrow> reader_pc) \<Rightarrow> bool" where
  "follows pc m arrives \<longleftrightarrow> (\<forall>w r w'. orders_ok (w_cap w) \<longrightarrow> m w = (r, w') \<longrightarrow>
     (case r of
        Ok a \<Rightarrow> runs_to (w_cap w) pc (w_cap w') (arrives a)
      | Err e \<Rightarrow> (\<exists>js. runs_to (w_cap w) pc (w_cap w') (Ended js))
      | Killed \<Rightarrow> True))"

named_theorems follows_intro \<open>computations of the reader as runs of its machine\<close>

lemma followsI:
  assumes "\<And>w r w'. orders_ok (w_cap w) \<Longrightarrow> m w = (r, w') \<Longrightarrow>
     (case r of Ok a \<Rightarrow> runs_to (w_cap w) pc (w_cap w') (arrives a)
      | Err e \<Rightarrow> (\<exists>js. runs_to (w_cap w) pc (w_cap w') (Ended js)) | Killed \<Rightarrow> True)"
  shows "follows pc m arrives"
  using assms unfolding follows_def by blast

lemma followsD:
  assumes "follows pc m arrives" "orders_ok (w_cap w)" "m w = (r, w')"
  shows "case r of Ok a \<Rightarrow> runs_to (w_cap w) pc (w_cap w') (arrives a)
      | Err e \<Rightarrow> (\<exists>js. runs_to (w_cap w) pc (w_cap w') (Ended js)) | Killed \<Rightarrow> True"
  using assms unfolding follows_def by blast

lemma runs_to_trans: "runs_to c pc c1 pc1 \<Longrightarrow> runs_to c1 pc1 c2 pc2 \<Longrightarrow> runs_to c pc c2 pc2"
  unfolding runs_to_def by (metis append.assoc rruns_trans)

lemma runs_to_self: "orders_ok c \<Longrightarrow> runs_to c pc c pc"
  by (auto simp: runs_to_def intro: rruns.stop)

lemma runs_to_step:
  assumes "rstep (desk_of c pc) None (desk_of c1 pc1)" "cn_spawned c1 = cn_spawned c" "cn_order c1 = cn_order c"
    and "orders_ok c" "runs_to c1 pc1 c2 pc2"
  shows "runs_to c pc c2 pc2"
  using assms by (auto simp: runs_to_def intro: rruns.go)

lemma follows_bind [follows_intro]:
  assumes m: "follows pc m mid" and f: "\<And>a. follows (mid a) (f a) arrives"
  shows "follows pc (io_bind m f) arrives"
proof (rule followsI)
  fix w r w' assume ok: "orders_ok (w_cap w)" and run: "io_bind m f w = (r, w')"
  obtain mr w1 where mr: "m w = (mr, w1)" by fastforce
  note first = followsD[OF m ok mr]
  show "case r of Ok a \<Rightarrow> runs_to (w_cap w) pc (w_cap w') (arrives a)
      | Err e \<Rightarrow> (\<exists>js. runs_to (w_cap w) pc (w_cap w') (Ended js)) | Killed \<Rightarrow> True"
  proof (cases mr)
    case (Ok a)
    with first have c1: "runs_to (w_cap w) pc (w_cap w1) (mid a)" by simp
    then have "orders_ok (w_cap w1)" by (simp add: runs_to_def)
    moreover have "f a w1 = (r, w')" using run mr Ok by (simp add: io_bind_def io_match_def)
    ultimately show ?thesis using followsD[OF f] runs_to_trans[OF c1] by (cases r) fastforce+
  qed (use run mr first in \<open>auto simp: io_bind_def io_match_def fail_def\<close>)
qed

lemma follows_ret [follows_intro]: "follows (arrives a) (ret a) arrives"
  by (rule followsI) (auto simp: ret_def runs_to_self)

text \<open>A step before the computation that changes nothing but the place.\<close>

lemma follows_at:
  assumes "\<And>c. rstep (desk_of c pc) None (desk_of c pc1)" "follows pc1 m arrives"
  shows "follows pc m arrives"
proof (rule followsI)
  fix w r w' assume ok: "orders_ok (w_cap w)" and run: "m w = (r, w')"
  have "runs_to (w_cap w) pc (w_cap w) pc1"
    by (rule runs_to_step[OF assms(1) refl refl ok runs_to_self[OF ok]])
  then show "case r of Ok a \<Rightarrow> runs_to (w_cap w) pc (w_cap w') (arrives a)
      | Err e \<Rightarrow> (\<exists>js. runs_to (w_cap w) pc (w_cap w') (Ended js)) | Killed \<Rightarrow> True"
    using followsD[OF assms(2) ok run] runs_to_trans by (cases r) fastforce+
qed

text \<open>An access to what is shared.\<close>

lemma follows_shared:
  assumes "\<And>c. rstep (desk_of c pc) None (desk_of (c\<lparr>cn_shared := snd (h (cn_shared c))\<rparr>) (mid (fst (h (cn_shared c)))))"
  shows "follows pc (from_shared h) mid"
proof (rule followsI)
  fix w r w' assume ok: "orders_ok (w_cap w)" and run: "from_shared h w = (r, w')"
  let ?c = "(w_cap w)\<lparr>cn_shared := snd (h (cn_shared (w_cap w)))\<rparr>"
  have "runs_to (w_cap w) pc ?c (mid (fst (h (cn_shared (w_cap w)))))"
    by (rule runs_to_step[OF assms _ _ ok runs_to_self]) (use ok in \<open>simp_all add: orders_ok_def\<close>)
  with run show "case r of Ok a \<Rightarrow> runs_to (w_cap w) pc (w_cap w') (mid a)
      | Err e \<Rightarrow> (\<exists>js. runs_to (w_cap w) pc (w_cap w') (Ended js)) | Killed \<Rightarrow> True"
    by (auto simp: from_shared_def split: prod.splits)
qed

lemma follows_send:
  assumes "a \<noteq> Read_anyway"
  shows "follows (Writing ev a) (send ev) (\<lambda>_. on_written a)"
proof (rule followsI)
  fix w r w' assume ok: "orders_ok (w_cap w)" and run: "send ev w = (r, w')"
  have "\<exists>js. on_broken a = Ended js" using assms by (cases a) auto
  then obtain js where js: "on_broken a = Ended js" by blast
  have written: "rstep (desk_of (w_cap w) (Writing ev a)) None
      (desk_of ((w_cap w)\<lparr>cn_writes := n, cn_out := cn_out (w_cap w) @ [ev]\<rparr>) (on_written a))" for n
    using rstep.writes[of "desk_of (w_cap w) (Writing ev a)" ev a] by (simp add: desk_of_def at_def)
  have broken: "rstep (desk_of (w_cap w) (Writing ev a)) None
      (desk_of ((w_cap w)\<lparr>cn_writes := n\<rparr>) (Ended js))" for n
    using rstep.breaks[of "desk_of (w_cap w) (Writing ev a)" ev a] by (simp add: desk_of_def at_def js)
  have "\<exists>js. runs_to (w_cap w) (Writing ev a) ((w_cap w)\<lparr>cn_writes := n\<rparr>) (Ended js)" for n
    using runs_to_step[OF broken[of n] _ _ ok runs_to_self] ok by (auto simp: orders_ok_def)
  then show "case r of Ok b \<Rightarrow> runs_to (w_cap w) (Writing ev a) (w_cap w') (on_written a)
      | Err e \<Rightarrow> (\<exists>js. runs_to (w_cap w) (Writing ev a) (w_cap w') (Ended js)) | Killed \<Rightarrow> True"
    using run ok runs_to_step[OF written _ _ ok runs_to_self]
    by (auto simp: send_def Let_def orders_ok_def split: option.splits)
qed

lemma follows_send_next [follows_intro]:
  assumes "a \<noteq> Read_anyway"
  shows "follows (Numbering f a) (send_next f) (\<lambda>_. on_written a)"
  unfolding send_next_def
proof (rule follows_bind[OF follows_shared follows_send[OF assms]])
  show "rstep (desk_of c (Numbering f a)) None
      (desk_of (c\<lparr>cn_shared := snd (next_seq (cn_shared c))\<rparr>) (Writing (f (fst (next_seq (cn_shared c)))) a))" for c
    using rstep.numbers[of "desk_of c (Numbering f a)" f a "fst (next_seq (cn_shared c))" "snd (next_seq (cn_shared c))"]
    by (simp add: desk_of_def at_def sharing_def)
qed

text \<open>The answer to a line that did not parse: whether it was written does not matter.\<close>

lemma follows_anyway:
  assumes "follows Reading m arrives"
  shows "follows (Numbering f Read_anyway) (io_discard (send_next f) m) arrives"
proof (rule followsI)
  fix w r w' assume ok: "orders_ok (w_cap w)" and run: "io_discard (send_next f) m w = (r, w')"
  obtain sr w1 where sr: "send_next f w = (sr, w1)" by fastforce
  let ?q = "fst (next_seq (cn_shared (w_cap w)))" and ?s = "snd (next_seq (cn_shared (w_cap w)))"
  let ?c = "(w_cap w)\<lparr>cn_shared := ?s\<rparr>"
  have numbered: "rstep (desk_of (w_cap w) (Numbering f Read_anyway)) None (desk_of ?c (Writing (f ?q) Read_anyway))"
    using rstep.numbers[of "desk_of (w_cap w) (Numbering f Read_anyway)" f Read_anyway ?q ?s]
    by (simp add: desk_of_def at_def sharing_def)
  have written: "rstep (desk_of ?c (Writing (f ?q) Read_anyway)) None
      (desk_of (?c\<lparr>cn_writes := n, cn_out := cn_out ?c @ [f ?q]\<rparr>) Reading)" for n
    using rstep.writes[of "desk_of ?c (Writing (f ?q) Read_anyway)" "f ?q" Read_anyway] by (simp add: desk_of_def at_def)
  have broken: "rstep (desk_of ?c (Writing (f ?q) Read_anyway)) None (desk_of (?c\<lparr>cn_writes := n\<rparr>) Reading)" for n
    using rstep.breaks[of "desk_of ?c (Writing (f ?q) Read_anyway)" "f ?q" Read_anyway] by (simp add: desk_of_def at_def)
  have c: "orders_ok ?c" using ok by (simp add: orders_ok_def)
  have "sr \<noteq> Killed \<and> runs_to ?c (Writing (f ?q) Read_anyway) (w_cap w1) Reading"
    using sr c runs_to_step[OF written _ _ c runs_to_self] runs_to_step[OF broken _ _ c runs_to_self]
    by (auto simp: send_next_def send_def from_shared_def io_bind_def io_match_def Let_def orders_ok_def
        split: option.splits prod.splits)
  then have there: "runs_to (w_cap w) (Numbering f Read_anyway) (w_cap w1) Reading" and sr': "sr \<noteq> Killed"
    using runs_to_step[OF numbered _ _ ok] by auto
  have "m w1 = (r, w')" using run sr sr' by (cases sr) (auto simp: io_discard_def io_match_def)
  moreover have "orders_ok (w_cap w1)" using there by (simp add: runs_to_def)
  ultimately show "case r of Ok a \<Rightarrow> runs_to (w_cap w) (Numbering f Read_anyway) (w_cap w') (arrives a)
      | Err e \<Rightarrow> (\<exists>js. runs_to (w_cap w) (Numbering f Read_anyway) (w_cap w') (Ended js)) | Killed \<Rightarrow> True"
    using followsD[OF assms] runs_to_trans[OF there] by (cases r) fastforce+
qed

text \<open>Computations that look at files only.\<close>

lemma follows_silent:
  assumes "silent m P" and "\<And>c w f w'. m w = (Ok f, w') \<Longrightarrow> rstep (desk_of c pc) None (desk_of c (arrives f))"
  shows "follows pc m arrives"
proof (rule followsI)
  fix w r w' assume ok: "orders_ok (w_cap w)" and run: "m w = (r, w')"
  have c: "w_cap w' = w_cap w" and ends: "\<And>e. r \<noteq> Err e"
    using assms(1) run by (auto simp: silent_def split: res.splits)
  have "runs_to (w_cap w) pc (w_cap w) (arrives a)" if "r = Ok a" for a
    by (rule runs_to_step[OF assms(2) refl refl ok runs_to_self[OF ok]]) (use run that in simp)
  with c ends show "case r of Ok a \<Rightarrow> runs_to (w_cap w) pc (w_cap w') (arrives a)
      | Err e \<Rightarrow> (\<exists>js. runs_to (w_cap w) pc (w_cap w') (Ended js)) | Killed \<Rightarrow> True"
    by (cases r) auto
qed

lemma question_silent: "file_answer req = Some m \<Longrightarrow> silent m (\<lambda>_. True)"
proof (induction req rule: file_answer.induct)
  case (3 i p)
  then show ?case using silent_answer_delete[of i p] by (auto simp: silent_def split: res.splits)
next
  case (4 i p n)
  then show ?case using silent_answer_rename[of i p n] by (auto simp: silent_def split: res.splits)
next
  case (5 i p)
  then show ?case using silent_answer_space[of i p] by (auto simp: silent_def split: res.splits)
next
  case (6 i p f)
  then show ?case using silent_answer_restore[of i p f] by (auto simp: silent_def split: res.splits)
qed (auto intro!: silent_intro)

lemma follows_question:
  assumes "file_answer req = Some m"
  shows "follows Reading (io_bind m send_next) (\<lambda>_. Reading)"
proof (rule follows_bind)
  show "follows Reading m (\<lambda>f. Numbering f Read_on)"
  proof (rule follows_silent[OF question_silent[OF assms]])
    show "rstep (desk_of c Reading) None (desk_of c (Numbering f Read_on))" if "m w = (Ok f, w')" for c w f w'
      using rstep.reads_question[OF _ assms that, of "desk_of c Reading"] by (simp add: desk_of_def at_def)
  qed
  show "follows (Numbering f Read_on) (send_next f) (\<lambda>_. Reading)" for f
    using follows_send_next[of Read_on f] by simp
qed

section \<open>Requests\<close>

lemma follows_reply:
  assumes "\<And>c. rstep (desk_of c pc) None (desk_of c (Numbering (\<lambda>q. Ev_Reply q i job err) a))" "a \<noteq> Read_anyway"
  shows "follows pc (reply i job err) (\<lambda>_. on_written a)"
  unfolding reply_def by (rule follows_at[OF assms(1) follows_send_next[OF assms(2)]])

lemma follows_put:
  "follows (Inserting i js) (from_shared (\<lambda>s. ((), put (js_base js) s)))
     (\<lambda>_. Numbering (\<lambda>q. Ev_Reply q i (Some (jv_job (js_base js))) None) (Then_spawn js))"
proof (rule followsI)
  fix w r w' assume ok: "orders_ok (w_cap w)" and run: "from_shared (\<lambda>s. ((), put (js_base js) s)) w = (r, w')"
  let ?c = "w_cap w" and ?pc = "Numbering (\<lambda>q. Ev_Reply q i (Some (jv_job (js_base js))) None) (Then_spawn js)"
  let ?c1 = "?c\<lparr>cn_shared := insert_row (js_base js) (cn_shared ?c)\<rparr>"
  let ?c2 = "?c\<lparr>cn_shared := put (js_base js) (cn_shared ?c)\<rparr>"
  have "rstep (desk_of ?c (Inserting i js)) None (desk_of ?c1 (Revising i js))"
    using rstep.inserts[of "desk_of ?c (Inserting i js)"] by (simp add: desk_of_def at_def sharing_def)
  moreover have "rstep (desk_of ?c1 (Revising i js)) None (desk_of ?c2 ?pc)"
    using rstep.bumps[of "desk_of ?c1 (Revising i js)"] by (simp add: desk_of_def at_def sharing_def put_halves)
  moreover have "orders_ok ?c1" "orders_ok ?c2" using ok by (simp_all add: orders_ok_def)
  ultimately have "runs_to ?c (Inserting i js) ?c2 ?pc"
    using ok by (auto intro!: runs_to_step[OF _ _ _ _ runs_to_step[OF _ _ _ _ runs_to_self]])
  with run show "case r of Ok a \<Rightarrow> runs_to ?c (Inserting i js) (w_cap w') ?pc
      | Err e \<Rightarrow> (\<exists>js'. runs_to ?c (Inserting i js) (w_cap w') (Ended js')) | Killed \<Rightarrow> True"
    by (auto simp: from_shared_def)
qed

lemma follows_spawn: "follows (Spawning js) (spawn js) (\<lambda>_. Reading)"
proof (rule followsI)
  fix w r w' assume ok: "orders_ok (w_cap w)" and run: "spawn js w = (r, w')"
  let ?c = "(w_cap w)\<lparr>cn_spawned := cn_spawned (w_cap w) @ [js]\<rparr>"
  have "rstep (desk_of (w_cap w) (Spawning js)) (Some js) (desk_of ?c Reading)"
    using rstep.spawns[of "desk_of (w_cap w) (Spawning js)" js] by (simp add: desk_of_def at_def)
  then have "rruns (desk_of (w_cap w) (Spawning js)) [js] (desk_of ?c Reading)" by (blast intro: rruns.intros)
  then have "runs_to (w_cap w) (Spawning js) ?c Reading" using ok by (auto simp: runs_to_def orders_ok_def)
  with run show "case r of Ok a \<Rightarrow> runs_to (w_cap w) (Spawning js) (w_cap w') Reading
      | Err e \<Rightarrow> (\<exists>js'. runs_to (w_cap w) (Spawning js) (w_cap w') (Ended js')) | Killed \<Rightarrow> True"
    by (auto simp: spawn_def on_cap_def)
qed

lemma follows_start_job: "follows Reading (start_job i sources d checksum rule is_move) (\<lambda>_. Reading)"
proof -
  have job: "follows Reading (from_shared next_job_id) (\<lambda>n. Sizing i (job_name n) sources d checksum rule is_move)"
  proof (rule follows_shared)
    show "rstep (desk_of c Reading) None (desk_of (c\<lparr>cn_shared := snd (next_job_id (cn_shared c))\<rparr>)
       (Sizing i (job_name (fst (next_job_id (cn_shared c)))) sources d checksum rule is_move))" for c
      using rstep.reads_transfer[of "desk_of c Reading"] by (simp add: desk_of_def at_def sharing_def)
  qed
  have sized: "follows (Sizing i job sources d checksum rule is_move) (sum_sizes sources 0)
      (\<lambda>n. Inserting i (new_job job sources d checksum rule is_move n))" for job
  proof (rule follows_silent[OF silent_sum_sizes])
    show "rstep (desk_of c (Sizing i job sources d checksum rule is_move)) None
        (desk_of c (Inserting i (new_job job sources d checksum rule is_move n)))"
      if "sum_sizes sources 0 w = (Ok n :: (io_error, u64) res, w')" for c n and w w' :: "conn world"
      using rstep.sizes[OF _ that, of "desk_of c (Sizing i job sources d checksum rule is_move)"]
      by (simp add: desk_of_def at_def)
  qed
  have rest: "follows (Inserting i js) (io_bind (from_shared (\<lambda>s. ((), put (js_base js) s))) (\<lambda>_.
      io_bind (reply i (Some (jv_job (js_base js))) None) (\<lambda>_. spawn js))) (\<lambda>_. Reading)" for js
    unfolding reply_def
    by (rule follows_bind[OF follows_put], rule follows_bind[OF follows_send_next]) (simp_all add: follows_spawn)
  have "start_job i sources d checksum rule is_move =
     io_bind (from_shared next_job_id) (\<lambda>n. io_bind (sum_sizes sources 0) (\<lambda>k.
       let js = new_job (job_name n) sources d checksum rule is_move k
       in io_bind (from_shared (\<lambda>s. ((), put (js_base js) s))) (\<lambda>_.
          io_bind (reply i (Some (jv_job (js_base js))) None) (\<lambda>_. spawn js))))"
    by (simp add: start_job_def new_job_def Let_def base_view_def)
  then show ?thesis
    unfolding Let_def by (simp only:) (rule follows_bind[OF job], rule follows_bind[OF sized], rule rest)
qed

lemma bind_assoc: "io_bind (io_bind m f) g = io_bind m (\<lambda>a. io_bind (f a) g)"
  by (rule ext) (auto simp: io_bind_def io_match_def fail_def split: prod.split res.split)

lemma bind_ret: "io_bind (ret a) f = f a"
  by (rule ext) (simp add: io_bind_def io_match_def ret_def)

lemma follows_state:
  "follows Drawing (io_bind (from_shared next_seq) (\<lambda>q. io_bind get_snapshot (\<lambda>jobs. send (Ev_State q jobs)))) (\<lambda>_. Reading)"
proof (rule follows_bind)
  show "follows Drawing (from_shared next_seq) Picturing"
  proof (rule follows_shared)
    show "rstep (desk_of c Drawing) None (desk_of (c\<lparr>cn_shared := snd (next_seq (cn_shared c))\<rparr>)
       (Picturing (fst (next_seq (cn_shared c)))))" for c
      using rstep.draws[of "desk_of c Drawing"] by (simp add: desk_of_def at_def sharing_def)
  qed
  show "follows (Picturing q) (io_bind get_snapshot (\<lambda>jobs. send (Ev_State q jobs))) (\<lambda>_. Reading)" for q
  proof (rule follows_bind)
    show "follows (Writing (Ev_State q jobs) Read_on) (send (Ev_State q jobs)) (\<lambda>_. Reading)" for jobs
      using follows_send[of Read_on "Ev_State q jobs"] by simp
    show "follows (Picturing q) get_snapshot (\<lambda>jobs. Writing (Ev_State q jobs) Read_on)"
    proof (rule followsI)
      fix w r w' assume ok: "orders_ok (w_cap w)" and run: "get_snapshot w = (r, w')"
      let ?js = "snapshot (cn_order (w_cap w) (cn_writes (w_cap w))) (cn_shared (w_cap w))"
      have "rstep (desk_of (w_cap w) (Picturing q)) None (desk_of (w_cap w) (Writing (Ev_State q ?js) Read_on))"
        using rstep.pictures[of "desk_of (w_cap w) (Picturing q)" q "cn_order (w_cap w) (cn_writes (w_cap w))"] ok
        by (simp add: desk_of_def at_def orders_ok_def)
      with run ok runs_to_step[OF this refl refl ok runs_to_self[OF ok]]
      show "case r of Ok a \<Rightarrow> runs_to (w_cap w) (Picturing q) (w_cap w') (Writing (Ev_State q a) Read_on)
        | Err e \<Rightarrow> (\<exists>js. runs_to (w_cap w) (Picturing q) (w_cap w') (Ended js)) | Killed \<Rightarrow> True"
        by (auto simp: get_snapshot_def)
    qed
  qed
qed

lemma follows_dispatch: "follows Reading (dispatch req) (\<lambda>_. Reading)"
proof (cases "file_answer req")
  case (Some m)
  then have "dispatch req = io_bind m send_next"
    by (cases req) (auto simp: bind_assoc bind_ret)
  then show ?thesis using follows_question[OF Some] by simp
next
  case None
  then show ?thesis
  proof (cases req)
    case (Req_Hello i v)
    show ?thesis unfolding Req_Hello dispatch.simps
      using follows_reply[of Reading i None None Read_on] rstep.reads_hello[of "desk_of c Reading" for c]
      by (simp add: desk_of_def at_def)
  next
    case (Req_State i)
    have "follows Reading (reply i None None) (\<lambda>_. Drawing)"
      using follows_reply[of Reading i None None Then_state] rstep.reads_state[of "desk_of c Reading" for c]
      by (simp add: desk_of_def at_def)
    then show ?thesis unfolding Req_State dispatch.simps by (rule follows_bind[OF _ follows_state])
  next
    case (Req_Release i job)
    have "follows Reading (from_shared (\<lambda>s. ((), remove job s))) (\<lambda>_. Numbering (\<lambda>q. Ev_Reply q i None None) Read_on)"
      by (rule follows_shared) (use rstep.reads_release[of "desk_of c Reading" for c] in \<open>simp add: desk_of_def at_def sharing_def\<close>)
    then show ?thesis unfolding Req_Release dispatch.simps reply_def
      by (rule follows_bind) (use follows_send_next[of Read_on] in simp)
  qed (auto simp: follows_start_job)
qed

lemma follows_lines: "follows Reading (handle_lines parse ls) (\<lambda>_. Reading)"
proof (induction ls)
  case Nil
  show ?case using follows_ret[of "\<lambda>_. Reading" "()"] by simp
next
  case (Cons l ls)
  have hang: "follows Reading (fail e :: (io_error, unit, conn) io) (\<lambda>_. Reading)" for e
  proof (rule followsI)
    fix w r w' assume ok: "orders_ok (w_cap w)" and run: "(fail e :: (io_error, unit, conn) io) w = (r, w')"
    have "rstep (desk_of (w_cap w) Reading) None (desk_of (w_cap w) (Ended None))"
      using rstep.hangs_up[of "desk_of (w_cap w) Reading"] by (simp add: desk_of_def at_def)
    from runs_to_step[OF this refl refl ok runs_to_self[OF ok]] run
    show "case r of Ok a \<Rightarrow> runs_to (w_cap w) Reading (w_cap w') Reading
      | Err e \<Rightarrow> (\<exists>js. runs_to (w_cap w) Reading (w_cap w') (Ended js)) | Killed \<Rightarrow> True"
      by (auto simp: fail_def)
  qed
  have garbage: "follows Reading (io_discard (reply 0 None (Some (''unparseable request: '' @ e))) (handle_lines parse ls)) (\<lambda>_. Reading)" for e
    unfolding reply_def
    by (rule follows_at[OF _ follows_anyway[OF Cons]])
      (use rstep.reads_garbage[of "desk_of c Reading" for c] in \<open>simp add: desk_of_def at_def\<close>)
  show ?case
    by (auto simp: hang garbage[simplified] Cons intro!: follows_bind[OF follows_dispatch Cons] split: sum.split)
qed

section \<open>Property\<close>

text \<open>
  C15. The reader thread is its machine. However many lines a client sends, whatever they say, whatever the
  disk answers and whichever write fails: the line loop, unless the process is killed, is a run of
  the step machine from reading to its end, with the same registry and counters, the same lines written
  to the client and the same Jobs spawned, in order. What holds of the machine between any two
  steps, whoever comes between, therefore holds of the code.
\<close>

theorem reader_is_the_machine:
  assumes "handle_lines parse ls w = (r, w')" "r \<noteq> Killed" "\<forall>n xs. mset (cn_order (w_cap w) n xs) = mset xs"
  shows "\<exists>js jss. rruns \<lparr>dk_shared = cn_shared (w_cap w), dk_pc = Reading, dk_out = cn_out (w_cap w)\<rparr> jss
      \<lparr>dk_shared = cn_shared (w_cap w'), dk_pc = Ended js, dk_out = cn_out (w_cap w')\<rparr>
    \<and> cn_spawned (w_cap w') = cn_spawned (w_cap w) @ jss"
proof -
  have ok: "orders_ok (w_cap w)" using assms(3) by (simp add: orders_ok_def)
  have last: "runs_to c Reading c (Ended None)" if "orders_ok c" for c
    by (rule runs_to_step[OF _ refl refl that runs_to_self[OF that]])
      (use rstep.hangs_up[of "desk_of c Reading"] in \<open>simp add: desk_of_def at_def\<close>)
  have "\<exists>js. runs_to (w_cap w) Reading (w_cap w') (Ended js)"
  proof (cases r)
    case (Ok a)
    with followsD[OF follows_lines ok assms(1)] have there: "runs_to (w_cap w) Reading (w_cap w') Reading" by simp
    then have "orders_ok (w_cap w')" by (simp add: runs_to_def)
    from runs_to_trans[OF there last[OF this]] show ?thesis by blast
  qed (use followsD[OF follows_lines ok assms(1)] assms(2) in auto)
  then show ?thesis by (auto simp: runs_to_def desk_of_def)
qed

text \<open>One line, which asks for a copy.\<close>

lemma reader_is_the_machine_witness:
  "\<exists>js jss k. rruns \<lparr>dk_shared = shared_new, dk_pc = Reading, dk_out = []\<rparr> jss k \<and> dk_pc k = Ended js \<and> length jss = 1"
proof -
  let ?ask = "\<lambda>_. Inr (Req_Copy 5 [''/src/a''] ''/dst'' False Skip)"
  have start: "start_job 5 [''/src/a''] ''/dst'' False Skip False lab_client = (Ok (), snd lab_started)"
    using lab_start_ends by (simp add: lab_started_def prod_eq_iff)
  have "trim ''copy'' \<noteq> []" by code_simp
  then have run: "handle_lines ?ask [Inr ''copy''] lab_client = (Ok (), snd lab_started)"
    using start by (simp add: io_bind_def io_match_def ret_def)
  obtain v where "job_started 5 [''/src/a''] ''/dst'' False Skip False (w_cap lab_client) v (w_cap (snd lab_started))"
    by (rule start_job_run[OF start]) simp_all
  then have "length (cn_spawned (w_cap (snd lab_started))) = 1"
    by (simp add: job_started_def lab_client_def lab_conn_def)
  with reader_is_the_machine[OF run] show ?thesis
    by (fastforce simp: lab_client_def lab_conn_def)
qed

end
