(* ===== verification/Writer.thy ===== *)
theory Writer
  imports Registry
begin

text \<open>
  The writer thread of a connection (\<open>handle\<close> of \<open>daemon/src/server.rs\<close>), from the opening snapshot
  on, as a state machine: one atomic step per access to something shared (the registry's lock, a
  counter, the socket), so that the other threads of the daemon can insert, bump, release and draw
  between any two of them (a put is two steps: the entry, then the revision). The specification is what the opening and the writer told of finished Jobs; the lines that
  the reader writes on the same socket are added in theory \<open>Serving\<close>.
\<close>

section \<open>The thread\<close>

datatype writer_pc =
    Greeting
  | Opened "job_view list"
  | Stating event
  | Spawned "string set"
  | Asleep
  | Beating
  | Picking
  | Sending "job_view list"
  | Posting event "job_view list"
  | Gone

record writer =
  wr_terminal_sent :: "string set"
  wr_last_revision :: u64
  wr_idle :: u64
  wr_pc :: writer_pc

record link =
  lk_shared :: shared
  lk_writer :: writer
  lk_out :: "event list"

definition terminal_ids :: "job_view list \<Rightarrow> string set" where
  "terminal_ids js = set (map jv_job (filter terminal js))"

definition idle_ticks_before_beat :: u64 where
  "idle_ticks_before_beat = COALESCE_HZ * HEARTBEAT_SECS"

text \<open>The event that tells of a Job.\<close>

definition job_event :: "u64 \<Rightarrow> job_view \<Rightarrow> event" where
  "job_event q j =
     (if jv_error j \<noteq> None then Ev_Failed q j
      else if jv_tier j \<noteq> None then Ev_Finished q j
      else Ev_Progress q j)"

text \<open>One tick: nothing new (and a heartbeat now and then), or something to tell.\<close>

definition wake :: "shared \<Rightarrow> writer \<Rightarrow> writer" where
  "wake s wr =
     (let rev = sh_revision s
      in if rev = wr_last_revision wr
         then if idle_ticks_before_beat \<le> wr_idle wr + 1
              then wr\<lparr>wr_idle := 0, wr_pc := Beating\<rparr> else wr\<lparr>wr_idle := wr_idle wr + 1\<rparr>
         else wr\<lparr>wr_last_revision := rev, wr_idle := 0, wr_pc := Picking\<rparr>)"

text \<open>A Job about to be told: a finished one counts as sent before it is.\<close>

definition note_sent :: "job_view \<Rightarrow> string set \<Rightarrow> string set" where
  "note_sent j sent = (if terminal j then insert (jv_job j) sent else sent)"

definition set_pc :: "writer_pc \<Rightarrow> link \<Rightarrow> link" where
  "set_pc pc l = l\<lparr>lk_writer := (lk_writer l)\<lparr>wr_pc := pc\<rparr>\<rparr>"

text \<open>\<open>next_seq\<close>, and the event that carries the number.\<close>

definition prepare :: "(u64 \<Rightarrow> event) \<Rightarrow> (event \<Rightarrow> writer_pc) \<Rightarrow> link \<Rightarrow> link" where
  "prepare f k l = (let (q, s) = next_seq (lk_shared l) in set_pc (k (f q)) (l\<lparr>lk_shared := s\<rparr>))"

text \<open>\<open>send\<close>: the line arrives, or the thread returns.\<close>

definition post :: "bool \<Rightarrow> event \<Rightarrow> writer_pc \<Rightarrow> link \<Rightarrow> link" where
  "post ok ev k l = (if ok then set_pc k (l\<lparr>lk_out := lk_out l @ [ev]\<rparr>) else set_pc Gone l)"

fun state_jobs :: "event \<Rightarrow> job_view list" where
  "state_jobs (Ev_State q js) = js"
| "state_jobs ev = []"

text \<open>One step; \<open>ord\<close> is the order of the hash map and \<open>ok\<close> whether the write succeeds.\<close>

definition writer_step :: "hash_order \<Rightarrow> bool \<Rightarrow> link \<Rightarrow> link option" where
  "writer_step ord ok l =
     (case wr_pc (lk_writer l) of
        Greeting \<Rightarrow> Some (set_pc (Opened (snapshot ord (lk_shared l))) l)
      | Opened js \<Rightarrow> Some (prepare (\<lambda>q. Ev_State q js) Stating l)
      | Stating ev \<Rightarrow> Some (post ok ev (Spawned (terminal_ids (state_jobs ev))) l)
      | Spawned already_terminal \<Rightarrow>
          Some (l\<lparr>lk_writer := \<lparr>wr_terminal_sent = already_terminal, wr_last_revision = sh_revision (lk_shared l),
                  wr_idle = 0, wr_pc = Asleep\<rparr>\<rparr>)
      | Asleep \<Rightarrow> Some (l\<lparr>lk_writer := wake (lk_shared l) (lk_writer l)\<rparr>)
      | Beating \<Rightarrow> Some (prepare Ev_Tick (\<lambda>ev. Posting ev []) l)
      | Picking \<Rightarrow> Some (set_pc (Sending (snapshot_for ord (wr_terminal_sent (lk_writer l)) (lk_shared l))) l)
      | Sending js \<Rightarrow>
          (case js of
             [] \<Rightarrow> Some (set_pc Asleep l)
           | j # js' \<Rightarrow>
               Some (prepare (\<lambda>q. job_event q j) (\<lambda>ev. Posting ev js')
                 (l\<lparr>lk_writer := (lk_writer l)\<lparr>wr_terminal_sent := note_sent j (wr_terminal_sent (lk_writer l))\<rparr>\<rparr>)))
      | Posting ev js \<Rightarrow> Some (post ok ev (Sending js) l)
      | Gone \<Rightarrow> None)"

section \<open>The daemon around it\<close>

definition a_hash_order :: "hash_order \<Rightarrow> bool" where
  "a_hash_order ord \<longleftrightarrow> (\<forall>xs. mset (ord xs) = mset xs)"

inductive step :: "link \<Rightarrow> link \<Rightarrow> bool" where
  another_inserts: "step l (l\<lparr>lk_shared := insert_row v (lk_shared l)\<rparr>)"
| another_bumps: "step l (l\<lparr>lk_shared := bump (lk_shared l)\<rparr>)"
| another_releases: "step l (l\<lparr>lk_shared := remove i (lk_shared l)\<rparr>)"
| another_draws_seq: "step l (l\<lparr>lk_shared := snd (next_seq (lk_shared l))\<rparr>)"
| another_draws_job: "step l (l\<lparr>lk_shared := snd (next_job_id (lk_shared l))\<rparr>)"
| the_writer: "a_hash_order ord \<Longrightarrow> writer_step ord ok l = Some l' \<Longrightarrow> step l l'"

definition link_new :: "shared \<Rightarrow> link" where
  "link_new s =
     \<lparr>lk_shared = s,
      lk_writer = \<lparr>wr_terminal_sent = {}, wr_last_revision = 0, wr_idle = 0, wr_pc = Greeting\<rparr>,
      lk_out = []\<rparr>"

inductive reachable :: "link \<Rightarrow> bool" where
  connect: "registry_ok s \<Longrightarrow> reachable (link_new s)"
| move: "reachable l \<Longrightarrow> step l l' \<Longrightarrow> reachable l'"

section \<open>What the client was told of finished Jobs\<close>

fun told_by :: "event \<Rightarrow> string list" where
  "told_by (Ev_State q js) = map jv_job (filter terminal js)"
| "told_by (Ev_Finished q j) = [jv_job j]"
| "told_by (Ev_Failed q j) = [jv_job j]"
| "told_by ev = []"

definition told :: "event list \<Rightarrow> string list" where
  "told evs = concat (map told_by evs)"

lemma told_snoc [simp]: "told (evs @ [ev]) = told evs @ told_by ev"
  by (simp add: told_def)

lemma told_Nil [simp]: "told [] = []"
  by (simp add: told_def)

lemma told_by_job_event [simp]: "told_by (job_event q j) = (if terminal j then [jv_job j] else [])"
  by (auto simp: job_event_def terminal_def)

text \<open>The Jobs still to be sent in a tick: each once, and no finished one that was already told.\<close>

definition fresh :: "string set \<Rightarrow> job_view list \<Rightarrow> bool" where
  "fresh sent js \<longleftrightarrow> distinct (map jv_job js) \<and> (\<forall>j \<in> set js. terminal j \<longrightarrow> jv_job j \<notin> sent)"

lemma fresh_pick:
  assumes "registry_ok s" "a_hash_order ord"
  shows "fresh sent (snapshot_for ord sent s)"
proof -
  have "distinct (map jv_job (snapshot ord s))"
    by (rule snapshot_distinct[OF assms(1)]) (use assms(2) in \<open>simp add: a_hash_order_def\<close>)
  then show ?thesis
    by (auto simp: fresh_def snapshot_for_filter intro: distinct_map_filter)
qed

lemma fresh_Cons: "fresh sent (j # js) \<Longrightarrow> fresh (note_sent j sent) js \<and> (terminal j \<longrightarrow> jv_job j \<notin> sent)"
  by (force simp: fresh_def note_sent_def image_iff)

definition pc_ok :: "writer \<Rightarrow> event list \<Rightarrow> bool" where
  "pc_ok wr out \<longleftrightarrow>
     (case wr_pc wr of
        Greeting \<Rightarrow> out = []
      | Opened js \<Rightarrow> out = [] \<and> distinct (map jv_job js)
      | Stating ev \<Rightarrow> out = [] \<and> distinct (told_by ev) \<and> terminal_ids (state_jobs ev) = set (told_by ev)
      | Spawned ids \<Rightarrow> ids = set (told out)
      | Sending js \<Rightarrow> wr_terminal_sent wr = set (told out) \<and> fresh (wr_terminal_sent wr) js
      | Posting ev js \<Rightarrow>
          wr_terminal_sent wr = set (told (out @ [ev])) \<and> distinct (told (out @ [ev]))
          \<and> fresh (wr_terminal_sent wr) js
      | Gone \<Rightarrow> True
      | _ \<Rightarrow> wr_terminal_sent wr = set (told out))"

definition link_ok :: "link \<Rightarrow> bool" where
  "link_ok l \<longleftrightarrow> registry_ok (lk_shared l) \<and> distinct (told (lk_out l)) \<and> pc_ok (lk_writer l) (lk_out l)"

lemma registry_ok_counters [simp]:
  "registry_ok (snd (next_seq s)) = registry_ok s" "registry_ok (snd (next_job_id s)) = registry_ok s"
  "registry_ok (s\<lparr>sh_seq := n\<rparr>) = registry_ok s"
  by (simp_all add: registry_ok_def next_seq_def next_job_id_def)

lemma link_ok_writer:
  assumes ok: "link_ok l" and ord: "a_hash_order ord" and run: "writer_step ord sound l = Some l'"
  shows "link_ok l'"
proof (cases "wr_pc (lk_writer l)")
  case Greeting
  have "distinct (map jv_job (snapshot ord (lk_shared l)))"
    by (rule snapshot_distinct) (use ok ord in \<open>auto simp: link_ok_def a_hash_order_def\<close>)
  with Greeting assms show ?thesis by (auto simp: link_ok_def pc_ok_def writer_step_def set_pc_def)
next
  case (Opened js)
  with assms show ?thesis
    by (auto simp: link_ok_def pc_ok_def writer_step_def prepare_def next_seq_def set_pc_def terminal_ids_def
        intro: distinct_map_filter)
next
  case (Stating ev)
  with assms show ?thesis
    by (auto simp: link_ok_def pc_ok_def writer_step_def post_def set_pc_def told_def)
next
  case (Spawned ids)
  with assms show ?thesis by (auto simp: link_ok_def pc_ok_def writer_step_def)
next
  case Asleep
  with assms show ?thesis by (auto simp: link_ok_def pc_ok_def writer_step_def wake_def Let_def)
next
  case Beating
  with assms show ?thesis
    by (auto simp: link_ok_def pc_ok_def writer_step_def prepare_def next_seq_def set_pc_def fresh_def)
next
  case Picking
  with assms fresh_pick show ?thesis by (auto simp: link_ok_def pc_ok_def writer_step_def set_pc_def)
next
  case (Sending js)
  show ?thesis
  proof (cases js)
    case Nil
    with Sending assms show ?thesis by (auto simp: link_ok_def pc_ok_def writer_step_def set_pc_def)
  next
    case (Cons j js')
    have "pc_ok (lk_writer l) (lk_out l)" using ok by (simp add: link_ok_def)
    then have f: "fresh (wr_terminal_sent (lk_writer l)) (j # js')"
      unfolding pc_ok_def Sending Cons writer_pc.case by blast
    from Sending Cons assms fresh_Cons[OF f] show ?thesis
      by (auto simp: link_ok_def pc_ok_def writer_step_def prepare_def next_seq_def set_pc_def note_sent_def)
  qed
next
  case (Posting ev js)
  with assms show ?thesis by (auto simp: link_ok_def pc_ok_def writer_step_def post_def set_pc_def)
next
  case Gone
  with run show ?thesis by (simp add: writer_step_def)
qed

lemma link_ok_step: "step l l' \<Longrightarrow> link_ok l \<Longrightarrow> link_ok l'"
proof (induction rule: step.induct)
  case (the_writer ord ok l l')
  then show ?case by (blast intro: link_ok_writer)
qed (auto simp: link_ok_def halves_keep intro: registry_ok_remove)

lemma reachable_ok: "reachable l \<Longrightarrow> link_ok l"
proof (induction rule: reachable.induct)
  case (connect s)
  then show ?case by (simp add: link_ok_def link_new_def pc_ok_def)
qed (rule link_ok_step)

section \<open>A tick, when nobody interferes\<close>

primrec run_writer :: "hash_order \<Rightarrow> nat \<Rightarrow> link \<Rightarrow> link" where
  "run_writer ord 0 l = l"
| "run_writer ord (Suc n) l =
     run_writer ord n (case writer_step ord True l of Some l' \<Rightarrow> l' | None \<Rightarrow> l)"

lemma run_sending:
  assumes "wr_pc (lk_writer l) = Sending js"
  shows "\<exists>qs l'. run_writer ord (Suc (2 * length js)) l = l' \<and> wr_pc (lk_writer l') = Asleep
    \<and> lk_out l' = lk_out l @ map2 job_event qs js \<and> length qs = length js
    \<and> sh_jobs (lk_shared l') = sh_jobs (lk_shared l) \<and> sh_revision (lk_shared l') = sh_revision (lk_shared l)
    \<and> wr_last_revision (lk_writer l') = wr_last_revision (lk_writer l)
    \<and> wr_terminal_sent (lk_writer l') = wr_terminal_sent (lk_writer l) \<union> terminal_ids js"
  using assms
proof (induction js arbitrary: l)
  case Nil
  then show ?case
    by (auto simp: writer_step_def set_pc_def terminal_ids_def)
next
  case (Cons j js)
  let ?q = "sh_seq (lk_shared l)"
  let ?l = "l\<lparr>lk_shared := snd (next_seq (lk_shared l)), lk_out := lk_out l @ [job_event ?q j],
     lk_writer := (lk_writer l)\<lparr>wr_terminal_sent := note_sent j (wr_terminal_sent (lk_writer l)), wr_pc := Sending js\<rparr>\<rparr>"
  have two: "run_writer ord (Suc (2 * length (j # js))) l = run_writer ord (Suc (2 * length js)) ?l"
    using Cons.prems
    by (simp add: writer_step_def prepare_def next_seq_def set_pc_def post_def)
  from Cons.IH[of ?l] obtain qs l' where "run_writer ord (Suc (2 * length js)) ?l = l'"
    "wr_pc (lk_writer l') = Asleep" "lk_out l' = lk_out ?l @ map2 job_event qs js" "length qs = length js"
    "sh_jobs (lk_shared l') = sh_jobs (lk_shared ?l)" "sh_revision (lk_shared l') = sh_revision (lk_shared ?l)"
    "wr_last_revision (lk_writer l') = wr_last_revision (lk_writer ?l)"
    "wr_terminal_sent (lk_writer l') = wr_terminal_sent (lk_writer ?l) \<union> terminal_ids js"
    by auto
  with two show ?case
    by (intro exI[of _ "?q # qs"] exI[of _ l'])
      (auto simp: next_seq_def note_sent_def terminal_ids_def)
qed

lemma tick_runs:
  assumes "wr_pc (lk_writer l) = Asleep" "sh_revision (lk_shared l) \<noteq> wr_last_revision (lk_writer l)"
  shows "\<exists>qs l'. run_writer ord (2 * length (snapshot_for ord (wr_terminal_sent (lk_writer l)) (lk_shared l)) + 3) l = l'
    \<and> wr_pc (lk_writer l') = Asleep
    \<and> lk_out l' = lk_out l @ map2 job_event qs (snapshot_for ord (wr_terminal_sent (lk_writer l)) (lk_shared l))
    \<and> length qs = length (snapshot_for ord (wr_terminal_sent (lk_writer l)) (lk_shared l))
    \<and> sh_jobs (lk_shared l') = sh_jobs (lk_shared l) \<and> sh_revision (lk_shared l') = sh_revision (lk_shared l)
    \<and> wr_last_revision (lk_writer l') = sh_revision (lk_shared l)
    \<and> wr_terminal_sent (lk_writer l') = wr_terminal_sent (lk_writer l)
        \<union> terminal_ids (snapshot_for ord (wr_terminal_sent (lk_writer l)) (lk_shared l))"
proof -
  let ?js = "snapshot_for ord (wr_terminal_sent (lk_writer l)) (lk_shared l)"
  let ?l = "l\<lparr>lk_writer := (lk_writer l)\<lparr>wr_last_revision := sh_revision (lk_shared l), wr_idle := 0, wr_pc := Sending ?js\<rparr>\<rparr>"
  have "run_writer ord (Suc (Suc (Suc (2 * length ?js)))) l = run_writer ord (Suc (2 * length ?js)) ?l"
    using assms by (simp add: writer_step_def wake_def Let_def set_pc_def)
  with run_sending[of ?l ?js ord] show ?thesis by (simp add: numeral_3_eq_3)
qed

lemma tick_tells:
  assumes "registry_ok (lk_shared l)" "a_hash_order ord"
    and "wr_pc (lk_writer l) = Asleep" "sh_revision (lk_shared l) \<noteq> wr_last_revision (lk_writer l)"
  shows "\<exists>qs l'. run_writer ord (2 * length (snapshot_for ord (wr_terminal_sent (lk_writer l)) (lk_shared l)) + 3) l = l'
    \<and> wr_pc (lk_writer l') = Asleep
    \<and> lk_out l' = lk_out l @ map2 job_event qs (snapshot_for ord (wr_terminal_sent (lk_writer l)) (lk_shared l))
    \<and> length qs = length (snapshot_for ord (wr_terminal_sent (lk_writer l)) (lk_shared l))
    \<and> wr_last_revision (lk_writer l') = sh_revision (lk_shared l')
    \<and> (\<forall>i v. lookup_job (lk_shared l') i = Some v \<and> terminal v \<longrightarrow> i \<in> wr_terminal_sent (lk_writer l'))"
proof -
  let ?js = "snapshot_for ord (wr_terminal_sent (lk_writer l)) (lk_shared l)"
  obtain qs l' where l': "run_writer ord (2 * length ?js + 3) l = l'" "wr_pc (lk_writer l') = Asleep"
    "lk_out l' = lk_out l @ map2 job_event qs ?js" "length qs = length ?js" "sh_jobs (lk_shared l') = sh_jobs (lk_shared l)"
    "sh_revision (lk_shared l') = sh_revision (lk_shared l)"
    "wr_last_revision (lk_writer l') = sh_revision (lk_shared l)"
    "wr_terminal_sent (lk_writer l') = wr_terminal_sent (lk_writer l) \<union> terminal_ids ?js"
    using tick_runs[OF assms(3,4)] by blast
  moreover have "i \<in> wr_terminal_sent (lk_writer l')"
    if "lookup_job (lk_shared l') i = Some v" "terminal v" for i v
  proof -
    have "lookup_job (lk_shared l) i = Some v" using that(1) l'(5) by (simp add: lookup_job_def)
    moreover from this have "jv_job v = i"
      using assms(1) by (auto simp: lookup_job_def registry_ok_def dest: map_of_SomeD)
    ultimately have "v \<in> set (snapshot ord (lk_shared l))" "jv_job v = i"
      using snapshot_set[of "lk_shared l" ord v] assms(1,2) by (auto simp: a_hash_order_def)
    with that(2) l'(8) show ?thesis by (auto simp: snapshot_for_filter terminal_ids_def)
  qed
  ultimately show ?thesis by (intro exI[of _ qs] exI[of _ l']) simp
qed

section \<open>Properties\<close>

text \<open>
  What the opening and the writer have told of: each finished Job at most once, and between two sends the
  ids the writer counts as delivered are exactly those. (The \<open>State\<close> lines a client asks for are the
  reader's; theory \<open>Serving\<close> puts the two together.)
\<close>

lemma delivered_is_told:
  assumes "reachable l"
  shows "distinct (told (lk_out l))
    \<and> (wr_pc (lk_writer l) \<in> {Asleep, Beating, Picking} \<longrightarrow> wr_terminal_sent (lk_writer l) = set (told (lk_out l)))"
  using reachable_ok[OF assms] by (auto simp: link_ok_def pc_ok_def)

text \<open>The lines themselves: first the opening \<open>State\<close>, and a completion line only for a row that has ended so.\<close>

fun line_is_true :: "event \<Rightarrow> bool" where
  "line_is_true (Ev_Finished q v) \<longleftrightarrow> jv_error v = None \<and> jv_tier v \<noteq> None"
| "line_is_true (Ev_Failed q v) \<longleftrightarrow> jv_error v \<noteq> None"
| "line_is_true ev \<longleftrightarrow> True"

lemma job_event_true: "line_is_true (job_event q v)"
  by (simp add: job_event_def)

definition opens_with_state :: "event list \<Rightarrow> bool" where
  "opens_with_state evs \<longleftrightarrow> (\<exists>q js rest. evs = Ev_State q js # rest)"

lemma opens_with_state_more: "opens_with_state evs \<Longrightarrow> opens_with_state (evs @ evs2)"
  by (auto simp: opens_with_state_def)

definition lines_ok :: "writer \<Rightarrow> event list \<Rightarrow> bool" where
  "lines_ok wr out \<longleftrightarrow> (\<forall>ev \<in> set out. line_is_true ev) \<and>
     (case wr_pc wr of
        Greeting \<Rightarrow> out = []
      | Opened js \<Rightarrow> out = []
      | Stating ev \<Rightarrow> out = [] \<and> opens_with_state [ev]
      | Posting ev js \<Rightarrow> opens_with_state out \<and> line_is_true ev
      | Gone \<Rightarrow> out = [] \<or> opens_with_state out
      | _ \<Rightarrow> opens_with_state out)"

lemma lines_ok_writer:
  assumes "writer_step ord ok l = Some l'" "lines_ok (lk_writer l) (lk_out l)"
  shows "lines_ok (lk_writer l') (lk_out l')"
proof (cases "wr_pc (lk_writer l)")
  case (Posting ev js)
  with assms show ?thesis
    by (cases ok) (auto simp: lines_ok_def writer_step_def post_def set_pc_def intro: opens_with_state_more)
next
  case (Stating ev)
  with assms show ?thesis
    by (cases ok) (auto simp: lines_ok_def writer_step_def post_def set_pc_def opens_with_state_def)
qed (use assms in \<open>auto simp: lines_ok_def writer_step_def prepare_def next_seq_def set_pc_def wake_def Let_def job_event_true
      opens_with_state_def split: list.splits\<close>)

lemma lines_ok_step: "step l l' \<Longrightarrow> lines_ok (lk_writer l) (lk_out l) \<Longrightarrow> lines_ok (lk_writer l') (lk_out l')"
proof (induction rule: step.induct)
  case (the_writer ord ok l l')
  then show ?case by (blast intro: lines_ok_writer)
qed simp_all

lemma reachable_lines: "reachable l \<Longrightarrow> lines_ok (lk_writer l) (lk_out l)"
proof (induction rule: reachable.induct)
  case (connect s)
  then show ?case by (simp add: lines_ok_def link_new_def)
qed (rule lines_ok_step)

text \<open>The line a Job is due.\<close>

fun tells :: "job_view \<Rightarrow> event \<Rightarrow> bool" where
  "tells v (Ev_Failed q u) \<longleftrightarrow> u = v \<and> jv_error v \<noteq> None"
| "tells v (Ev_Finished q u) \<longleftrightarrow> u = v \<and> jv_error v = None \<and> jv_tier v \<noteq> None"
| "tells v (Ev_Progress q u) \<longleftrightarrow> u = v \<and> jv_error v = None \<and> jv_tier v = None"
| "tells v ev \<longleftrightarrow> False"

lemma job_events_tell: "length qs = length js \<Longrightarrow> list_all2 tells js (map2 job_event qs js)"
  by (auto simp: list_all2_conv_all_nth job_event_def)

text \<open>
  C18. A changed registry is told in full. When the writer wakes and the revision has moved, then
  within twice as many steps as there are Jobs to tell (and three more), if no write fails and no
  other thread comes between, it sends one line for every Job of the registry that is still running
  (no error and no tier) or was not told yet, and for no other: failed where the row has an error,
  finished where it has a tier and none, progress where it has neither, each with the row as it
  stands. Then it is asleep again, has noted the revision, and counts the finished ones as told.
\<close>

theorem dirty_tick_tells_everything:
  assumes "registry_ok (lk_shared l)" "a_hash_order ord"
    and "wr_pc (lk_writer l) = Asleep" "sh_revision (lk_shared l) \<noteq> wr_last_revision (lk_writer l)"
  shows "\<exists>vs evs l'. set vs = {v. lookup_job (lk_shared l) (jv_job v) = Some v
        \<and> (jv_error v = None \<and> jv_tier v = None \<or> jv_job v \<notin> wr_terminal_sent (lk_writer l))}
    \<and> distinct (map jv_job vs) \<and> list_all2 tells vs evs
    \<and> run_writer ord (2 * length vs + 3) l = l' \<and> lk_out l' = lk_out l @ evs
    \<and> wr_pc (lk_writer l') = Asleep \<and> wr_last_revision (lk_writer l') = sh_revision (lk_shared l)
    \<and> lookup_job (lk_shared l') = lookup_job (lk_shared l) \<and> sh_revision (lk_shared l') = sh_revision (lk_shared l)
    \<and> wr_terminal_sent (lk_writer l') = wr_terminal_sent (lk_writer l)
        \<union> {jv_job v | v. v \<in> set vs \<and> (jv_error v \<noteq> None \<or> jv_tier v \<noteq> None)}"
proof -
  let ?js = "snapshot_for ord (wr_terminal_sent (lk_writer l)) (lk_shared l)"
  obtain qs l' where run: "run_writer ord (2 * length ?js + 3) l = l'" "wr_pc (lk_writer l') = Asleep"
    "lk_out l' = lk_out l @ map2 job_event qs ?js" "length qs = length ?js"
    and kept: "sh_jobs (lk_shared l') = sh_jobs (lk_shared l)" "sh_revision (lk_shared l') = sh_revision (lk_shared l)"
    "wr_last_revision (lk_writer l') = sh_revision (lk_shared l)"
    "wr_terminal_sent (lk_writer l') = wr_terminal_sent (lk_writer l) \<union> terminal_ids ?js"
    using tick_runs[OF assms(3,4)] by blast
  have "fresh (wr_terminal_sent (lk_writer l)) ?js" by (rule fresh_pick[OF assms(1,2)])
  then have "distinct (map jv_job ?js)" by (simp add: fresh_def)
  moreover have "set ?js = {v. lookup_job (lk_shared l) (jv_job v) = Some v
        \<and> (jv_error v = None \<and> jv_tier v = None \<or> jv_job v \<notin> wr_terminal_sent (lk_writer l))}"
    using snapshot_set[OF assms(1), of ord] assms(2)
    by (auto simp: snapshot_for_filter a_hash_order_def terminal_def)
  moreover have "terminal_ids ?js = {jv_job v | v. v \<in> set ?js \<and> (jv_error v \<noteq> None \<or> jv_tier v \<noteq> None)}"
    by (auto simp: terminal_ids_def terminal_def)
  ultimately show ?thesis
    using run kept job_events_tell[OF run(4)]
    by (intro exI[of _ ?js] exI[of _ "map2 job_event qs ?js"] exI[of _ l']) (simp add: lookup_job_def)
qed

section \<open>A completion that is never told\<close>











text \<open>A Job that ends between the opening snapshot and the start of the writer's loop.\<close>

definition late_job :: job_view where
  "late_job =
     \<lparr>jv_job = ''j1'', jv_label = ''a'', jv_file = ''a'', jv_source = ''/src/a'', jv_destination = ''/dst'',
      jv_phase = Some Copying, jv_done = fraction_zero, jv_files_done = 0, jv_files_total = 1,
      jv_files_skipped = 0, jv_files_replaced = 0, jv_files_skipped_existing = 0, jv_bytes = 0,
      jv_expected = 5, jv_outcome = None, jv_tier = None, jv_strength = None, jv_detail = None,
      jv_landed_as = [], jv_error = None\<rparr>"

definition late_end :: job_view where
  "late_end = late_job\<lparr>jv_phase := None, jv_done := fraction_one, jv_files_done := 1, jv_bytes := 5,
     jv_outcome := Some ''copied'', jv_tier := Some ''Copied''\<rparr>"

definition late_opening :: link where
  "late_opening = run_writer id 1 (link_new (put late_job shared_new))"

definition put_row :: "job_view \<Rightarrow> link \<Rightarrow> link" where
  "put_row v l = l\<lparr>lk_shared := put v (lk_shared l)\<rparr>"

definition late_link :: link where
  "late_link = run_writer id 3 (put_row late_end late_opening)"

lemma reachable_run: "reachable l \<Longrightarrow> a_hash_order ord \<Longrightarrow> reachable (run_writer ord n l)"
proof (induction n arbitrary: l)
  case (Suc n)
  show ?case
  proof (cases "writer_step ord True l")
    case (Some l')
    have "reachable l'" by (rule reachable.move[OF Suc.prems(1) step.the_writer[OF Suc.prems(2) Some]])
    with Suc Some show ?thesis by simp
  qed (use Suc in simp)
qed simp

lemma reachable_put: "reachable l \<Longrightarrow> reachable (put_row v l)"
  using reachable.move[OF reachable.move[OF _ step.another_inserts] step.another_bumps, of l v]
  by (simp add: put_row_def put_halves)

lemma late_reachable: "reachable late_opening" "reachable late_link"
proof -
  have id: "a_hash_order id" by (simp add: a_hash_order_def)
  have "registry_ok (put late_job shared_new)"
    by (rule registry_ok_put) (simp add: registry_ok_def shared_new_def)
  then show o: "reachable late_opening"
    unfolding late_opening_def by (intro reachable_run[OF _ id] reachable.connect)
  show "reachable late_link"
    unfolding late_link_def by (intro reachable_run[OF _ id] reachable_put o)
qed



text \<open>
  A snapshot is the registry: every Job the daemon holds, each once, and nothing else, in
  whatever order the map gives; a put shows the new view in place of any older one of its id and
  leaves the others, and a released Job is gone from it.
\<close>

theorem snapshot_is_the_registry:
  assumes "registry_ok s" "\<forall>xs. mset (ord xs) = mset xs"
  shows "set (snapshot ord s) = ran (lookup_job s) \<and> distinct (map jv_job (snapshot ord s))
    \<and> set (snapshot ord (put v s)) = insert v {j \<in> set (snapshot ord s). jv_job j \<noteq> jv_job v}
    \<and> set (snapshot ord (remove i s)) = {j \<in> set (snapshot ord s). jv_job j \<noteq> i}"
proof (intro conjI)
  show "set (snapshot ord s) = ran (lookup_job s)" by (rule snapshot_ran[OF assms])
  show "distinct (map jv_job (snapshot ord s))" by (rule snapshot_distinct[OF assms(1)]) (use assms(2) in blast)
  show "set (snapshot ord (put v s)) = insert v {j \<in> set (snapshot ord s). jv_job j \<noteq> jv_job v}"
    unfolding snapshot_ran[OF registry_ok_put[OF assms(1)] assms(2)] snapshot_ran[OF assms] registry.look_ins
    using ran_ids[OF assms(1)] by (auto simp: ran_def)
  show "set (snapshot ord (remove i s)) = {j \<in> set (snapshot ord s). jv_job j \<noteq> i}"
    unfolding snapshot_ran[OF registry_ok_remove[OF assms(1)] assms(2)] snapshot_ran[OF assms] registry.look_del
    using ran_ids[OF assms(1)] by (auto simp: ran_def)
qed

section \<open>Witnesses\<close>

text \<open>A tick with something to tell: the finished Job of above, and one that runs.\<close>

definition other_job :: job_view where
  "other_job = late_job\<lparr>jv_job := ''j2''\<rparr>"

definition busy_link :: link where
  "busy_link = put_row other_job (put_row late_end late_link)"

lemma busy_state:
  "wr_pc (lk_writer busy_link) = Asleep" "sh_revision (lk_shared busy_link) = 4" "wr_last_revision (lk_writer busy_link) = 2"
  "wr_terminal_sent (lk_writer busy_link) = {}"
  "lookup_job (lk_shared busy_link) ''j1'' = Some late_end" "lookup_job (lk_shared busy_link) ''j2'' = Some other_job"
  by code_simp+


lemma dirty_tick_tells_everything_witness:
  "\<exists>n evs. lk_out (run_writer id n busy_link) = lk_out busy_link @ evs
     \<and> (\<exists>ev \<in> set evs. tells late_end ev) \<and> (\<exists>ev \<in> set evs. tells other_job ev)"
proof -
  have ok: "registry_ok (lk_shared busy_link)"
    using reachable_ok[OF reachable_put[OF reachable_put[OF late_reachable(2)]]] by (simp add: busy_link_def link_ok_def)
  obtain vs evs where vs: "set vs = {v. lookup_job (lk_shared busy_link) (jv_job v) = Some v
        \<and> (jv_error v = None \<and> jv_tier v = None \<or> jv_job v \<notin> {})}" "list_all2 tells vs evs"
    and run: "lk_out (run_writer id (2 * length vs + 3) busy_link) = lk_out busy_link @ evs"
    using dirty_tick_tells_everything[OF ok, of id, unfolded busy_state(1-4)] by (auto simp: a_hash_order_def)
  have "late_end \<in> set vs" "other_job \<in> set vs"
    using vs(1) busy_state(5,6) by (simp_all add: late_end_def other_job_def late_job_def)
  then have "(\<exists>ev \<in> set evs. tells late_end ev) \<and> (\<exists>ev \<in> set evs. tells other_job ev)"
    using vs(2) by (force simp: list_all2_conv_all_nth in_set_conv_nth)
  with run show ?thesis by blast
qed

lemma snapshot_is_the_registry_witness:
  "set (snapshot rev (put late_job shared_new)) = {late_job}"
  using snapshot_is_the_registry[of shared_new rev late_job]
  by (auto simp: registry_ok_def shared_new_def snapshot_def)

end
