(* ===== verification/Rows.thy ===== *)
theory Rows
  imports Jobs Writer
begin

text \<open>
  The shape of a row: which fields of a \<open>JobView\<close> go together. The registry is untyped in this
  respect (\<open>Option\<close> fields side by side), and the event a client is sent is chosen from two of
  them. A Job's thread keeps every row in one of three shapes, whatever the disk does and
  wherever it is killed.
\<close>

section \<open>Three shapes\<close>

definition running_row :: "job_view \<Rightarrow> bool" where
  "running_row v \<longleftrightarrow> jv_phase v \<noteq> None \<and> jv_outcome v = None \<and> jv_tier v = None \<and> jv_strength v = None
     \<and> jv_detail v = None \<and> jv_landed_as v = [] \<and> jv_error v = None"

definition finished_row :: "job_view \<Rightarrow> bool" where
  "finished_row v \<longleftrightarrow> jv_phase v = None \<and> jv_done v = fraction_one \<and> jv_tier v \<noteq> None \<and> jv_detail v \<noteq> None
     \<and> jv_outcome v \<in> {Some ''moved'', Some ''copied'', Some ''skipped''}
     \<and> (jv_strength v \<noteq> None \<longleftrightarrow> jv_outcome v = Some ''copied'') \<and> jv_error v = None"

definition failed_row :: "job_view \<Rightarrow> bool" where
  "failed_row v \<longleftrightarrow> jv_outcome v = Some ''failed'' \<and> jv_error v \<noteq> None \<and> jv_tier v = None \<and> jv_strength v = None
     \<and> jv_detail v = None"

definition well_formed :: "job_view \<Rightarrow> bool" where
  "well_formed v \<longleftrightarrow> running_row v \<or> finished_row v \<or> failed_row v"

lemmas row_defs = running_row_def finished_row_def failed_row_def

lemma shapes_exclude:
  "running_row v \<Longrightarrow> \<not> finished_row v \<and> \<not> failed_row v" "finished_row v \<Longrightarrow> \<not> running_row v \<and> \<not> failed_row v"
  "failed_row v \<Longrightarrow> \<not> running_row v \<and> \<not> finished_row v"
  by (auto simp: row_defs)

text \<open>The event follows the shape.\<close>

lemma event_of_shape:
  "running_row v \<Longrightarrow> job_event q v = Ev_Progress q v" "finished_row v \<Longrightarrow> job_event q v = Ev_Finished q v"
  "failed_row v \<Longrightarrow> job_event q v = Ev_Failed q v"
  by (auto simp: row_defs job_event_def)

section \<open>The views a Job puts\<close>

lemma running_base: "running_row (base_view job ss d n)"
  by (simp add: running_row_def base_view_def)

lemma running_file: "running_row (js_base js) \<Longrightarrow> running_row (file_view js source t)"
  by (simp add: running_row_def file_view_def)

lemma finished_done: "running_row (js_base js) \<Longrightarrow> finished_row (done_view js t)"
  by (auto simp: row_defs done_view_def tally_finish_def Let_def split: option.split)

lemma failed_failed: "running_row v \<Longrightarrow> failed_row (failed_view js v t idx err)"
  by (simp add: row_defs failed_view_def)

lemma failed_journal: "running_row (js_base js) \<Longrightarrow> failed_row (journal_failed_view js err)"
  by (simp add: row_defs journal_failed_view_def)

definition rows_ok :: "shared \<Rightarrow> bool" where
  "rows_ok s \<longleftrightarrow> (\<forall>v \<in> ran (lookup_job s). well_formed v)"

lemma rows_ok_put: "rows_ok s \<Longrightarrow> well_formed v \<Longrightarrow> rows_ok (put v s)"
  by (auto simp: rows_ok_def registry.look_ins ran_def split: if_splits)

lemma rows_ok_remove: "rows_ok s \<Longrightarrow> rows_ok (remove i s)"
  by (auto simp: rows_ok_def registry.look_del ran_def split: if_splits)

lemma report_rows: "running_row v \<Longrightarrow> calls_keep rows_ok (report js v n)"
  unfolding calls_keep_def report_to_def by (auto intro!: rows_ok_put simp: well_formed_def running_row_def)

lemma cap_put_row: "well_formed v \<Longrightarrow> cap_keeps rows_ok (on_cap (put v))"
  by (rule cap_keepsI) (auto simp: on_cap_def rows_ok_put)

lemma rows_job_files:
  assumes "running_row (js_base js)"
  shows "cap_keeps rows_ok (job_files D J js rest idx t)"
proof (induction rest arbitrary: idx t)
  case Nil
  show ?case using assms by (simp add: cap_put_row well_formed_def finished_done)
next
  case (Cons source rest)
  have "cap_keeps rows_ok (on_cap (put (failed_view js (file_view js source t) t idx err)))" for err
    using assms by (intro cap_put_row) (simp add: well_formed_def failed_failed running_file)
  then show ?case
    unfolding job_files_to.simps Let_def
    by (intro cap_intro report_rows running_file assms cap_tally_record Cons)
qed

lemma rows_run_job:
  assumes "running_row (js_base js)"
  shows "cap_keeps rows_ok (run_job D js)"
  unfolding run_job_to_def
  by (intro cap_intro rows_job_files assms cap_put_row) (simp add: well_formed_def failed_journal assms)

section \<open>Property\<close>

text \<open>
  C20. Every row has one of three shapes. If every row of the registry is running (a phase, nothing
  else), finished (a tier and a detail, done at one, an outcome word, a strength exactly when it
  says copied) or failed (an error and the word failed, no claim of a tier), then so is every row
  at any moment a Job's thread ends or is killed; and the writer sends each as progress, finished
  or failed by that shape, no two of which overlap.
\<close>

theorem rows_stay_well_formed:
  fixes r :: "('e, unit) res"
  assumes "rows_ok (w_cap w)" "js_base js = base_view job (js_sources js) (js_destination_dir js) (js_expected_total js)"
    and "run_job D js w = (r, w')" "lookup_job (w_cap w') k = Some v"
  shows "well_formed v \<and> (terminal v \<longleftrightarrow> \<not> running_row v)
    \<and> job_event q v = (if running_row v then Ev_Progress q v else if finished_row v then Ev_Finished q v else Ev_Failed q v)"
proof -
  have "running_row (js_base js)" by (simp add: assms(2) running_base)
  from cap_keepsD[OF rows_run_job[OF this] assms(1,3)] assms(4) have "well_formed v"
    by (auto simp: rows_ok_def ran_def)
  then show ?thesis
    by (auto simp: well_formed_def event_of_shape row_defs terminal_def)
qed

lemma rows_stay_well_formed_witness:
  "\<exists>v. lookup_job (w_cap (snd lab_done)) ''1'' = Some v \<and> finished_row v \<and> job_event 7 v = Ev_Finished 7 v"
proof -
  obtain r w where rw: "lab_done = (r, w)" by fastforce
  from lab_job_runs[unfolded rw prod.case prod.inject] obtain v
    where v: "lookup_job (w_cap w) ''1'' = Some v" "jv_outcome v = Some ''copied''"
    by auto
  have "rows_ok (w_cap lab_daemon)" by (simp add: rows_ok_def lab_daemon_def shared_new_def lookup_job_def)
  from rows_stay_well_formed[OF this _ rw[unfolded lab_done_def] v(1), of "''1''" 7]
  have "well_formed v" "job_event 7 v = (if running_row v then Ev_Progress 7 v else if finished_row v then Ev_Finished 7 v else Ev_Failed 7 v)"
    by (simp_all add: lab_job_def)
  moreover have "\<not> running_row v" "\<not> failed_row v" using v(2) by (simp_all add: row_defs)
  ultimately show ?thesis using v(1) by (auto simp: rw well_formed_def)
qed

end
