(* ===== verification/Oblivious.thy ===== *)
theory Oblivious
  imports Captured
begin

text \<open>
  What the engine cannot see. The state its progress callback has captured is written by the
  callback only and read by nobody. So a run over one captured state is the image of a run over
  any other of which the first is a function, call for call, if the callbacks agree: in
  particular of the run that only keeps a list of what it was called with. Theory \<open>Captured\<close> says what
  a callback keeps; this one, that nothing else depends on it.
\<close>

section \<open>A computation and its image\<close>

definition seen_as :: "('s \<Rightarrow> 't) \<Rightarrow> 's world \<Rightarrow> 't world" where
  "seen_as a w = \<lparr>w_env = w_env w, w_fs = w_fs w, w_tick = w_tick w, w_cap = a (w_cap w)\<rparr>"

definition mirrors :: "('s \<Rightarrow> 't) \<Rightarrow> ('e, 'a, 's) io \<Rightarrow> ('e, 'a, 't) io \<Rightarrow> bool" where
  "mirrors a m n \<longleftrightarrow> (\<forall>w. n (seen_as a w) = map_prod id (seen_as a) (m w))"

named_theorems mirror_intro \<open>operations that do not see the captured state\<close>

lemma seen_as_simps [simp]:
  "w_env (seen_as a w) = w_env w" "w_fs (seen_as a w) = w_fs w" "w_tick (seen_as a w) = w_tick w"
  "w_cap (seen_as a w) = a (w_cap w)"
  "(seen_as a w)\<lparr>w_fs := f\<rparr> = seen_as a (w\<lparr>w_fs := f\<rparr>)" "(seen_as a w)\<lparr>w_tick := n\<rparr> = seen_as a (w\<lparr>w_tick := n\<rparr>)"
  by (simp_all add: seen_as_def)

lemma seen_as_cap: "seen_as a (w\<lparr>w_cap := c\<rparr>) = (seen_as a w)\<lparr>w_cap := a c\<rparr>"
  by (simp add: seen_as_def)

lemma seen_as_seen_as: "seen_as b (seen_as a w) = seen_as (\<lambda>s. b (a s)) w"
  by (simp add: seen_as_def)

lemma seen_as_const: "seen_as (\<lambda>_. s) w = w\<lparr>w_cap := s\<rparr>"
  by (simp add: seen_as_def)

lemma mirrorsD: "mirrors a m n \<Longrightarrow> m w = (r, w') \<Longrightarrow> n (seen_as a w) = (r, seen_as a w')"
  by (simp add: mirrors_def)

lemma mirrorsI: "(\<And>w r w'. m w = (r, w') \<Longrightarrow> n (seen_as a w) = (r, seen_as a w')) \<Longrightarrow> mirrors a m n"
  by (auto simp: mirrors_def prod_eq_iff)

section \<open>The engine sees nothing\<close>

lemma mirror_sys [mirror_intro]: "mirrors a (sys op) (sys op)"
  by (rule mirrorsI) (auto simp: sys_def Let_def split: if_splits option.splits sum.splits)

lemma mirror_write_all [mirror_intro]: "mirrors a (write_all k off b) (write_all k off b)"
  by (rule mirrorsI) (auto simp: write_all_def Let_def split: if_splits option.splits)

lemma mirror_steps [mirror_intro]:
  "mirrors a (ret x) (ret x)" "mirrors a (fail e) (fail e)" "mirrors a get_env get_env"
  by (auto intro!: mirrorsI simp: ret_def fail_def get_env_def)

lemma mirror_match [mirror_intro]:
  assumes "mirrors a m m'" "\<And>x. mirrors a (f x) (f' x)" "\<And>e. mirrors a (g e) (g' e)"
  shows "mirrors a (io_match m f g) (io_match m' f' g')"
  using assms by (auto simp: mirrors_def io_match_def split: prod.split res.split)

lemma mirror_bind [mirror_intro]:
  "mirrors a m m' \<Longrightarrow> (\<And>x. mirrors a (f x) (f' x)) \<Longrightarrow> mirrors a (io_bind m f) (io_bind m' f')"
  unfolding io_bind_def by (intro mirror_intro)

lemma mirror_discard [mirror_intro]:
  "mirrors a m m' \<Longrightarrow> mirrors a n n' \<Longrightarrow> mirrors a (io_discard m n) (io_discard m' n')"
  unfolding io_discard_def by (intro mirror_intro)

lemma mirror_map_err [mirror_intro]: "mirrors a m m' \<Longrightarrow> mirrors a (map_err k m) (map_err k m')"
  unfolding map_err_def by (intro mirror_intro)

lemma mirror_map_unwrap_or [mirror_intro]: "mirrors a m m' \<Longrightarrow> mirrors a (map_unwrap_or h d m) (map_unwrap_or h d m')"
  unfolding map_unwrap_or_def by (intro mirror_intro)

lemma mirror_if [mirror_intro]:
  "mirrors a m m' \<Longrightarrow> mirrors a n n' \<Longrightarrow> mirrors a (if b then m else n) (if b then m' else n')"
  by simp

lemma mirror_on_cap [mirror_intro]: "(\<And>s. a (h s) = h' (a s)) \<Longrightarrow> mirrors a (on_cap h) (on_cap h')"
  by (rule mirrorsI) (auto simp: on_cap_def seen_as_def)

lemma mirror_calls [mirror_intro]:
  "mirrors a (metadata p) (metadata p)" "mirrors a (path_exists p) (path_exists p)" "mirrors a (path_is_dir p) (path_is_dir p)"
  "mirrors a (remove_file p) (remove_file p)" "mirrors a (remove_dir_all p) (remove_dir_all p)"
  "mirrors a (rename p q) (rename p q)" "mirrors a (open_read p) (open_read p)" "mirrors a (open_write p) (open_write p)"
  "mirrors a (open_create p) (open_create p)" "mirrors a no_effect no_effect" "mirrors a (read_at k off n) (read_at k off n)"
  "mirrors a (sync_all k) (sync_all k)" "mirrors a (ficlone k k') (ficlone k k')" "mirrors a (fs_read p) (fs_read p)"
  "mirrors a (read_dir p) (read_dir p)" "mirrors a (canonicalize p) (canonicalize p)"
  unfolding calls by (intro mirror_intro)+

lemma mirror_writes [mirror_intro]:
  "mirrors a (fs_write p b) (fs_write p b)" "mirrors a (create_dir_all p) (create_dir_all p)"
  unfolding fs_write_def create_dir_all_def by (intro mirror_intro)+

lemma mirror_journal [mirror_intro]:
  "mirrors a (journal_record D J e) (journal_record D J e)" "mirrors a (journal_get D J dst) (journal_get D J dst)"
  "mirrors a (journal_clear D J dst) (journal_clear D J dst)" "mirrors a open_default open_default"
  unfolding journal_record_def journal_get_def journal_clear_def open_default_def open_at_def Let_def
  by (auto intro!: mirror_intro split: sum.split)

lemma mirror_fs_ops [mirror_intro]:
  "mirrors a (drop_cache k) (drop_cache k)" "mirrors a (try_reflink_into_temp src temp) (try_reflink_into_temp src temp)"
  "mirrors a (same_filesystem p q) (same_filesystem p q)"
  unfolding drop_cache_def try_reflink_into_temp_def same_filesystem_def Let_def by (intro mirror_intro)+

lemma mirror_first_free:
  "(\<And>n. mirrors a (free n) (free' n)) \<Longrightarrow> mirrors a (first_free free lo hi) (first_free free' lo hi)"
proof (induction "hi - lo" arbitrary: lo)
  case 0
  then show ?case by (subst (1 2) first_free.simps) (auto intro!: mirror_intro)
next
  case (Suc d)
  then show ?case by (subst (1 2) first_free.simps) (auto intro!: mirror_intro)
qed

lemma mirror_names [mirror_intro]:
  "mirrors a (free_name_beside dst) (free_name_beside dst)"
  "mirrors a (resolve_conflict dst existed rule) (resolve_conflict dst existed rule)"
proof -
  show free: "mirrors a (free_name_beside dst) (free_name_beside dst)"
    unfolding free_name_beside_def
    by (intro mirror_intro mirror_first_free) (auto intro!: mirror_intro split: option.split)
  show "mirrors a (resolve_conflict dst existed rule) (resolve_conflict dst existed rule)"
    by (cases existed; cases rule) (auto simp: resolve_conflict_def intro!: mirror_intro free)
qed

lemma mirror_temp [mirror_intro]:
  "mirrors a (discard_temp D J temp dst e) (discard_temp D J temp dst e)"
  "mirrors a (resume_offset D J dst temp expected checksum) (resume_offset D J dst temp expected checksum)"
  unfolding discard_temp_def resume_offset_def
  by (intro mirror_intro, intro mirror_intro) (auto intro!: mirror_intro split: option.split)

section \<open>The loops that call back\<close>

definition calls_mirror :: "('s \<Rightarrow> 't) \<Rightarrow> 's progress \<Rightarrow> 't progress \<Rightarrow> bool" where
  "calls_mirror a p p' \<longleftrightarrow> (\<forall>ph d tot s. a (p ph d tot s) = p' ph d tot (a s))"

lemma read_write_mirror:
  "read_at k off n w = (r, w1) \<Longrightarrow> read_at k off n (seen_as a w) = (r, seen_as a w1)"
  "write_all k off b w = (r', w1) \<Longrightarrow> write_all k off b (seen_as a w) = (r', seen_as a w1)"
  using mirrorsD[where m = "read_at k off n" and n = "read_at k off n", OF mirror_calls(11)]
    mirrorsD[where m = "write_all k off b" and n = "write_all k off b", OF mirror_write_all] by blast+

lemma stream_loop_mirror:
  assumes "calls_mirror a p p'"
  shows "stream_loop fi fo pos sofar expected p' (seen_as a w) =
    map_prod id (seen_as a) (stream_loop fi fo pos sofar expected p w)"
proof (induction "e_kill (w_env w) - w_tick w" arbitrary: w pos sofar rule: less_induct)
  case less
  obtain rr w1 where r1: "read_at fi pos CHUNK w = (rr, w1)" by fastforce
  have r1': "read_at fi pos CHUNK (seen_as a w) = (rr, seen_as a w1)"
    by (rule read_write_mirror(1)[OF r1])
  note step = stream_loop.simps[of fi fo pos sofar expected p w] stream_loop.simps[of fi fo pos sofar expected p' "seen_as a w"] r1 r1'
  show ?case
  proof (cases rr)
    case (Ok buf)
    show ?thesis
    proof (cases "buf = []")
      case False
      obtain wr w2 where r2: "write_all fo pos buf w1 = (wr, w2)" by fastforce
      have r2': "write_all fo pos buf (seen_as a w1) = (wr, seen_as a w2)"
        by (rule read_write_mirror(2)[OF r2])
      note step = step r2 r2'
      show ?thesis
      proof (cases wr)
        case (Ok u)
        let ?w = "w2\<lparr>w_cap := p Copying (sofar + of_nat (length buf)) expected (w_cap w2)\<rparr>"
        have "e_kill (w_env ?w) - w_tick ?w < e_kill (w_env w) - w_tick w"
          using write_all_decreases[of fo pos buf w1 u w2] read_at_decreases[of fi pos CHUNK w buf w1] r1 r2 Ok \<open>rr = Ok buf\<close> by simp
        from less[OF this, of "pos + length buf" "sofar + of_nat (length buf)"]
        show ?thesis
          using assms by (simp add: seen_as_cap step Ok \<open>rr = Ok buf\<close> False Let_def calls_mirror_def)
      qed (simp_all add: step Ok False)
    qed (simp add: step Ok)
  qed (simp_all add: step)
qed

lemma hash_loop_mirror:
  assumes "calls_mirror a p p'"
  shows "hash_loop f pos fed hashed tot offset p' (seen_as a w) =
    map_prod id (seen_as a) (hash_loop f pos fed hashed tot offset p w)"
proof (induction "e_kill (w_env w) - w_tick w" arbitrary: w pos fed hashed rule: less_induct)
  case less
  obtain rr w1 where r1: "read_at f pos CHUNK w = (rr, w1)" by fastforce
  have r1': "read_at f pos CHUNK (seen_as a w) = (rr, seen_as a w1)"
    by (rule read_write_mirror(1)[OF r1])
  note step = hash_loop.simps[of f pos fed hashed tot offset p w] hash_loop.simps[of f pos fed hashed tot offset p' "seen_as a w"] r1 r1'
  show ?case
  proof (cases rr)
    case (Ok buf)
    show ?thesis
    proof (cases "buf = []")
      case False
      let ?c = "p Verifying (offset + (hashed + of_nat (length buf))) tot (w_cap w1)"
      let ?w = "if 0 < tot then w1\<lparr>w_cap := ?c\<rparr> else w1"
      have "e_kill (w_env ?w) - w_tick ?w < e_kill (w_env w) - w_tick w"
        using read_at_decreases[of f pos CHUNK w buf w1] r1 Ok by simp
      from less[OF this, of "pos + length buf" "fed @ buf" "hashed + of_nat (length buf)"]
      show ?thesis
        using assms by (simp add: seen_as_cap step Ok False Let_def calls_mirror_def split: if_splits)
    qed (simp add: step Ok)
  qed (simp_all add: step)
qed

lemma mirror_loops [mirror_intro]:
  "calls_mirror a p p' \<Longrightarrow> mirrors a (stream_loop fi fo pos sofar expected p) (stream_loop fi fo pos sofar expected p')"
  "calls_mirror a p p' \<Longrightarrow> mirrors a (hash_loop f pos fed hashed tot offset p) (hash_loop f pos fed hashed tot offset p')"
  unfolding mirrors_def by (simp_all add: stream_loop_mirror hash_loop_mirror)

lemma mirror_parts [mirror_intro]:
  assumes "calls_mirror a p p'"
  shows "mirrors a (stream src temp from expected p) (stream src temp from expected p')"
    "mirrors a (hash_file_reporting D q tot offset p) (hash_file_reporting D q tot offset p')"
  unfolding stream_def hash_file_reporting_def by (intro mirror_intro assms)+

lemma mirror_verify_attempts [mirror_intro]:
  "calls_mirror a p p' \<Longrightarrow> mirrors a (verify_attempts D src temp tsize tot p as) (verify_attempts D src temp tsize tot p' as)"
  by (induction as) (auto intro!: mirror_intro)

lemma mirror_copies [mirror_intro]:
  assumes "calls_mirror a p p'"
  shows "mirrors a (copy_onto D J src dst opts replaced expected p) (copy_onto D J src dst opts replaced expected p')"
  unfolding copy_onto_def copy_streaming_def commit_clone_def fill_temp_def verify_with_retry_reporting_def Let_def
  by (intro mirror_intro assms)

lemma mirror_copy_file_with [mirror_intro]:
  "calls_mirror a p p' \<Longrightarrow> mirrors a (copy_file_with D J src dst opts p) (copy_file_with D J src dst opts p')"
  unfolding copy_file_with_def Let_def by (intro mirror_intro) (auto intro!: mirror_intro split: option.split)

lemma mirror_move_onto [mirror_intro]:
  "calls_mirror a p p' \<Longrightarrow> mirrors a (move_onto D J src dst opts p) (move_onto D J src dst opts p')"
  unfolding move_onto_def by (intro mirror_intro) (auto intro!: mirror_intro split: outcome.split)

lemma mirror_move_file_with [mirror_intro]:
  "calls_mirror a p p' \<Longrightarrow> mirrors a (move_file_with D J src dst opts p) (move_file_with D J src dst opts p')"
  unfolding move_file_with_def by (intro mirror_intro) (auto intro!: mirror_intro split: option.split)

end
