(* ===== verification/Interleaving.thy ===== *)
theory Interleaving
  imports Rows Oblivious
begin

text \<open>
  Jobs side by side. A Job's thread (\<open>start_job\<close> of \<open>daemon/src/server.rs\<close>) never reads the registry
  (theory \<open>Oblivious\<close>): to every other thread it is a sequence of puts, each one atomic under the registry's lock,
  and the same one whatever the others do there. This theory says which sequence it is, how it looks, and
  what any interleaving of two of them leaves.
\<close>

section \<open>One Job, two places its rows may go\<close>

text \<open>If one place can be read off the other, so can all a Job does there.\<close>

locale row_sinks =
  fixes sink :: "job_view \<Rightarrow> 's \<Rightarrow> 's" and sink' :: "job_view \<Rightarrow> 't \<Rightarrow> 't" and a :: "'s \<Rightarrow> 't"
  assumes same_row: "a (sink v s) = sink' v (a s)"
begin

lemma mirror_row: "mirrors a (on_cap (sink v)) (on_cap (sink' v))"
  by (intro mirror_intro same_row)

lemma mirror_report: "calls_mirror a (report_to sink js v n) (report_to sink' js v n)"
  by (simp add: calls_mirror_def report_to_def same_row)

lemma mirror_tally_record: "mirrors a (tally_record n out t) (tally_record n out t)"
  unfolding tally_record_def by (cases out) (auto intro!: mirror_intro simp del: tally_add.simps)

lemma mirror_job_files: "mirrors a (job_files_to sink D J js rest idx t) (job_files_to sink' D J js rest idx t)"
proof (induction rest arbitrary: idx t)
  case (Cons source rest)
  show ?case
    unfolding job_files_to.simps Let_def
    by (intro mirror_intro mirror_row mirror_report mirror_tally_record Cons)
qed (simp add: mirror_row)

lemma mirror_run_job: "mirrors a (run_job_to sink D js) (run_job_to sink' D js)"
  unfolding run_job_to_def by (intro mirror_intro mirror_row mirror_job_files)

end

text \<open>
  The place that forgets nothing is a list of the rows; the registry is that list put into what it held
  before.
\<close>

definition logs :: "job_view \<Rightarrow> job_view list \<Rightarrow> job_view list" where
  "logs v vs = vs @ [v]"

interpretation logged: row_sinks logs put "\<lambda>vs. fold put vs s" for s
  by unfold_locales (simp add: logs_def)

text \<open>The rows a Job puts, in the order it puts them.\<close>

definition job_puts :: "crates \<Rightarrow> job_spec \<Rightarrow> 's world \<Rightarrow> job_view list" where
  "job_puts D js w = w_cap (snd (run_job_to logs D js (seen_as (\<lambda>_. []) w) :: (io_error, unit) res \<times> job_view list world))"

lemma job_puts_cap: "job_puts D js (w\<lparr>w_cap := s\<rparr>) = job_puts D js w"
  by (simp add: job_puts_def seen_as_def)

definition puts_anywhere :: "crates \<Rightarrow> job_spec \<Rightarrow> shared world \<Rightarrow> job_view list \<Rightarrow> ('e, unit) res \<Rightarrow> shared world \<Rightarrow> bool" where
  "puts_anywhere D js w vs r w' \<longleftrightarrow> (\<forall>s. run_job D js (w\<lparr>w_cap := s\<rparr>) = (r, w'\<lparr>w_cap := fold put vs s\<rparr>))"

lemma logged_run:
  fixes r :: "('e, unit) res"
  assumes "run_job D js w = (r, w')" "run_job_to logs D js (seen_as (\<lambda>_. []) w) = (r1 :: ('e, unit) res, w1)"
  shows "r1 = r" "puts_anywhere D js w (w_cap w1) r w'"
proof -
  have run: "run_job D js (w\<lparr>w_cap := s\<rparr>) = (r1, seen_as (\<lambda>vs. fold put vs s) w1)" for s
    using mirrorsD[OF logged.mirror_run_job assms(2), of s] by (simp add: seen_as_seen_as seen_as_const)
  from run[of "w_cap w"] assms(1) have w1: "r1 = r" "w' = seen_as (\<lambda>vs. fold put vs (w_cap w)) w1" by simp_all
  then show "r1 = r" by simp
  show "puts_anywhere D js w (w_cap w1) r w'"
    using run w1 by (simp add: puts_anywhere_def seen_as_def)
qed

section \<open>How the sequence looks\<close>

definition running_puts :: "string \<Rightarrow> job_view list \<Rightarrow> bool" where
  "running_puts job vs \<longleftrightarrow> (\<forall>v \<in> set vs. jv_job v = job \<and> running_row v)"

definition last_row :: "string \<Rightarrow> job_view \<Rightarrow> bool" where
  "last_row job v \<longleftrightarrow> jv_job v = job \<and> (finished_row v \<or> failed_row v)"

definition ended_puts :: "string \<Rightarrow> job_view list \<Rightarrow> bool" where
  "ended_puts job vs \<longleftrightarrow> vs \<noteq> [] \<and> running_puts job (butlast vs) \<and> last_row job (last vs)"

text \<open>A Job's thread: running rows while it works, never an error of its own, a last row at its end.\<close>

definition job_logs :: "string \<Rightarrow> ('e, unit, job_view list) io \<Rightarrow> bool" where
  "job_logs job m \<longleftrightarrow>
     triple (running_puts job \<circ> w_cap) m (\<lambda>_. ended_puts job \<circ> w_cap) (\<lambda>_ _. False) (running_puts job \<circ> w_cap)"

lemma job_logs_end: "last_row job v \<Longrightarrow> job_logs job (on_cap (logs v))"
  unfolding job_logs_def by (rule triple_on_cap) (simp add: logs_def ended_puts_def)

lemma job_logs_match:
  "cap_keeps (running_puts job) m \<Longrightarrow> (\<And>a. job_logs job (f a)) \<Longrightarrow> (\<And>e. job_logs job (g e)) \<Longrightarrow> job_logs job (io_match m f g)"
  unfolding job_logs_def cap_keeps_def by (rule triple_match)

lemma job_logs_env: "(\<And>E. job_logs job (f E)) \<Longrightarrow> job_logs job (io_bind get_env f)"
  unfolding job_logs_def triple_def by (simp add: io_bind_def io_match_def get_env_def)

lemma tally_record_then:
  "io_bind (tally_record a out t) f =
     (case out of Moved p \<Rightarrow> io_match (metadata p) (\<lambda>m. f (tally_add a out (md_len m) t)) (\<lambda>_. f (tally_add a out 0 t))
      | _ \<Rightarrow> f (tally_add a out 0 t))"
  by (cases out) (auto simp: tally_record_def io_bind_def io_match_def map_unwrap_or_def ret_def fun_eq_iff
      split: prod.split res.split simp del: tally_add.simps)

lemma job_logs_record: "(\<And>t'. job_logs job (f t')) \<Longrightarrow> job_logs job (io_bind (tally_record a out t) f)"
  unfolding tally_record_then by (cases out) (auto intro!: job_logs_match cap_intro simp del: tally_add.simps)

lemma report_runs: "jv_job v = job \<Longrightarrow> running_row v \<Longrightarrow> calls_keep (running_puts job) (report_to logs js v n)"
  unfolding calls_keep_def report_to_def by (auto simp: logs_def running_puts_def running_row_def)

lemma job_logs_files:
  assumes js: "running_row (js_base js)" "jv_job (js_base js) = job"
  shows "job_logs job (job_files_to logs D J js rest idx t)"
proof (induction rest arbitrary: idx t)
  case Nil
  show ?case using js by (simp add: job_logs_end last_row_def finished_done)
next
  case (Cons source rest)
  have "running_row (file_view js source t)" "jv_job (file_view js source t) = job"
    using js by (simp_all add: running_file)
  then show ?case
    unfolding job_files_to.simps Let_def
    by (intro job_logs_match job_logs_record job_logs_env job_logs_end Cons cap_intro report_runs)
      (simp_all add: last_row_def failed_failed)
qed

lemma job_logs_run:
  assumes js: "running_row (js_base js)" "jv_job (js_base js) = job"
  shows "job_logs job (run_job_to logs D js)"
  unfolding run_job_to_def
  by (intro job_logs_match cap_intro job_logs_files job_logs_env job_logs_end assms)
    (simp_all add: last_row_def js failed_journal)

text \<open>What a Job put, by how its thread ended.\<close>

definition job_told :: "string \<Rightarrow> ('e, unit) res \<Rightarrow> job_view list \<Rightarrow> bool" where
  "job_told job r vs \<longleftrightarrow> (case r of Ok _ \<Rightarrow> ended_puts job vs | Err _ \<Rightarrow> False | Killed \<Rightarrow> running_puts job vs)"

lemma job_told_Ok:
  assumes "job_told job (Ok a) vs"
  obtains us v where "vs = us @ [v]" "running_puts job us" "last_row job v" "\<forall>v \<in> set vs. jv_job v = job"
proof -
  have "vs = butlast vs @ [last vs]" "running_puts job (butlast vs)" "last_row job (last vs)"
    using assms by (simp_all add: job_told_def ended_puts_def)
  moreover from this have "\<forall>v \<in> set (butlast vs @ [last vs]). jv_job v = job"
    unfolding set_append by (auto simp: running_puts_def last_row_def simp del: append_butlast_last_id)
  ultimately show thesis by (metis that)
qed

lemma run_job_logged:
  fixes r :: "('e, unit) res"
  assumes run: "run_job D js w = (r, w')"
    and base: "js_base js = base_view job (js_sources js) (js_destination_dir js) (js_expected_total js)"
    and log: "run_job_to logs D js (seen_as (\<lambda>_. []) w) = (r1 :: ('e, unit) res, w1)"
  shows "job_told job r (w_cap w1) \<and> puts_anywhere D js w (w_cap w1) r w'"
proof -
  have js: "running_row (js_base js)" "jv_job (js_base js) = job"
    unfolding base by (rule running_base, simp add: base_view_def)
  have "(running_puts job \<circ> w_cap) (seen_as (\<lambda>_. []) w)" by (simp add: running_puts_def)
  from tripleD[OF job_logs_run[OF js, unfolded job_logs_def] this] log have "job_told job r1 (w_cap w1)"
    by (cases r1) (auto simp: job_told_def)
  with logged_run[OF run log] show ?thesis by simp
qed

lemma run_job_told:
  fixes r :: "('e, unit) res"
  assumes "run_job D js w = (r, w')"
    and "js_base js = base_view job (js_sources js) (js_destination_dir js) (js_expected_total js)"
  shows "\<exists>vs. job_told job r vs \<and> puts_anywhere D js w vs r w'"
proof -
  obtain r1 :: "('e, unit) res" and w1 where "run_job_to logs D js (seen_as (\<lambda>_. []) w) = (r1, w1)" by fastforce
  from run_job_logged[OF assms this] show ?thesis ..
qed

lemma run_job_puts:
  fixes r :: "(io_error, unit) res"
  assumes "run_job D js w = (r, w')"
    and "js_base js = base_view job (js_sources js) (js_destination_dir js) (js_expected_total js)"
  shows "job_told job r (job_puts D js w) \<and> puts_anywhere D js w (job_puts D js w) r w'"
  unfolding job_puts_def using run_job_logged[OF assms prod.collapse[symmetric]] .

section \<open>Interleavings\<close>

lemma last_put_wins:
  assumes "filter (\<lambda>v. jv_job v = job) vs = us @ [v]"
  shows "lookup_job (fold put vs s) job = Some v"
proof -
  have "find P xs = (case filter P xs of [] \<Rightarrow> None | x # _ \<Rightarrow> Some x)" for P and xs :: "job_view list"
    by (induction xs) auto
  then have "find (\<lambda>v. jv_job v = job) (rev vs) = Some v"
    using assms by (simp add: rev_filter[symmetric])
  then show ?thesis by (simp add: registry.look_fold_ins)
qed

lemma shuffled_filter:
  assumes "ws \<in> shuffles vs us" "\<forall>v \<in> set vs. P v" "\<forall>v \<in> set us. \<not> P v"
  shows "filter P ws = vs"
proof -
  have parts: "filter P vs = vs" "filter P us = []"
    using assms(2,3) by (simp_all add: filter_id_conv filter_empty_conv)
  have "filter P ws \<in> shuffles (filter P vs) (filter P us)"
    using assms(1) filter_shuffles[of P vs us] by blast
  then show ?thesis by (simp add: parts)
qed

lemma shuffled_puts:
  assumes "running_puts job1 vs1" "jv_job v1 = job1" "running_puts job2 vs2" "jv_job v2 = job2" "job1 \<noteq> job2"
    and "ws \<in> shuffles (vs1 @ [v1]) (vs2 @ [v2])"
  shows "lookup_job (fold put ws s) = (lookup_job s)(job1 \<mapsto> v1, job2 \<mapsto> v2)"
proof
  fix k
  have ids: "\<forall>v \<in> set (vs1 @ [v1]). jv_job v = job1" "\<forall>v \<in> set (vs2 @ [v2]). jv_job v = job2"
    using assms(1-4) by (auto simp: running_puts_def)
  have ws: "set ws = set (vs1 @ [v1]) \<union> set (vs2 @ [v2])" using set_shuffles[OF assms(6)] .
  have "filter (\<lambda>v. jv_job v = job1) ws = vs1 @ [v1]"
    by (rule shuffled_filter[OF assms(6)]) (use ids assms(5) in auto)
  then have 1: "lookup_job (fold put ws s) job1 = Some v1" by (rule last_put_wins)
  have "ws \<in> shuffles (vs2 @ [v2]) (vs1 @ [v1])" using assms(6) by (simp add: shuffles_commutes)
  then have "filter (\<lambda>v. jv_job v = job2) ws = vs2 @ [v2]"
    by (rule shuffled_filter) (use ids assms(5) in auto)
  then have 2: "lookup_job (fold put ws s) job2 = Some v2" by (rule last_put_wins)
  have "find (\<lambda>v. jv_job v = k) (rev ws) = None" if "k \<noteq> job1" "k \<noteq> job2"
    using ids that ws by (auto simp: find_None_iff)
  then have "lookup_job (fold put ws s) k = lookup_job s k" if "k \<noteq> job1" "k \<noteq> job2"
    using that by (simp add: registry.look_fold_ins)
  with 1 2 show "lookup_job (fold put ws s) k = ((lookup_job s)(job1 \<mapsto> v1, job2 \<mapsto> v2)) k" by simp
qed

section \<open>Properties\<close>

text \<open>
  C21. To the rest of the daemon a Job is a sequence of puts under its own id. Whatever happens to its
  files, what a Job's thread does to the registry is to put the rows \<open>job_puts\<close>, in this order, and nothing else:
  rows of its own id that are running, and, unless the daemon is killed first, one last row that is
  finished or failed: exactly one terminal row, and nothing after it. The sequence, the result and
  everything else the thread does are the same whatever the registry holds: no other thread's puts
  can change them.
\<close>

theorem job_is_a_sequence_of_puts:
  fixes r :: "(io_error, unit) res"
  assumes "run_job D js w = (r, w')"
    and "js_base js = base_view job (js_sources js) (js_destination_dir js) (js_expected_total js)"
  shows "job_told job r (job_puts D js w)
    \<and> (\<forall>s. run_job D js (w\<lparr>w_cap := s\<rparr>) = (r, w'\<lparr>w_cap := fold put (job_puts D js w) s\<rparr>))"
  using run_job_puts[OF assms] by (simp add: puts_anywhere_def)

text \<open>
  C22. Concurrent Jobs do not mix. Let the threads of two Jobs of different ids come to their ends: however the
  sequences of their puts were interleaved, on whatever registry, each Job's entry is then its own
  last row, which is finished or failed, and every other entry is what it was.
\<close>

theorem concurrent_jobs_do_not_mix:
  assumes "run_job D1 js1 w1 = (Ok () :: (io_error, unit) res, w1')" "run_job D2 js2 w2 = (Ok () :: (io_error, unit) res, w2')"
    and "job1 \<noteq> job2"
    and "js_base js1 = base_view job1 (js_sources js1) (js_destination_dir js1) (js_expected_total js1)"
    and "js_base js2 = base_view job2 (js_sources js2) (js_destination_dir js2) (js_expected_total js2)"
    and vs: "vs1 = job_puts D1 js1 w1" "vs2 = job_puts D2 js2 w2" and "ws \<in> shuffles vs1 vs2"
  shows "last_row job1 (last vs1) \<and> last_row job2 (last vs2)
    \<and> lookup_job (fold put ws s) = (lookup_job s)(job1 \<mapsto> last vs1, job2 \<mapsto> last vs2)"
proof -
  have "ended_puts job1 vs1" "ended_puts job2 vs2"
    using run_job_puts[OF assms(1,4)] run_job_puts[OF assms(2,5)] by (simp_all add: vs job_told_def)
  moreover from this have "lookup_job (fold put ws s) = (lookup_job s)(job1 \<mapsto> last vs1, job2 \<mapsto> last vs2)"
    using shuffled_puts[of job1 "butlast vs1" "last vs1" job2 "butlast vs2" "last vs2" ws s] assms(3,8)
    by (simp add: ended_puts_def last_row_def)
  ultimately show ?thesis by (simp add: ended_puts_def)
qed

section \<open>Witnesses\<close>

lemma lab_puts:
  "map (\<lambda>v. (jv_job v, jv_bytes v, jv_outcome v)) (job_puts lab_crates lab_job lab_daemon)
     = [(''1'', 5, None), (''1'', 5, Some ''copied'')]"
  by code_simp

lemma job_is_a_sequence_of_puts_witness:
  "job_told ''1'' (Ok () :: (io_error, unit) res) (job_puts lab_crates lab_job lab_daemon)
   \<and> (\<exists>v u. job_puts lab_crates lab_job lab_daemon = [v, u] \<and> w_cap (snd lab_done) = put u (put v shared_new))"
proof -
  obtain r w where rw: "lab_done = (r, w)" by fastforce
  from lab_job_runs[unfolded rw prod.case prod.inject] have r: "r = Ok ()" by simp
  let ?vs = "job_puts lab_crates lab_job lab_daemon"
  have vs: "job_told ''1'' r ?vs" "run_job lab_crates lab_job (lab_daemon\<lparr>w_cap := s\<rparr>) = (r, w\<lparr>w_cap := fold put ?vs s\<rparr>)" for s
    using job_is_a_sequence_of_puts[OF rw[unfolded lab_done_def], of "''1''"] by (auto simp: lab_job_def)
  have "lab_daemon\<lparr>w_cap := shared_new\<rparr> = lab_daemon" by (simp add: lab_daemon_def)
  with vs(2)[of shared_new] rw have "w = w\<lparr>w_cap := fold put ?vs shared_new\<rparr>" by (simp add: lab_done_def)
  then have "w_cap w = fold put ?vs shared_new" by (metis world.select_convs(4) world.surjective world.update_convs(4))
  moreover obtain v u where "?vs = [v, u]" using lab_puts by (auto simp: map_eq_Cons_conv)
  ultimately show ?thesis using vs(1) by (simp add: r rw)
qed

text \<open>A second Job under the next id, whose disk refuses every call: it fails at once.\<close>

definition lab_job2 :: job_spec where
  "lab_job2 = lab_job\<lparr>js_base := base_view ''2'' [''/src/a''] ''/dst'' 5\<rparr>"

definition lab_refusing :: "shared world" where
  "lab_refusing = lab_daemon\<lparr>w_env := lab_reading whole_read\<lparr>e_fault := \<lambda>_. Some OtherKind\<rparr>\<rparr>"

lemma lab_job2_runs: "fst (run_job lab_crates lab_job2 lab_refusing :: (io_error, unit) res \<times> shared world) = Ok ()"
  by code_simp

lemma lab_puts2: "map jv_outcome (job_puts lab_crates lab_job2 lab_refusing) = [Some ''failed'']"
  by code_simp

text \<open>The second Job's only row goes in between the two of the first.\<close>

lemma concurrent_jobs_do_not_mix_witness:
  "\<exists>v1 v2 v. last_row ''1'' v1 \<and> last_row ''2'' v2 \<and> job_puts lab_crates lab_job lab_daemon = [v, v1]
     \<and> job_puts lab_crates lab_job2 lab_refusing = [v2]
     \<and> lookup_job (fold put [v, v2, v1] shared_new) = [''1'' \<mapsto> v1, ''2'' \<mapsto> v2]"
proof -
  obtain r w where rw: "lab_done = (r, w)" by fastforce
  from lab_job_runs[unfolded rw prod.case prod.inject] have run: "lab_done = (Ok (), w)" by (simp add: rw)
  have run2: "(run_job lab_crates lab_job2 lab_refusing :: (io_error, unit) res \<times> shared world)
      = (Ok (), snd (run_job lab_crates lab_job2 lab_refusing :: (io_error, unit) res \<times> shared world))"
    using lab_job2_runs by (metis prod.collapse)
  obtain v v1 v2 where vs: "job_puts lab_crates lab_job lab_daemon = [v, v1]" "job_puts lab_crates lab_job2 lab_refusing = [v2]"
    using lab_puts lab_puts2 by (auto simp: map_eq_Cons_conv)
  have "[v, v2, v1] \<in> shuffles [v, v1] [v2]" by (simp add: Cons_in_shuffles_iff)
  with concurrent_jobs_do_not_mix[OF run[unfolded lab_done_def] run2, of "''1''" "''2''" "[v, v1]" "[v2]" "[v, v2, v1]" shared_new] vs
  have "last_row ''1'' v1" "last_row ''2'' v2"
    "lookup_job (fold put [v, v2, v1] shared_new) = (lookup_job shared_new)(''1'' \<mapsto> v1, ''2'' \<mapsto> v2)"
    by (auto simp: lab_job_def lab_job2_def)
  moreover have "lookup_job shared_new = Map.empty" by (simp add: lookup_job_def shared_new_def)
  ultimately show ?thesis using vs by metis
qed

end
