(* ===== verification/Ledger.thy ===== *)
theory Ledger
  imports Server
begin

text \<open>
  The abstract specification of the daemon's Jobs: who works on which Job, what is shown of it, and
  nothing about threads, sockets or files. A worker is hired for a new Job, posts its row, hands it
  over, closes it with a finished row, or loses it; anybody may release a row. Theory \<open>Daemon\<close> shows that
  the threads of \<open>daemon/src/server.rs\<close> keep such a ledger.
\<close>

section \<open>The ledger\<close>

datatype worker = Reader nat | Thread nat

record ledger =
  lg_owner :: "worker \<Rightarrow> string option"
  lg_rows :: "string \<Rightarrow> job_view option"
  lg_lost :: "string set"
  lg_count :: nat

definition ledger_new :: ledger where
  "ledger_new = \<lparr>lg_owner = (\<lambda>x. None), lg_rows = Map.empty, lg_lost = {}, lg_count = 0\<rparr>"

text \<open>The name of the Job that is numbered after \<open>n\<close> others.\<close>

definition name_after :: "nat \<Rightarrow> string" where
  "name_after n = job_name (of_nat (Suc n))"

inductive lstep :: "ledger \<Rightarrow> ledger \<Rightarrow> bool" where
  stays: "lstep g g"
| hires: "lg_owner g x = None \<Longrightarrow>
    lstep g (g\<lparr>lg_owner := (lg_owner g)(x \<mapsto> name_after (lg_count g)), lg_count := Suc (lg_count g)\<rparr>)"
| posts: "lg_owner g x = Some (jv_job v) \<Longrightarrow> \<not> terminal v \<Longrightarrow>
    lstep g (g\<lparr>lg_rows := (lg_rows g)(jv_job v \<mapsto> v)\<rparr>)"
| closes: "lg_owner g x = Some (jv_job v) \<Longrightarrow> terminal v \<Longrightarrow>
    lstep g (g\<lparr>lg_rows := (lg_rows g)(jv_job v \<mapsto> v), lg_owner := (lg_owner g)(x := None)\<rparr>)"
| hands: "lg_owner g x = Some k \<Longrightarrow> lg_owner g y = None \<Longrightarrow>
    lstep g (g\<lparr>lg_owner := (lg_owner g)(x := None, y \<mapsto> k)\<rparr>)"
| loses: "lg_owner g x = Some k \<Longrightarrow>
    lstep g (g\<lparr>lg_owner := (lg_owner g)(x := None), lg_lost := insert k (lg_lost g)\<rparr>)"
| releases: "lstep g (g\<lparr>lg_rows := (lg_rows g)(k := None)\<rparr>)"

section \<open>What every ledger keeps\<close>

definition named :: "nat \<Rightarrow> string \<Rightarrow> bool" where
  "named n k \<longleftrightarrow> (\<exists>m < n. k = name_after m)"

lemma name_after_inject:
  assumes "m < 2 ^ 64" "n < 2 ^ 64"
  shows "name_after m = name_after n \<longleftrightarrow> m = n"
proof -
  have "inj job_name" by (auto simp: inj_def job_name_def word_unat_eq_iff)
  then have "name_after m = name_after n \<longleftrightarrow> (of_nat m :: u64) + 1 = of_nat n + 1"
    by (auto simp: name_after_def inj_eq add.commute)
  also have "\<dots> \<longleftrightarrow> (of_nat m :: u64) = of_nat n" by simp
  also have "\<dots> \<longleftrightarrow> m = n"
    using assms by (metis word_of_nat_unat_eq)
  finally show ?thesis .
qed

lemma not_named_yet: "n < 2 ^ 64 \<Longrightarrow> \<not> named n (name_after n)"
  unfolding named_def using name_after_inject by (metis less_trans nat_neq_iff)

lemma named_Suc: "named n k \<Longrightarrow> named (Suc n) k" "named (Suc n) (name_after n)"
  unfolding named_def by (auto intro: less_SucI)

text \<open>
  Each Job has one worker at most, whose row is not finished; and a row that is not finished has a
  worker, or was lost.
\<close>

definition ledger_ok :: "ledger \<Rightarrow> bool" where
  "ledger_ok g \<longleftrightarrow>
     (\<forall>x k. lg_owner g x = Some k \<longrightarrow> named (lg_count g) k)
   \<and> (\<forall>k v. lg_rows g k = Some v \<longrightarrow> named (lg_count g) k)
   \<and> (\<forall>x y k. lg_owner g x = Some k \<longrightarrow> lg_owner g y = Some k \<longrightarrow> x = y)
   \<and> (\<forall>x k v. lg_owner g x = Some k \<longrightarrow> lg_rows g k = Some v \<longrightarrow> \<not> terminal v)
   \<and> (\<forall>k v. lg_rows g k = Some v \<longrightarrow> \<not> terminal v \<longrightarrow> (\<exists>x. lg_owner g x = Some k) \<or> k \<in> lg_lost g)"

lemma ledger_ok_new: "ledger_ok ledger_new"
  by (simp add: ledger_ok_def ledger_new_def)

lemma ledger_ok_owner:
  "ledger_ok g \<Longrightarrow> lg_owner g x = Some k \<Longrightarrow> lg_owner g y = Some k \<Longrightarrow> x = y"
  "ledger_ok g \<Longrightarrow> lg_owner g x = Some k \<Longrightarrow> named (lg_count g) k"
  "ledger_ok g \<Longrightarrow> lg_owner g x = Some k \<Longrightarrow> lg_rows g k = Some v \<Longrightarrow> \<not> terminal v"
  "ledger_ok g \<Longrightarrow> lg_rows g k = Some v \<Longrightarrow> named (lg_count g) k"
  "ledger_ok g \<Longrightarrow> lg_rows g k = Some v \<Longrightarrow> \<not> terminal v \<Longrightarrow> (\<exists>x. lg_owner g x = Some k) \<or> k \<in> lg_lost g"
  unfolding ledger_ok_def by blast+

lemma lstep_count: "lstep g g' \<Longrightarrow> lg_count g \<le> lg_count g'"
  by (induction rule: lstep.induct) auto

lemma ledger_okI:
  assumes "\<And>x k. lg_owner g x = Some k \<Longrightarrow> named (lg_count g) k"
    and "\<And>k v. lg_rows g k = Some v \<Longrightarrow> named (lg_count g) k"
    and "\<And>x y k. lg_owner g x = Some k \<Longrightarrow> lg_owner g y = Some k \<Longrightarrow> x = y"
    and "\<And>x k v. lg_owner g x = Some k \<Longrightarrow> lg_rows g k = Some v \<Longrightarrow> \<not> terminal v"
    and "\<And>k v. lg_rows g k = Some v \<Longrightarrow> \<not> terminal v \<Longrightarrow> \<forall>x. lg_owner g x \<noteq> Some k \<Longrightarrow> k \<in> lg_lost g"
  shows "ledger_ok g"
  using assms unfolding ledger_ok_def by blast

lemma ledger_ok_hires:
  assumes g: "ledger_ok g" and x: "lg_owner g x = None" and n: "Suc (lg_count g) \<le> 2 ^ 64"
  shows "ledger_ok (g\<lparr>lg_owner := (lg_owner g)(x \<mapsto> name_after (lg_count g)), lg_count := Suc (lg_count g)\<rparr>)"
proof -
  let ?new = "name_after (lg_count g)"
  note ok = ledger_ok_owner[OF g]
  have new: "\<not> named (lg_count g) ?new" using n by (intro not_named_yet) simp
  have free: "lg_owner g y \<noteq> Some ?new" "lg_rows g ?new \<noteq> Some v" for y v
    using new ok(2,4) by blast+
  show ?thesis
  proof (rule ledger_okI, goal_cases)
    case (1 y k)
    then show ?case using ok(2) by (auto simp: named_Suc split: if_splits)
  next
    case (2 k v)
    then show ?case using ok(4) by (auto simp: named_Suc)
  next
    case (3 y z k)
    then show ?case using ok(1) free(1) by (auto split: if_splits)
  next
    case (4 y k v)
    then show ?case using ok(3) free(2) by (auto split: if_splits)
  next
    case (5 k v)
    have "lg_owner g y \<noteq> Some k" for y using 5(3) x by (cases "y = x") (auto dest: spec[of _ y])
    with 5 ok(5) show ?case by auto
  qed
qed

lemma ledger_ok_step:
  assumes "lstep g g'" "ledger_ok g" "lg_count g' \<le> 2 ^ 64"
  shows "ledger_ok g'"
  using assms
proof (induction rule: lstep.induct)
  case (hires g x)
  then show ?case by (intro ledger_ok_hires) simp_all
next
  case (posts g x v)
  note ok = ledger_ok_owner[OF posts.prems(1)]
  show ?case
  proof (rule ledger_okI, goal_cases)
    case (2 k u)
    then show ?case using ok(4) ok(2)[OF posts.hyps(1)] by (auto split: if_splits)
  next
    case (4 y k u)
    then show ?case using ok(3) posts.hyps(2) by (auto split: if_splits)
  next
    case (5 k u)
    then show ?case using ok(5) posts.hyps(1) by (auto split: if_splits)
  qed (use ok(1,2) in auto)
next
  case (closes g x v)
  note ok = ledger_ok_owner[OF closes.prems(1)]
  show ?case
  proof (rule ledger_okI, goal_cases)
    case (2 k u)
    then show ?case using ok(4) ok(2)[OF closes.hyps(1)] by (auto split: if_splits)
  next
    case (3 y z k)
    then show ?case using ok(1) by (auto split: if_splits)
  next
    case (4 y k u)
    then show ?case using ok(3) ok(1)[OF closes.hyps(1)] by (auto split: if_splits)
  next
    case (5 k u)
    have k: "k \<noteq> jv_job v" using 5 closes.hyps(2) by (auto split: if_splits)
    have "lg_owner g y \<noteq> Some k" for y
      using 5(3) closes.hyps(1) k by (cases "y = x") (auto dest: spec[of _ y])
    with 5 k ok(5) show ?case by auto
  qed (use ok(2) in \<open>auto split: if_splits\<close>)
next
  case (hands g x k y)
  note ok = ledger_ok_owner[OF hands.prems(1)]
  have xy: "x \<noteq> y" using hands.hyps by auto
  show ?case
  proof (rule ledger_okI, goal_cases)
    case (1 z l)
    then show ?case using ok(2) hands.hyps by (auto split: if_splits)
  next
    case (3 z z' l)
    then show ?case using ok(1) hands.hyps by (auto split: if_splits)
  next
    case (4 z l u)
    then show ?case using ok(3) hands.hyps by (auto split: if_splits)
  next
    case (5 l u)
    have "lg_owner g z \<noteq> Some l" for z
      using 5(3) hands.hyps xy by (cases "z = x"; cases "z = y") (auto dest: spec[of _ z] spec[of _ y])
    with 5 ok(5) show ?case by auto
  qed (use ok(4) in auto)
next
  case (loses g x k)
  note ok = ledger_ok_owner[OF loses.prems(1)]
  show ?case
  proof (rule ledger_okI, goal_cases)
    case (3 z z' l)
    then show ?case using ok(1) by (auto split: if_splits)
  next
    case (4 z l u)
    then show ?case using ok(3) by (auto split: if_splits)
  next
    case (5 l u)
    have "lg_owner g z \<noteq> Some l" if "l \<noteq> k" for z
      using 5(3) loses.hyps that by (cases "z = x") (auto dest: spec[of _ z])
    with 5 ok(5) show ?case by auto
  qed (use ok(2,4) in \<open>auto split: if_splits\<close>)
next
  case (releases g k)
  note ok = ledger_ok_owner[OF releases.prems(1)]
  show ?case
  proof (rule ledger_okI, goal_cases)
    case (5 l u)
    then show ?case using ok(5) by (auto split: if_splits)
  qed (use ok(1-4) in \<open>auto split: if_splits\<close>)
qed

section \<open>A finished row is final\<close>

definition settled_row :: "string \<Rightarrow> job_view \<Rightarrow> ledger \<Rightarrow> bool" where
  "settled_row k v g \<longleftrightarrow> named (lg_count g) k \<and> (\<forall>x. lg_owner g x \<noteq> Some k)
     \<and> (lg_rows g k = Some v \<or> lg_rows g k = None)"

lemma settled_row_start:
  "ledger_ok g \<Longrightarrow> lg_rows g k = Some v \<Longrightarrow> terminal v \<Longrightarrow> settled_row k v g"
  unfolding settled_row_def using ledger_ok_owner(3,4) by blast

lemma settled_row_step:
  assumes "lstep g g'" "settled_row k v g" "lg_count g' \<le> 2 ^ 64"
  shows "settled_row k v g'"
  using assms
proof (induction rule: lstep.induct)
  case (hires g x)
  then show ?case using not_named_yet[of "lg_count g"] by (auto simp: settled_row_def named_Suc)
qed (auto simp: settled_row_def)

section \<open>Whoever keeps a ledger\<close>

text \<open>
  A system keeps a ledger when each of its moves is a step of the book that can be read off its state.
  What holds of ledgers then holds of it.
\<close>

locale ledger_keeping =
  fixes start :: 'd and move :: "'d \<Rightarrow> 'd \<Rightarrow> bool" and good :: "'d \<Rightarrow> bool" and book :: "'d \<Rightarrow> ledger"
  assumes good_start: "good start" and book_start: "book start = ledger_new"
    and good_move: "move d d' \<Longrightarrow> good d \<Longrightarrow> good d'"
    and book_move: "move d d' \<Longrightarrow> good d \<Longrightarrow> lstep (book d) (book d')"
begin

lemma count_grows: "move\<^sup>*\<^sup>* d d' \<Longrightarrow> good d \<Longrightarrow> good d' \<and> lg_count (book d) \<le> lg_count (book d')"
proof (induction rule: rtranclp_induct)
  case (step d1 d2)
  then show ?case using good_move lstep_count[OF book_move] by fastforce
qed simp

lemma keeps_good: "move\<^sup>*\<^sup>* start d \<Longrightarrow> good d"
  using count_grows good_start by blast

lemma keeps_ok: "move\<^sup>*\<^sup>* start d \<Longrightarrow> lg_count (book d) \<le> 2 ^ 64 \<Longrightarrow> ledger_ok (book d)"
proof (induction rule: rtranclp_induct)
  case (step d1 d2)
  note b = book_move[OF step.hyps(2) keeps_good[OF step.hyps(1)]]
  from lstep_count[OF b] step.IH step.prems have "ledger_ok (book d1)" by simp
  then show ?case by (rule ledger_ok_step[OF b _ step.prems])
qed (simp add: book_start ledger_ok_new)

lemma keeps_settled:
  "move\<^sup>*\<^sup>* d d' \<Longrightarrow> good d \<Longrightarrow> settled_row k v (book d) \<Longrightarrow> lg_count (book d') \<le> 2 ^ 64 \<Longrightarrow> settled_row k v (book d')"
proof (induction rule: rtranclp_induct)
  case (step d1 d2)
  from count_grows[OF step.hyps(1) step.prems(1)] have "good d1" by blast
  note b = book_move[OF step.hyps(2) this]
  from lstep_count[OF b] step.IH step.prems have "settled_row k v (book d1)" by simp
  then show ?case by (rule settled_row_step[OF b _ step.prems(3)])
qed

lemma finished_is_final:
  assumes "move\<^sup>*\<^sup>* start d" "move\<^sup>*\<^sup>* d d'" "lg_count (book d') \<le> 2 ^ 64"
    and "lg_rows (book d) k = Some v" "terminal v"
  shows "lg_rows (book d') k = Some v \<or> lg_rows (book d') k = None"
proof -
  have g: "good d" by (rule keeps_good[OF assms(1)])
  have "lg_count (book d) \<le> 2 ^ 64" using count_grows[OF assms(2) g] assms(3) by simp
  then have "settled_row k v (book d)"
    by (intro settled_row_start keeps_ok assms)
  from keeps_settled[OF assms(2) g this assms(3)] show ?thesis by (simp add: settled_row_def)
qed

lemma unfinished_is_worked_on:
  assumes "move\<^sup>*\<^sup>* start d" "lg_count (book d) \<le> 2 ^ 64" "lg_rows (book d) k = Some v" "\<not> terminal v"
  shows "(\<exists>!x. lg_owner (book d) x = Some k) \<or> k \<in> lg_lost (book d)"
  using ledger_ok_owner(5)[OF keeps_ok[OF assms(1,2)] assms(3,4)] ledger_ok_owner(1)[OF keeps_ok[OF assms(1,2)]] by blast

end

end
