(* ===== verification/Daemon.thy ===== *)
theory Daemon
  imports Reader Interleaving Ledger
begin

text \<open>
  The whole daemon (\<open>serve\<close> of \<open>daemon/src/server.rs\<close>): any number of connections, each with its reader (theory
  \<open>Reader\<close>) and its writer (theory \<open>Writer\<close>), and the threads of the Jobs the readers have spawned, all over
  one registry, one step of one thread at a time. A Job's thread is the sequence of rows its run of
  \<open>run_job\<close> puts, on whatever file system and machine (\<open>job_puts\<close>; theory \<open>Interleaving\<close> shows that what others put
  in between cannot change it), each in two steps, the entry and the revision. The daemon keeps the ledger of theory \<open>Ledger\<close>.
\<close>

section \<open>The state and its steps\<close>

text \<open>
  A Job's thread: the rows it has left to put, and whether it ends after the last of them (it does not
  when its run is one that a kill cuts short). In \<open>Marking\<close> the row is in and the revision is next.
\<close>

datatype thread = Unborn | Working string "job_view list" bool | Marking string "job_view list" bool

text \<open>
  Connections that were never made stand at \<open>Away\<close>. The lines of the two threads of a connection are
  kept apart: \<open>dm_answers\<close> by the reader, \<open>dm_news\<close> by the writer (and the opening). \<open>dm_hired\<close> is a history
  variable, the Jobs numbered so far.
\<close>

record daemon =
  dm_shared :: shared
  dm_readers :: "nat \<Rightarrow> reader_pc"
  dm_answers :: "nat \<Rightarrow> event list"
  dm_writers :: "nat \<Rightarrow> writer"
  dm_news :: "nat \<Rightarrow> event list"
  dm_threads :: "nat \<Rightarrow> thread"
  dm_hired :: nat

definition daemon_new :: daemon where
  "daemon_new =
     \<lparr>dm_shared = shared_new, dm_readers = \<lambda>i. Away, dm_answers = \<lambda>i. [],
      dm_writers = \<lambda>i. lk_writer (link_new shared_new), dm_news = \<lambda>i. [], dm_threads = \<lambda>t. Unborn, dm_hired = 0\<rparr>"

definition desk_at :: "daemon \<Rightarrow> nat \<Rightarrow> desk" where
  "desk_at d i = \<lparr>dk_shared = dm_shared d, dk_pc = dm_readers d i, dk_out = dm_answers d i\<rparr>"

definition with_desk :: "nat \<Rightarrow> desk \<Rightarrow> daemon \<Rightarrow> daemon" where
  "with_desk i k d =
     d\<lparr>dm_shared := dk_shared k, dm_readers := (dm_readers d)(i := dk_pc k), dm_answers := (dm_answers d)(i := dk_out k),
       dm_hired := (if sh_next_job (dk_shared k) = sh_next_job (dm_shared d) then dm_hired d else Suc (dm_hired d))\<rparr>"

definition link_at :: "daemon \<Rightarrow> nat \<Rightarrow> link" where
  "link_at d i = \<lparr>lk_shared = dm_shared d, lk_writer = dm_writers d i, lk_out = dm_news d i\<rparr>"

definition with_link :: "nat \<Rightarrow> link \<Rightarrow> daemon \<Rightarrow> daemon" where
  "with_link i l d =
     d\<lparr>dm_shared := lk_shared l, dm_writers := (dm_writers d)(i := lk_writer l), dm_news := (dm_news d)(i := lk_out l)\<rparr>"

text \<open>
  The opening (snapshot, number, first \<open>State\<close> line) is done by the reader's thread before it spawns
  the writer's: the reader waits at \<open>Opening\<close>, and reads on when the line is written.
\<close>

fun in_opening :: "writer_pc \<Rightarrow> bool" where
  "in_opening Greeting = True"
| "in_opening (Opened js) = True"
| "in_opening (Stating ev) = True"
| "in_opening pc = False"

definition after_opening :: "writer_pc \<Rightarrow> writer_pc \<Rightarrow> reader_pc \<Rightarrow> reader_pc" where
  "after_opening before now pc =
     (if in_opening before \<and> \<not> in_opening now then if now = Gone then Ended None else Reading else pc)"

definition with_reader :: "nat \<Rightarrow> reader_pc \<Rightarrow> daemon \<Rightarrow> daemon" where
  "with_reader i pc d = d\<lparr>dm_readers := (dm_readers d)(i := pc)\<rparr>"

definition with_thread :: "nat \<Rightarrow> thread \<Rightarrow> daemon \<Rightarrow> daemon" where
  "with_thread t th d = d\<lparr>dm_threads := (dm_threads d)(t := th)\<rparr>"

definition with_shared :: "shared \<Rightarrow> daemon \<Rightarrow> daemon" where
  "with_shared s d = d\<lparr>dm_shared := s\<rparr>"

inductive dstep :: "daemon \<Rightarrow> daemon \<Rightarrow> bool" where
  reader_steps: "rstep (desk_at d i) None k \<Longrightarrow> dstep d (with_desk i k d)"
| reader_spawns: "rstep (desk_at d i) (Some js) k \<Longrightarrow> dm_threads d t = Unborn \<Longrightarrow>
    run_job D js w = (r :: (io_error, unit) res, w') \<Longrightarrow>
    dstep d (with_thread t (Working (jv_job (js_base js)) (job_puts D js w) (r = Ok ())) (with_desk i k d))"
| writer_steps: "a_hash_order ord \<Longrightarrow> writer_step ord ok (link_at d i) = Some l \<Longrightarrow>
    in_opening (wr_pc (dm_writers d i)) \<longrightarrow> dm_readers d i = Opening \<Longrightarrow>
    dstep d (with_reader i (after_opening (wr_pc (dm_writers d i)) (wr_pc (lk_writer l)) (dm_readers d i)) (with_link i l d))"
| thread_inserts: "dm_threads d t = Working job (v # vs) ends \<Longrightarrow>
    dstep d (with_thread t (Marking job vs ends) (with_shared (insert_row v (dm_shared d)) d))"
| thread_bumps: "dm_threads d t = Marking job vs ends \<Longrightarrow>
    dstep d (with_thread t (Working job vs ends) (with_shared (bump (dm_shared d)) d))"

section \<open>The book of the daemon\<close>

fun reader_job :: "reader_pc \<Rightarrow> string option" where
  "reader_job (Sizing i job sources d checksum rule is_move) = Some job"
| "reader_job (Inserting i js) = Some (jv_job (js_base js))"
| "reader_job (Revising i js) = Some (jv_job (js_base js))"
| "reader_job (Numbering f (Then_spawn js)) = Some (jv_job (js_base js))"
| "reader_job (Writing ev (Then_spawn js)) = Some (jv_job (js_base js))"
| "reader_job (Spawning js) = Some (jv_job (js_base js))"
| "reader_job pc = None"

fun thread_job :: "thread \<Rightarrow> string option" where
  "thread_job Unborn = None"
| "thread_job (Working job vs ends) = (if vs = [] \<and> ends then None else Some job)"
| "thread_job (Marking job vs ends) = (if vs = [] \<and> ends then None else Some job)"

primrec owner :: "daemon \<Rightarrow> worker \<Rightarrow> string option" where
  "owner d (Reader i) = reader_job (dm_readers d i)"
| "owner d (Thread t) = thread_job (dm_threads d t)"

text \<open>The Jobs whose client could not be told: the thread ended before it spawned another for them.\<close>

fun lost_by :: "reader_pc \<Rightarrow> string set" where
  "lost_by (Ended (Some js)) = {jv_job (js_base js)}"
| "lost_by pc = {}"

definition unpromised :: "daemon \<Rightarrow> string set" where
  "unpromised d = (\<Union>i. lost_by (dm_readers d i))"

definition book :: "daemon \<Rightarrow> ledger" where
  "book d = \<lparr>lg_owner = owner d, lg_rows = lookup_job (dm_shared d), lg_lost = unpromised d, lg_count = dm_hired d\<rparr>"

text \<open>What each thread knows of its own Job.\<close>

definition first_view :: "job_spec \<Rightarrow> bool" where
  "first_view js \<longleftrightarrow>
     js_base js = base_view (jv_job (js_base js)) (js_sources js) (js_destination_dir js) (js_expected_total js)"

fun reader_knows :: "reader_pc \<Rightarrow> bool" where
  "reader_knows (Inserting i js) = first_view js"
| "reader_knows (Revising i js) = first_view js"
| "reader_knows (Numbering f (Then_spawn js)) = first_view js"
| "reader_knows (Writing ev (Then_spawn js)) = first_view js"
| "reader_knows (Spawning js) = first_view js"
| "reader_knows pc = True"

definition rows_left :: "string \<Rightarrow> job_view list \<Rightarrow> bool \<Rightarrow> bool" where
  "rows_left job vs ends \<longleftrightarrow> (\<forall>v \<in> set vs. jv_job v = job)
     \<and> (if ends then vs = [] \<or> (\<forall>v \<in> set (butlast vs). \<not> terminal v) \<and> terminal (last vs) else \<forall>v \<in> set vs. \<not> terminal v)"

fun thread_knows :: "thread \<Rightarrow> bool" where
  "thread_knows Unborn = True"
| "thread_knows (Working job vs ends) = rows_left job vs ends"
| "thread_knows (Marking job vs ends) = rows_left job vs ends"

definition daemon_good :: "daemon \<Rightarrow> bool" where
  "daemon_good d \<longleftrightarrow> registry_ok (dm_shared d) \<and> sh_next_job (dm_shared d) = of_nat (Suc (dm_hired d))
     \<and> (\<forall>i. reader_knows (dm_readers d i)) \<and> (\<forall>t. thread_knows (dm_threads d t))"

section \<open>The daemon keeps its book\<close>

text \<open>What each field of the book becomes.\<close>

lemma unpromised_upd:
  assumes "lost_by (dm_readers d i) = {}" "dm_readers d' = (dm_readers d)(i := pc)"
  shows "unpromised d' = lost_by pc \<union> unpromised d"
proof -
  have "lost_by (dm_readers d j) \<subseteq> (\<Union>k. lost_by (((dm_readers d)(i := pc)) k))" for j
    using assms(1) by (cases "j = i") (auto intro: exI[of _ j])
  then show ?thesis using assms(2) by (auto simp: unpromised_def split: if_splits)
qed

lemma owner_reader: "dm_readers d' = (dm_readers d)(i := pc) \<Longrightarrow> dm_threads d' = dm_threads d \<Longrightarrow>
    owner d' = (owner d)(Reader i := reader_job pc)"
  by (rule ext, rename_tac x, case_tac x) auto

lemma owner_thread: "dm_threads d' = (dm_threads d)(t := th) \<Longrightarrow> dm_readers d' = dm_readers d \<Longrightarrow>
    owner d' = (owner d)(Thread t := thread_job th)"
  by (rule ext, rename_tac x, case_tac x) auto

lemma book_with_desk:
  assumes "lost_by (dm_readers d i) = {}"
  shows "book (with_desk i k d) =
     \<lparr>lg_owner = (owner d)(Reader i := reader_job (dk_pc k)), lg_rows = lookup_job (dk_shared k),
      lg_lost = lost_by (dk_pc k) \<union> unpromised d,
      lg_count = (if sh_next_job (dk_shared k) = sh_next_job (dm_shared d) then dm_hired d else Suc (dm_hired d))\<rparr>"
  unfolding book_def
  using unpromised_upd[OF assms, of "with_desk i k d" "dk_pc k"] owner_reader[of "with_desk i k d" d i "dk_pc k"]
  by (simp add: with_desk_def)

lemma book_with_thread:
  "book (with_thread t th (with_shared s d)) =
     \<lparr>lg_owner = (owner d)(Thread t := thread_job th), lg_rows = lookup_job s, lg_lost = unpromised d, lg_count = dm_hired d\<rparr>"
  using owner_thread[of "with_thread t th (with_shared s d)" d t th]
  by (simp add: book_def with_thread_def with_shared_def unpromised_def)

text \<open>A row goes in: it is posted, or it closes the Job.\<close>

lemma next_row:
  assumes "rows_left job (v # vs) ends"
  shows "jv_job v = job" "rows_left job vs ends" "terminal v \<longleftrightarrow> vs = [] \<and> ends"
  using assms by (auto simp: rows_left_def split: if_splits)

lemma book_thread_inserts:
  assumes "dm_threads d t = Working job (v # vs) ends" "rows_left job (v # vs) ends"
  shows "lstep (book d) (book (with_thread t (Marking job vs ends) (with_shared (insert_row v (dm_shared d)) d)))"
proof -
  note v = next_row[OF assms(2)]
  have own: "lg_owner (book d) (Thread t) = Some (jv_job v)" using assms(1) v(1) by (simp add: book_def[of d])
  have rows: "lookup_job (insert_row v s) = (lookup_job s)(jv_job v \<mapsto> v)" for s by (rule halves_keep)
  show ?thesis
  proof (cases "terminal v")
    case True
    from lstep.closes[OF own True] show ?thesis
      using True v(3) by (simp add: book_with_thread book_def[of d] rows)
  next
    case False
    have "(owner d)(Thread t := Some job) = owner d" using own v(1) by (auto simp: book_def[of d] fun_eq_iff)
    then show ?thesis
      using lstep.posts[OF own False] False v(3) by (auto simp: book_with_thread book_def[of d] rows)
  qed
qed

lemma book_thread_bumps:
  assumes "dm_threads d t = Marking job vs ends"
  shows "lstep (book d) (book (with_thread t (Working job vs ends) (with_shared (bump (dm_shared d)) d)))"
proof -
  have "(owner d)(Thread t := thread_job (Working job vs ends)) = owner d" using assms by (auto simp: fun_eq_iff)
  then show ?thesis
    using lstep.stays[of "book d"] by (simp add: book_with_thread book_def[of d] halves_keep(2) del: thread_job.simps)
qed

lemma base_not_terminal: "first_view js \<Longrightarrow> \<not> terminal (js_base js)"
  unfolding first_view_def by (erule ssubst) (simp add: base_view_def terminal_def)

text \<open>The reader's steps, by what they do to the book.\<close>

lemma book_reader_stays:
  assumes "lost_by (dm_readers d i) = {}" "lost_by (dk_pc k) = {}"
    and "sh_next_job (dk_shared k) = sh_next_job (dm_shared d)" "lookup_job (dk_shared k) = lookup_job (dm_shared d)"
    and "reader_job (dk_pc k) = reader_job (dm_readers d i)"
  shows "lstep (book d) (book (with_desk i k d))"
proof -
  have "(owner d)(Reader i := reader_job (dk_pc k)) = owner d" using assms(5) by (auto simp: fun_eq_iff)
  then show ?thesis
    using lstep.stays[of "book d"] assms(2-4) by (simp add: book_with_desk[OF assms(1)] book_def[of d])
qed

lemma shared_keeps [simp]:
  "lookup_job (snd (next_seq s)) = lookup_job s" "sh_next_job (snd (next_seq s)) = sh_next_job s"
  "sh_next_job (remove job s) = sh_next_job s" "sh_next_job (insert_row v s) = sh_next_job s"
  "sh_next_job (bump s) = sh_next_job s"
  by (simp_all add: next_seq_def lookup_job_def remove_def insert_row_def bump_def)

lemma next_seq_snd: "next_seq s = (q, s') \<Longrightarrow> s' = snd (next_seq s)"
  by simp

lemma book_reader:
  assumes "rstep k0 js k" "k0 = desk_at d i" "js = None" "daemon_good d"
  shows "lstep (book d) (book (with_desk i k d))"
  using assms
proof (induction rule: rstep.induct)
  case (reads_transfer k n s i' sources d' checksum rule is_move)
  let ?g = "book d"
  have pc: "dm_readers d i = Reading" and sh: "dk_shared k = dm_shared d" using reads_transfer by (simp_all add: desk_at_def)
  have n: "n = of_nat (Suc (dm_hired d))" "sh_next_job s \<noteq> sh_next_job (dm_shared d)" "lookup_job s = lookup_job (dm_shared d)"
    using reads_transfer by (auto simp: daemon_good_def next_job_id_def desk_at_def lookup_job_def)
  have "lg_owner ?g (Reader i) = None" using pc by (simp add: book_def[of d])
  from lstep.hires[OF this] show ?case
    using pc n by (simp add: book_with_desk book_def[of d] at_def sharing_def name_after_def)
next
  case (reads_release k i' job)
  have "lg_owner (book d) = (owner d)(Reader i := None)" using reads_release by (auto simp: book_def[of d] desk_at_def fun_eq_iff)
  with lstep.releases[of "book d" job] reads_release show ?case
    by (simp add: book_with_desk book_def[of d] at_def sharing_def desk_at_def registry.look_del)
next
  case (inserts k i' js)
  then have pc: "dm_readers d i = Inserting i' js" by (simp add: desk_at_def)
  have "first_view js" using inserts.prems(3) pc by (metis daemon_good_def reader_knows.simps(1))
  note v = base_not_terminal[OF this]
  have "lg_owner (book d) (Reader i) = Some (jv_job (js_base js))" using pc by (simp add: book_def[of d])
  from lstep.posts[OF this v] show ?case
    using pc inserts
    by (simp add: book_with_desk book_def[of d] at_def sharing_def desk_at_def halves_keep(4) fun_upd_idem)
next
  case (breaks k ev a)
  then have pc: "dm_readers d i = Writing ev a" by (simp add: desk_at_def)
  show ?case
  proof (cases a)
    case (Then_spawn js)
    have "lg_owner (book d) (Reader i) = Some (jv_job (js_base js))" using pc Then_spawn by (simp add: book_def[of d])
    from lstep.loses[OF this] show ?thesis
      using pc Then_spawn breaks by (simp add: book_with_desk book_def[of d] at_def desk_at_def)
  qed (rule book_reader_stays; use breaks pc in \<open>simp add: desk_at_def at_def\<close>)+
next
  case (writes k ev a)
  then show ?case by (intro book_reader_stays) (cases a; simp add: desk_at_def at_def)+
next
  case (numbers k f a q s)
  note next_seq_snd[OF numbers.hyps(2)]
  with numbers show ?case by (intro book_reader_stays) (cases a; simp add: desk_at_def at_def sharing_def)+
next
  case (draws k q s)
  note next_seq_snd[OF draws.hyps(2)]
  with draws show ?case by (intro book_reader_stays) (simp_all add: desk_at_def at_def sharing_def)
next
  case (bumps k i' js)
  then show ?case by (intro book_reader_stays) (simp_all add: desk_at_def at_def sharing_def halves_keep)
next
  case (sizes k i' job sources d' checksum rule is_move w n w')
  then show ?case by (intro book_reader_stays) (simp_all add: desk_at_def at_def new_job_def base_view_def)
next
  case (spawns k js)
  then show ?case by simp
qed (rule book_reader_stays; simp add: desk_at_def at_def sharing_def)+

lemma told_thread: "job_told job (r :: ('e, unit) res) vs \<Longrightarrow> thread_job (Working job vs (r = Ok ())) = Some job"
  by (cases r) (auto simp: job_told_def ended_puts_def)

lemma spawned_told:
  assumes "rstep (desk_at d i) (Some js) k" "daemon_good d" "run_job D js w = (r :: (io_error, unit) res, w')"
  shows "job_told (jv_job (js_base js)) r (job_puts D js w)"
proof -
  from assms(1) have "dm_readers d i = Spawning js" by (auto elim: rstep.cases simp: desk_at_def)
  with assms(2) have "first_view js" by (metis daemon_good_def reader_knows.simps(5))
  with run_job_puts[OF assms(3)] show ?thesis by (simp add: first_view_def)
qed

lemma book_spawns:
  assumes "rstep (desk_at d i) (Some js) k" "dm_threads d t = Unborn" "job_told (jv_job (js_base js)) (r :: ('e, unit) res) vs"
  shows "lstep (book d) (book (with_thread t (Working (jv_job (js_base js)) vs (r = Ok ())) (with_desk i k d)))"
proof -
  from assms(1) have pc: "dm_readers d i = Spawning js" and k: "k = at Reading (desk_at d i)"
    by (auto elim: rstep.cases simp: desk_at_def)
  let ?d = "with_desk i k d"
  have d: "with_shared (dm_shared ?d) ?d = ?d" by (simp add: with_shared_def)
  have book': "lg_owner (book ?d) = (owner d)(Reader i := None)" "lg_rows (book ?d) = lookup_job (dm_shared d)"
    "lg_lost (book ?d) = unpromised d" "lg_count (book ?d) = dm_hired d"
    using book_with_desk[of d i k] pc k by (simp_all add: at_def desk_at_def)
  have "lg_owner (book d) (Reader i) = Some (jv_job (js_base js))" "lg_owner (book d) (Thread t) = None"
    using pc assms(2) by (simp_all add: book_def[of d])
  from lstep.hands[OF this] show ?thesis
    using book_with_thread[of t "Working (jv_job (js_base js)) vs (r = Ok ())" "dm_shared ?d" ?d, unfolded d] book'
      told_thread[OF assms(3)]
    by (simp add: book_def[of d] book_def[of ?d] del: thread_job.simps)
qed

text \<open>The writer draws numbers and writes lines, and no more.\<close>

lemma writer_shared:
  assumes "writer_step ord ok l = Some l'"
  shows "lk_shared l' = lk_shared l \<or> lk_shared l' = snd (next_seq (lk_shared l))"
  using assms
  by (auto simp: writer_step_def set_pc_def prepare_def post_def next_seq_def split: writer_pc.splits list.splits)

lemma book_writer:
  assumes "writer_step ord ok (link_at d i) = Some l" "in_opening (wr_pc (dm_writers d i)) \<longrightarrow> dm_readers d i = Opening"
  shows "lstep (book d) (book (with_reader i (after_opening (wr_pc (dm_writers d i)) pc (dm_readers d i)) (with_link i l d)))"
proof -
  let ?pc = "after_opening (wr_pc (dm_writers d i)) pc (dm_readers d i)"
  let ?d = "with_reader i ?pc (with_link i l d)"
  have s: "lookup_job (lk_shared l) = lookup_job (dm_shared d)"
    using writer_shared[OF assms(1)] by (auto simp: link_at_def)
  have same: "reader_job ?pc = reader_job (dm_readers d i)" "lost_by ?pc = lost_by (dm_readers d i)"
    using assms(2) by (auto simp: after_opening_def)
  have "owner ?d = (owner d)(Reader i := reader_job ?pc)"
    by (rule owner_reader) (simp_all add: with_reader_def with_link_def)
  then have "owner ?d = owner d" using same(1) by (auto simp: fun_eq_iff)
  moreover have "lost_by (dm_readers ?d j) = lost_by (dm_readers d j)" for j
    using same(2) by (simp add: with_reader_def with_link_def)
  then have "unpromised ?d = unpromised d" by (simp add: unpromised_def)
  ultimately show ?thesis
    using lstep.stays[of "book d"] s by (simp add: book_def with_reader_def with_link_def)
qed

section \<open>What each thread knows stays true\<close>

lemma good_reader:
  assumes "rstep k0 js k" "k0 = desk_at d i" "daemon_good d"
  shows "daemon_good (with_desk i k d)"
proof -
  have d: "registry_ok (dm_shared d)" "sh_next_job (dm_shared d) = of_nat (Suc (dm_hired d))"
    "\<And>i. reader_knows (dm_readers d i)" "\<And>t. thread_knows (dm_threads d t)"
    using assms(3) by (auto simp: daemon_good_def)
  have pc: "reader_knows (dk_pc k0)" "dk_shared k0 = dm_shared d" using d(3)[of i] assms(2) by (simp_all add: desk_at_def)
  have "reader_knows (dk_pc k) \<and> registry_ok (dk_shared k)
      \<and> sh_next_job (dk_shared k) \<in> {sh_next_job (dm_shared d), sh_next_job (dm_shared d) + 1}"
    using assms(1) pc d(1)
  proof (induction rule: rstep.induct)
    case (sizes k i' job sources d' checksum rule is_move w n w')
    then show ?case by (simp add: at_def first_view_def new_job_def base_view_def)
  next
    case (writes k ev a)
    then show ?case by (cases a) (simp_all add: at_def)
  next
    case (breaks k ev a)
    then show ?case by (cases a) (simp_all add: at_def)
  next
    case (numbers k f a q s)
    then show ?case by (cases a) (auto simp: at_def sharing_def next_seq_def registry_ok_def)
  next
    case (reads_transfer k n s)
    then show ?case by (auto simp: at_def sharing_def next_job_id_def registry_ok_def)
  next
    case (draws k q s)
    then show ?case by (auto simp: at_def sharing_def next_seq_def registry_ok_def)
  qed (simp_all add: at_def sharing_def registry_ok_remove halves_keep)
  then show ?thesis
    using d by (auto simp: daemon_good_def with_desk_def)
qed

lemma rows_left_told:
  assumes "job_told job (r :: ('e, unit) res) vs"
  shows "rows_left job vs (r = Ok ())"
proof -
  have run: "\<not> terminal v" if "running_row v" for v using that by (simp add: row_defs terminal_def)
  have last: "terminal v" if "last_row k v" for k v using that by (auto simp: last_row_def row_defs terminal_def)
  show ?thesis
  proof (cases r)
    case (Ok u)
    then obtain us v where vs: "vs = us @ [v]" and us: "running_puts job us" and v: "last_row job v"
      using assms job_told_Ok by metis
    then show ?thesis using Ok run last[OF v] by (auto simp: rows_left_def running_puts_def last_row_def)
  qed (use assms run in \<open>auto simp: job_told_def rows_left_def running_puts_def\<close>)
qed

lemma good_start: "daemon_good daemon_new"
  by (simp add: daemon_good_def daemon_new_def shared_new_def registry_ok_def)

lemma good_step: "dstep d d' \<Longrightarrow> daemon_good d \<Longrightarrow> daemon_good d'"
proof (induction rule: dstep.induct)
  case (reader_steps d i k)
  then show ?case by (blast intro: good_reader)
next
  case (reader_spawns d i js k t D w r w')
  from good_reader[OF reader_spawns.hyps(1) refl reader_spawns.prems]
    rows_left_told[OF spawned_told[OF reader_spawns.hyps(1) reader_spawns.prems reader_spawns.hyps(3)]]
  show ?case by (simp add: daemon_good_def with_thread_def)
next
  case (writer_steps ord ok d i l)
  have "reader_knows (after_opening (wr_pc (dm_writers d i)) (wr_pc (lk_writer l)) (dm_readers d i))"
    using writer_steps.prems by (simp add: daemon_good_def after_opening_def)
  with writer_shared[OF writer_steps.hyps(2)] writer_steps.prems show ?case
    by (auto simp: daemon_good_def with_reader_def with_link_def link_at_def)
next
  case (thread_inserts d t job v vs ends)
  then have "rows_left job (v # vs) ends" by (metis daemon_good_def thread_knows.simps(2))
  from next_row(2)[OF this] thread_inserts show ?case
    by (auto simp: daemon_good_def with_thread_def with_shared_def halves_keep)
next
  case (thread_bumps d t job vs ends)
  then have "rows_left job vs ends" by (metis daemon_good_def thread_knows.simps(3))
  with thread_bumps show ?case
    by (auto simp: daemon_good_def with_thread_def with_shared_def halves_keep)
qed

lemma book_step: "dstep d d' \<Longrightarrow> daemon_good d \<Longrightarrow> lstep (book d) (book d')"
proof (induction rule: dstep.induct)
  case (thread_inserts d t job v vs ends)
  then have "rows_left job (v # vs) ends" by (metis daemon_good_def thread_knows.simps(2))
  with thread_inserts show ?case by (blast intro: book_thread_inserts)
next
  case (reader_spawns d i js k t D w r w')
  from spawned_told[OF reader_spawns.hyps(1) reader_spawns.prems reader_spawns.hyps(3)] reader_spawns.hyps
  show ?case by (blast intro: book_spawns)
qed (blast intro: book_reader book_writer book_thread_bumps)+

interpretation jobs: ledger_keeping daemon_new dstep daemon_good book
proof
  have "owner daemon_new x = None" for x by (cases x) (simp_all add: daemon_new_def)
  then show "book daemon_new = ledger_new"
    by (simp add: book_def ledger_new_def fun_eq_iff) (simp add: daemon_new_def unpromised_def lookup_job_def shared_new_def)
qed (fact good_start good_step book_step)+

end
