(* ===== verification/Serving.thy ===== *)
theory Serving
  imports Daemon
begin

text \<open>
  What the whole daemon promises to its clients, at every moment of every run: each connection is one
  of theory \<open>Writer\<close> with the reader's lines beside its own, and the rows of the registry are those of a ledger that is kept. A concrete
  day of the daemon (one client, one request, one Job) is at the end.
\<close>

section \<open>Each connection is a connection of theory \<open>Writer\<close>\<close>

text \<open>What one step of a thread can do to what is shared.\<close>

definition touched :: "shared \<Rightarrow> shared \<Rightarrow> bool" where
  "touched s s' \<longleftrightarrow> s' = s \<or> (\<exists>v. s' = insert_row v s) \<or> s' = bump s \<or> (\<exists>job. s' = remove job s)
     \<or> s' = snd (next_seq s) \<or> s' = snd (next_job_id s)"

lemma rstep_touches: "rstep k js k' \<Longrightarrow> touched (dk_shared k) (dk_shared k')"
  unfolding touched_def
  by (induction rule: rstep.induct) (auto simp: at_def sharing_def dest: next_seq_snd)

lemma touched_step:
  assumes "touched (lk_shared l) s"
  shows "l\<lparr>lk_shared := s\<rparr> = l \<or> step l (l\<lparr>lk_shared := s\<rparr>)"
  using assms unfolding touched_def by (auto intro: step.intros)

lemma dstep_link:
  assumes "dstep d d'"
  shows "link_at d' j = link_at d j \<or> step (link_at d j) (link_at d' j)"
proof -
  have other: "link_at d' j = link_at d j \<or> step (link_at d j) (link_at d' j)"
    if "touched (dm_shared d) (dm_shared d')" "dm_writers d' j = dm_writers d j" "dm_news d' j = dm_news d j" for d d'
    using touched_step[of "link_at d j" "dm_shared d'"] that by (simp add: link_at_def)
  from assms show ?thesis
  proof (induction rule: dstep.induct)
    case (reader_steps d i k)
    then show ?case using rstep_touches by (intro other) (fastforce simp: with_desk_def desk_at_def)+
  next
    case (reader_spawns d i js k t D w r w')
    then show ?case
      using rstep_touches[OF reader_spawns.hyps(1)]
      by (intro other) (simp_all add: with_desk_def desk_at_def with_thread_def)
  next
    case (writer_steps ord ok d i l)
    show ?case
    proof (cases "j = i")
      case True
      have "link_at (with_reader i pc (with_link i l d)) i = l" for pc
        by (simp add: link_at_def with_reader_def with_link_def)
      with True show ?thesis using step.the_writer[OF writer_steps.hyps(1,2)] by simp
    next
      case False
      then show ?thesis
        using writer_shared[OF writer_steps.hyps(2)]
        by (intro other) (auto simp: with_reader_def with_link_def link_at_def touched_def)
    qed
  next
    case (thread_inserts d t job v vs ends)
    show ?case by (rule other) (auto simp: with_thread_def with_shared_def touched_def)
  next
    case (thread_bumps d t job vs ends)
    show ?case by (rule other) (auto simp: with_thread_def with_shared_def touched_def)
  qed
qed

lemma each_link_reachable: "dstep\<^sup>*\<^sup>* daemon_new d \<Longrightarrow> reachable (link_at d i)"
proof (induction rule: rtranclp_induct)
  case base
  have "registry_ok shared_new" by (simp add: registry_ok_def shared_new_def)
  from reachable.connect[OF this] show ?case by (simp add: link_at_def daemon_new_def link_new_def)
next
  case (step d d')
  from dstep_link[OF step.hyps(2), of i] step.IH show ?case by (auto intro: reachable.move)
qed

section \<open>What the reader writes\<close>

text \<open>The lines that report a completion; the reader's thread writes none.\<close>

fun completes :: "event \<Rightarrow> string list" where
  "completes (Ev_Finished q v) = [jv_job v]"
| "completes (Ev_Failed q v) = [jv_job v]"
| "completes ev = []"

definition completions :: "event list \<Rightarrow> string list" where
  "completions evs = concat (map completes evs)"

lemma completions_simps [simp]:
  "completions [] = []" "completions (ev # evs) = completes ev @ completions evs"
  by (simp_all add: completions_def)

lemma file_answer_quiet:
  assumes "file_answer req = Some m" "m w = (Ok f, w')"
  shows "completes (f q) = []"
  using assms
  by (cases req)
    (auto simp: answer_delete_def answer_rename_def answer_space_def answer_restore_def io_match_def io_bind_def ret_def
      get_env_def fail_def split: prod.splits res.splits disposal.splits)

fun writes_no_completion :: "reader_pc \<Rightarrow> bool" where
  "writes_no_completion (Numbering f a) \<longleftrightarrow> (\<forall>q. completes (f q) = [])"
| "writes_no_completion (Writing ev a) \<longleftrightarrow> completes ev = []"
| "writes_no_completion pc \<longleftrightarrow> True"

definition answers_quiet :: "reader_pc \<Rightarrow> event list \<Rightarrow> bool" where
  "answers_quiet pc out \<longleftrightarrow> writes_no_completion pc \<and> (\<forall>ev \<in> set out. completes ev = [])"

lemma quiet_rstep: "rstep k js k' \<Longrightarrow> answers_quiet (dk_pc k) (dk_out k) \<Longrightarrow> answers_quiet (dk_pc k') (dk_out k')"
proof (induction rule: rstep.induct)
  case (reads_question k req m w f w')
  then show ?case by (simp add: answers_quiet_def at_def file_answer_quiet)
next
  case (writes k ev a)
  then show ?case by (cases a) (auto simp: answers_quiet_def at_def)
next
  case (breaks k ev a)
  then show ?case by (cases a) (auto simp: answers_quiet_def at_def)
qed (simp_all add: answers_quiet_def at_def sharing_def)

lemma quiet_dstep:
  "dstep d d' \<Longrightarrow> answers_quiet (dm_readers d j) (dm_answers d j) \<Longrightarrow> answers_quiet (dm_readers d' j) (dm_answers d' j)"
proof (induction rule: dstep.induct)
  case (reader_steps d i k)
  with quiet_rstep[OF reader_steps.hyps] show ?case by (cases "j = i") (simp_all add: with_desk_def desk_at_def)
next
  case (reader_spawns d i js k t D w r w')
  with quiet_rstep[OF reader_spawns.hyps(1)] show ?case
    by (cases "j = i") (simp_all add: with_desk_def desk_at_def with_thread_def)
next
  case (writer_steps ord ok d i l)
  then show ?case
    by (cases "j = i") (simp_all add: with_reader_def with_link_def after_opening_def answers_quiet_def)
qed (simp_all add: with_thread_def with_shared_def)

lemma answers_quiet: "dstep\<^sup>*\<^sup>* daemon_new d \<Longrightarrow> answers_quiet (dm_readers d i) (dm_answers d i)"
proof (induction rule: rtranclp_induct)
  case base
  then show ?case by (simp add: daemon_new_def answers_quiet_def)
qed (rule quiet_dstep)

text \<open>What a client reads is a shuffle of the lines of the two threads; the reader's do not count here.\<close>

lemma no_completions: "\<forall>ev \<in> set evs. completes ev = [] \<Longrightarrow> completions evs = []"
  by (induction evs) simp_all

lemma completions_shuffle:
  "ls \<in> shuffles xs ys \<Longrightarrow> \<forall>ev \<in> set xs. completes ev = [] \<Longrightarrow> completions ls = completions ys"
proof (induction xs ys arbitrary: ls rule: shuffles.induct)
  case (3 x xs y ys)
  then show ?case by fastforce
qed (simp_all add: no_completions)

lemma completions_told: "set (completions evs) \<subseteq> set (told evs)" "distinct (told evs) \<Longrightarrow> distinct (completions evs)"
proof -
  have c: "completes ev = told_by ev \<or> completes ev = []" for ev by (cases ev) auto
  show s: "set (completions evs) \<subseteq> set (told evs)" for evs
  proof (induction evs)
    case (Cons ev evs)
    with c[of ev] show ?case by (auto simp: told_def)
  qed simp
  show "distinct (told evs) \<Longrightarrow> distinct (completions evs)"
  proof (induction evs)
    case (Cons ev evs)
    with c[of ev] s[of evs] show ?case by (auto simp: told_def)
  qed simp
qed

section \<open>Properties\<close>

text \<open>
  C12. A completion is announced once. Take a client's connection at any moment of any run of the daemon, and
  the lines of its socket, in whatever order its two threads have written them: the \<open>Finished\<close> and
  \<open>Failed\<close> lines among them name each Job at most once, each carries a row that has ended so (no error and a
  tier; an error), and none names a Job that the opening \<open>State\<close>, the first line of the connection that is not
  the reader's, already showed as finished. (A \<open>State\<close> line that the client asks
  for shows everything, finished or not, as often as it asks.)
\<close>

theorem completion_announced_once:
  assumes "dstep\<^sup>*\<^sup>* daemon_new d" "lines \<in> shuffles (dm_answers d i) (dm_news d i)"
  shows "distinct (completions lines)
    \<and> (\<forall>ev \<in> set lines. line_is_true ev)
    \<and> (dm_news d i = [] \<or> (\<exists>q js rest. dm_news d i = Ev_State q js # rest
        \<and> (\<forall>u \<in> set js. terminal u \<longrightarrow> jv_job u \<notin> set (completions lines))))"
proof -
  have answers: "\<forall>ev \<in> set (dm_answers d i). completes ev = []"
    using answers_quiet[OF assms(1), of i] by (simp add: answers_quiet_def)
  note lines = completions_shuffle[OF assms(2) answers]
  have link: "reachable (link_at d i)" by (rule each_link_reachable[OF assms(1)])
  have told: "distinct (told (dm_news d i))"
    using reachable_ok[OF link] by (simp add: link_ok_def link_at_def)
  have ok: "lines_ok (dm_writers d i) (dm_news d i)" using reachable_lines[OF link] by (simp add: link_at_def)
  have "line_is_true ev" if "completes ev = []" for ev using that by (cases ev) auto
  with answers ok have "\<forall>ev \<in> set lines. line_is_true ev"
    unfolding set_shuffles[OF assms(2)] by (auto simp: lines_ok_def)
  moreover have "dm_news d i = [] \<or> opens_with_state (dm_news d i)"
    using ok by (auto simp: lines_ok_def split: writer_pc.splits)
  moreover have "jv_job u \<notin> set (completions lines)"
    if "dm_news d i = Ev_State q js # rest" "u \<in> set js" "terminal u" for q js rest u
  proof -
    from that told have "jv_job u \<notin> set (told rest)" by (auto simp: told_def)
    with completions_told(1)[of rest] that(1) show ?thesis unfolding lines by auto
  qed
  ultimately show ?thesis
    using completions_told(2)[OF told] unfolding lines opens_with_state_def by blast
qed

text \<open>
  C14. A finished row is final. Take the daemon at any moment of any run: if a Job's row is finished or
  failed, then at every later moment, whatever clients ask and threads do in between, the row is the same,
  or was released; it never runs again and never ends twice. (As long as the counter of Jobs
  has not gone round: 2^64 Jobs.)
\<close>

theorem finished_row_is_final:
  assumes "dstep\<^sup>*\<^sup>* daemon_new d" "dstep\<^sup>*\<^sup>* d d'" "dm_hired d' \<le> 2 ^ 64"
    and "lookup_job (dm_shared d) job = Some v" "terminal v"
  shows "lookup_job (dm_shared d') job = Some v \<or> lookup_job (dm_shared d') job = None"
  using jobs.finished_is_final[OF assms(1,2), of job v] assms(3-5) by (simp add: book_def)

text \<open>
  C13. A row that says running is being run. At any moment of any run of the daemon, a row in the registry
  that is not finished belongs to exactly one thread, the Job's own or the reader that is about to spawn
  it; or it is the row of a Job whose client went away before it could be told the Job's id,
  which nobody will ever finish.
\<close>

theorem running_row_is_run:
  assumes "dstep\<^sup>*\<^sup>* daemon_new d" "dm_hired d \<le> 2 ^ 64"
    and "lookup_job (dm_shared d) job = Some v" "\<not> terminal v"
  shows "(\<exists>!x. owner d x = Some job)
    \<or> (\<exists>i js. dm_readers d i = Ended (Some js) \<and> jv_job (js_base js) = job)"
proof -
  have "(\<exists>!x. owner d x = Some job) \<or> job \<in> unpromised d"
    using jobs.unfinished_is_worked_on[OF assms(1), of job v] assms(2-4) by (simp add: book_def)
  moreover have "\<exists>js. pc = Ended (Some js) \<and> jv_job (js_base js) = job" if "job \<in> lost_by pc" for pc
    using that by (cases pc rule: lost_by.cases) auto
  ultimately show ?thesis by (fastforce simp: unpromised_def)
qed

text \<open>
  C16. The daemon keeps its book. Every step of every thread of the daemon is a step of the abstract ledger
  (a worker hired for a new Job, a row posted, closed, handed over, lost or released) or no step of it,
  on the book read off the state; so every run of the daemon is a run of the ledger.
\<close>

theorem daemon_keeps_the_ledger:
  assumes "dstep\<^sup>*\<^sup>* daemon_new d"
  shows "lstep\<^sup>*\<^sup>* ledger_new (book d) \<and> (\<forall>d'. dstep d d' \<longrightarrow> lstep (book d) (book d'))"
  using assms
proof (induction rule: rtranclp_induct)
  case base
  then show ?case using jobs.book_move[OF _ jobs.good_start] by (simp add: jobs.book_start)
next
  case (step d1 d2)
  have g: "daemon_good d2" by (rule jobs.keeps_good[OF rtranclp.rtrancl_into_rtrancl[OF step.hyps]])
  from step.IH step.hyps(2) have "lstep\<^sup>*\<^sup>* ledger_new (book d2)"
    by (blast intro: rtranclp.rtrancl_into_rtrancl)
  with jobs.book_move[OF _ g] show ?case by blast
qed


section \<open>Witnesses\<close>

text \<open>A client connects and asks for a copy; the Job's disk refuses every call, so that it fails at once.\<close>

definition day_job :: job_spec where
  "day_job = new_job ''j1'' [''/src/a''] ''/dst'' False Skip False 5"

lemma day_sums: "fst (sum_sizes [''/src/a''] 0 lab_client :: (io_error, u64) res \<times> conn world) = Ok 5"
  by code_simp

lemma day_ends: "fst (run_job lab_crates day_job lab_refusing :: (io_error, unit) res \<times> shared world) = Ok ()"
  by code_simp

definition standing :: "nat \<Rightarrow> reader_pc \<Rightarrow> writer_pc \<Rightarrow> daemon \<Rightarrow> bool" where
  "standing n pc wpc d \<longleftrightarrow> dstep\<^sup>*\<^sup>* daemon_new d \<and> dm_readers d 0 = pc \<and> dm_readers d 1 = Away \<and> wr_pc (dm_writers d 0) = wpc
     \<and> (\<forall>t. dm_threads d t = Unborn) \<and> dm_hired d = n \<and> sh_next_job (dm_shared d) = of_nat (Suc n)"

lemma walk:
  assumes "standing n pc wpc d"
    and "\<And>k. dk_pc k = pc \<Longrightarrow> \<exists>k'. rstep k None k' \<and> dk_pc k' = pc' \<and> sh_next_job (dk_shared k') = sh_next_job (dk_shared k)"
  shows "\<exists>d'. standing n pc' wpc d'"
proof -
  from assms(2)[of "desk_at d 0"] assms(1) obtain k where k: "rstep (desk_at d 0) None k" "dk_pc k = pc'"
    "sh_next_job (dk_shared k) = sh_next_job (dm_shared d)"
    by (auto simp: standing_def desk_at_def)
  have "dstep d (with_desk 0 k d)" by (rule dstep.reader_steps[OF k(1)])
  with assms(1) k have "standing n pc' wpc (with_desk 0 k d)"
    by (auto simp: standing_def with_desk_def intro: rtranclp.rtrancl_into_rtrancl)
  then show ?thesis ..
qed

lemma write_line:
  assumes "standing n (Numbering f a) wpc d"
  shows "\<exists>d. standing n (on_written a) wpc d"
proof -
  obtain q where q: "fst (next_seq (dm_shared d)) = q" by simp
  let ?k = "at (Writing (f q) a) (sharing (snd (next_seq (dm_shared d))) (desk_at d 0))"
  have "dstep d (with_desk 0 ?k d)"
    by (rule dstep.reader_steps[OF rstep.numbers[of _ f]]) (use assms q in \<open>auto simp: standing_def desk_at_def\<close>)
  with assms have "standing n (Writing (f q) a) wpc (with_desk 0 ?k d)"
    by (auto simp: standing_def with_desk_def at_def sharing_def intro: rtranclp.rtrancl_into_rtrancl)
  then show ?thesis
  proof (rule walk)
    show "\<exists>k'. rstep k None k' \<and> dk_pc k' = on_written a \<and> sh_next_job (dk_shared k') = sh_next_job (dk_shared k)"
      if "dk_pc k = Writing (f q) a" for k
      by (rule exI[of _ "at (on_written a) (k\<lparr>dk_out := dk_out k @ [f q]\<rparr>)"])
        (use rstep.writes[OF that] in \<open>simp add: at_def\<close>)
  qed
qed

lemma writer_walk:
  assumes "standing n Opening wpc d" "in_opening wpc"
    and "writer_step id True (link_at d 0) = Some l" "wr_pc (lk_writer l) = wpc'"
  shows "\<exists>d'. standing n (if in_opening wpc' then Opening else if wpc' = Gone then Ended None else Reading) wpc' d' \<and> dm_news d' 0 = lk_out l"
proof -
  let ?d = "with_reader 0 (after_opening (wr_pc (dm_writers d 0)) (wr_pc (lk_writer l)) (dm_readers d 0)) (with_link 0 l d)"
  have "dstep d ?d"
    by (rule dstep.writer_steps[OF _ assms(3)]) (use assms(1) in \<open>simp_all add: a_hash_order_def standing_def\<close>)
  moreover have "sh_next_job (lk_shared l) = sh_next_job (dm_shared d)"
    using writer_shared[OF assms(3)] by (auto simp: link_at_def)
  ultimately show ?thesis
    using assms(1,2,4)
    by (intro exI[of _ ?d])
      (auto simp: standing_def with_reader_def with_link_def after_opening_def intro: rtranclp.rtrancl_into_rtrancl)
qed

lemma day_opens: "\<exists>d ids. standing 0 Reading (Spawned ids) d \<and> dm_news d 0 \<noteq> []"
proof -
  have "standing 0 Away Greeting daemon_new"
    by (simp add: standing_def daemon_new_def link_new_def shared_new_def)
  then have "\<exists>d. standing 0 (Numbering (\<lambda>q. Ev_Hello q DAEMON_VERSION PROTOCOL_VERSION) Then_opening) Greeting d"
    by (rule walk) (use rstep.greets in \<open>fastforce simp: at_def\<close>)
  then obtain d where d: "standing 0 Opening Greeting d" using write_line[where a = Then_opening] by fastforce
  define js where "js = snapshot id (dm_shared d)"
  have "writer_step id True (link_at d 0) = Some (set_pc (Opened js) (link_at d 0))"
    using d by (simp add: standing_def writer_step_def link_at_def js_def)
  from writer_walk[OF d _ this, of "Opened js"] obtain d1 where d1: "standing 0 Opening (Opened js) d1"
    by (auto simp: set_pc_def)
  define ev where "ev = Ev_State (fst (next_seq (dm_shared d1))) js"
  have "writer_step id True (link_at d1 0) = Some (prepare (\<lambda>q. Ev_State q js) Stating (link_at d1 0))"
    using d1 by (simp add: standing_def writer_step_def link_at_def)
  from writer_walk[OF d1 _ this, of "Stating ev"] obtain d2 where d2: "standing 0 Opening (Stating ev) d2"
    by (auto simp: prepare_def set_pc_def ev_def link_at_def next_seq_def)
  have "writer_step id True (link_at d2 0) = Some (post True ev (Spawned (terminal_ids (state_jobs ev))) (link_at d2 0))"
    using d2 by (simp add: standing_def writer_step_def link_at_def)
  from writer_walk[OF d2 _ this, of "Spawned (terminal_ids (state_jobs ev))"] show ?thesis
    by (auto simp: post_def set_pc_def)
qed

text \<open>The request is read: one Job is numbered, sized and registered.\<close>

lemma day_registers:
  "\<exists>d wpc. standing 1 (Revising 5 day_job) wpc d \<and> lookup_job (dm_shared d) ''j1'' = Some (js_base day_job)"
proof -
  obtain d wpc where d: "standing 0 Reading wpc d" using day_opens by blast
  let ?pc = "Sizing 5 ''j1'' [''/src/a''] ''/dst'' False Skip False"
  let ?k = "at ?pc (sharing (snd (next_job_id (dm_shared d))) (desk_at d 0))"
  have "job_name 1 = ''j1''" by code_simp
  moreover have n: "next_job_id (dm_shared d) = (1, snd (next_job_id (dm_shared d)))"
    using d by (simp add: standing_def next_job_id_def)
  ultimately have "rstep (desk_at d 0) None ?k"
    using rstep.reads_transfer[of "desk_at d 0" 1 _ 5 "[''/src/a'']" "''/dst''" False Skip False] d
    by (simp add: desk_at_def standing_def)
  then have "dstep d (with_desk 0 ?k d)" by (rule dstep.reader_steps)
  with d have "standing 1 ?pc wpc (with_desk 0 ?k d)"
    by (auto simp: standing_def with_desk_def at_def sharing_def next_job_id_def intro: rtranclp.rtrancl_into_rtrancl)
  then have "\<exists>d. standing 1 (Inserting 5 day_job) wpc d"
  proof (rule walk)
    have "sum_sizes [''/src/a''] 0 lab_client = (Ok 5 :: (io_error, u64) res, snd (sum_sizes [''/src/a''] 0 lab_client :: (io_error, u64) res \<times> conn world))"
      using day_sums by (metis prod.collapse)
    from rstep.sizes[OF _ this] show "\<exists>k'. rstep k None k' \<and> dk_pc k' = Inserting 5 day_job
        \<and> sh_next_job (dk_shared k') = sh_next_job (dk_shared k)" if "dk_pc k = ?pc" for k
      using that by (intro exI[of _ "at (Inserting 5 day_job) k"]) (auto simp: at_def day_job_def)
  qed
  then obtain d1 where d1: "standing 1 (Inserting 5 day_job) wpc d1" by blast
  let ?k = "at (Revising 5 day_job) (sharing (insert_row (js_base day_job) (dm_shared d1)) (desk_at d1 0))"
  have "rstep (desk_at d1 0) None ?k"
    using rstep.inserts[of "desk_at d1 0" 5 day_job] d1 by (simp add: desk_at_def standing_def)
  then have "dstep d1 (with_desk 0 ?k d1)" by (rule dstep.reader_steps)
  with d1 have "standing 1 (Revising 5 day_job) wpc (with_desk 0 ?k d1)"
    by (auto simp: standing_def with_desk_def at_def sharing_def intro: rtranclp.rtrancl_into_rtrancl)
  moreover have "jv_job (js_base day_job) = ''j1''" by (simp add: day_job_def new_job_def base_view_def)
  then have "lookup_job (dm_shared (with_desk 0 ?k d1)) ''j1'' = Some (js_base day_job)"
    by (simp add: with_desk_def at_def sharing_def halves_keep(4))
  ultimately show ?thesis by blast
qed

text \<open>Then its thread is spawned, and does all its puts.\<close>

lemma thread_walk:
  "dm_threads d t = Working job vs ends \<Longrightarrow>
   \<exists>d'. dstep\<^sup>*\<^sup>* d d' \<and> dm_shared d' = fold put vs (dm_shared d) \<and> dm_hired d' = dm_hired d
     \<and> dm_readers d' = dm_readers d"
proof (induction vs arbitrary: d)
  case Nil
  then show ?case by (intro exI[of _ d]) simp
next
  case (Cons v vs)
  let ?d1 = "with_thread t (Marking job vs ends) (with_shared (insert_row v (dm_shared d)) d)"
  let ?d2 = "with_thread t (Working job vs ends) (with_shared (bump (dm_shared ?d1)) ?d1)"
  have "dstep d ?d1" by (rule dstep.thread_inserts[OF Cons.prems])
  moreover have "dstep ?d1 ?d2" by (rule dstep.thread_bumps) (simp add: with_thread_def)
  moreover from Cons.IH[of ?d2] obtain d' where "dstep\<^sup>*\<^sup>* ?d2 d'" "dm_shared d' = fold put vs (dm_shared ?d2)"
    "dm_hired d' = dm_hired ?d2" "dm_readers d' = dm_readers ?d2"
    by (auto simp: with_thread_def)
  ultimately show ?case
    by (intro exI[of _ d'])
      (auto simp: with_thread_def with_shared_def put_halves[of v] intro: converse_rtranclp_into_rtranclp)
qed

lemma day_finishes:
  "\<exists>d v. dstep\<^sup>*\<^sup>* daemon_new d \<and> dm_hired d = 1 \<and> dm_readers d 1 = Away \<and> lookup_job (dm_shared d) ''j1'' = Some v \<and> terminal v"
proof -
  obtain d wpc where d: "standing 1 (Revising 5 day_job) wpc d" using day_registers by blast
  let ?say = "\<lambda>q. Ev_Reply q 5 (Some (jv_job (js_base day_job))) None"
  have "\<exists>d. standing 1 (Numbering ?say (Then_spawn day_job)) wpc d"
    by (rule walk[OF d]) (use rstep.bumps in \<open>fastforce simp: at_def sharing_def\<close>)
  then obtain d1 where d1: "standing 1 (Spawning day_job) wpc d1" using write_line[where a = "Then_spawn day_job"] by fastforce
  let ?run = "run_job lab_crates day_job lab_refusing :: (io_error, unit) res \<times> shared world"
  have "?run = (Ok (), snd ?run)" using day_ends by (metis prod.collapse)
  note run = this
  let ?vs = "job_puts lab_crates day_job lab_refusing"
  have vs: "job_told ''j1'' (Ok () :: (io_error, unit) res) ?vs"
    using run_job_puts[OF run, of "''j1''"] by (simp add: day_job_def new_job_def)
  let ?k = "at Reading (desk_at d1 0)"
  let ?d2 = "with_thread 0 (Working ''j1'' ?vs True) (with_desk 0 ?k d1)"
  have id: "jv_job (js_base day_job) = ''j1''" by (simp add: day_job_def new_job_def base_view_def)
  have "rstep (desk_at d1 0) (Some day_job) ?k" by (rule rstep.spawns) (use d1 in \<open>simp add: standing_def desk_at_def\<close>)
  from dstep.reader_spawns[OF this _ run, of 0] d1 id have "dstep d1 ?d2" by (simp add: standing_def)
  with d1 have "dstep\<^sup>*\<^sup>* daemon_new ?d2" "dm_hired ?d2 = 1"
    by (auto simp: standing_def with_thread_def with_desk_def at_def desk_at_def intro: rtranclp.rtrancl_into_rtrancl)
  moreover obtain d3 where d3: "dstep\<^sup>*\<^sup>* ?d2 d3" "dm_shared d3 = fold put ?vs (dm_shared ?d2)" "dm_hired d3 = dm_hired ?d2"
    "dm_readers d3 = dm_readers ?d2"
    using thread_walk[of ?d2 0 "''j1''" ?vs True] by (auto simp: with_thread_def)
  moreover have "dm_readers ?d2 1 = Away" using d1 by (simp add: standing_def with_thread_def with_desk_def)
  moreover obtain us v where us: "?vs = us @ [v]" "last_row ''j1'' v" "\<forall>v \<in> set ?vs. jv_job v = ''j1''"
    using vs by (rule job_told_Ok)
  then have "lookup_job (dm_shared d3) ''j1'' = Some v"
    unfolding d3(2) by (intro last_put_wins[of _ ?vs us]) (simp add: filter_id_conv)
  moreover have "terminal v" using us(2) by (auto simp: last_row_def row_defs terminal_def)
  ultimately show ?thesis
    by (intro exI[of _ d3] exI[of _ v]) auto
qed

lemma finished_row_is_final_witness:
  "\<exists>d d' v. dstep d d' \<and> d' \<noteq> d \<and> lookup_job (dm_shared d) ''j1'' = Some v \<and> terminal v
     \<and> (lookup_job (dm_shared d') ''j1'' = Some v \<or> lookup_job (dm_shared d') ''j1'' = None)"
proof -
  obtain d v where d: "dstep\<^sup>*\<^sup>* daemon_new d" "dm_hired d = 1" "lookup_job (dm_shared d) ''j1'' = Some v" "terminal v"
    and away: "dm_readers d 1 = Away"
    using day_finishes by blast
  let ?k = "at (Numbering (\<lambda>q. Ev_Hello q DAEMON_VERSION PROTOCOL_VERSION) Then_opening) (desk_at d 1)"
  have d': "dstep d (with_desk 1 ?k d)" "dm_hired (with_desk 1 ?k d) \<le> 2 ^ 64"
    by (rule dstep.reader_steps[OF rstep.greets]) (simp_all add: desk_at_def away[simplified] with_desk_def at_def d(2))
  have "dm_readers (with_desk 1 ?k d) 1 \<noteq> dm_readers d 1" by (simp add: away[simplified] with_desk_def at_def)
  then have "with_desk 1 ?k d \<noteq> d" by metis
  moreover from d'(1) have "dstep\<^sup>*\<^sup>* d (with_desk 1 ?k d)" by blast
  ultimately show ?thesis using finished_row_is_final[OF d(1) _ d'(2) d(3,4)] d'(1) d(3,4) by blast
qed

lemma running_row_is_run_witness:
  "\<exists>(d :: daemon) v. lookup_job (dm_shared d) ''j1'' = Some v \<and> \<not> terminal v
     \<and> ((\<exists>!x. owner d x = Some ''j1'') \<or> (\<exists>i js. dm_readers d i = Ended (Some js) \<and> jv_job (js_base js) = ''j1''))"
proof -
  obtain d wpc where d: "standing 1 (Revising 5 day_job) wpc d" "lookup_job (dm_shared d) ''j1'' = Some (js_base day_job)"
    using day_registers by blast
  have "\<not> terminal (js_base day_job)" by (simp add: day_job_def new_job_def base_view_def terminal_def)
  moreover have "dstep\<^sup>*\<^sup>* daemon_new d" "dm_hired d \<le> 2 ^ 64" using d(1) by (simp_all add: standing_def)
  ultimately show ?thesis using running_row_is_run[OF _ _ d(2)] d(2) by blast
qed

lemma daemon_keeps_the_ledger_witness:
  "\<exists>g. lstep\<^sup>*\<^sup>* ledger_new g \<and> (\<exists>v. lg_rows g ''j1'' = Some v \<and> terminal v)"
proof -
  obtain d v where d: "dstep\<^sup>*\<^sup>* daemon_new d" "lookup_job (dm_shared d) ''j1'' = Some v" "terminal v"
    using day_finishes by blast
  from daemon_keeps_the_ledger[OF d(1)] d(2,3) show ?thesis by (auto simp: book_def)
qed

lemma append_in_shuffles: "xs @ ys \<in> shuffles xs ys"
  by (induction xs) (auto intro: Cons_in_shuffles_leftI)

lemma completion_announced_once_witness:
  "\<exists>(d :: daemon) lines. dm_news d 0 \<noteq> [] \<and> lines \<in> shuffles (dm_answers d 0) (dm_news d 0) \<and> distinct (completions lines)"
proof -
  obtain d ids where "standing 0 Reading (Spawned ids) d" "dm_news d 0 \<noteq> []" using day_opens by blast
  moreover from this have "dstep\<^sup>*\<^sup>* daemon_new d" by (simp add: standing_def)
  ultimately show ?thesis
    using completion_announced_once[of d _ 0, OF _ append_in_shuffles] append_in_shuffles by blast
qed


end
