(* ===== verification/Trashing.thy ===== *)
theory Trashing
  imports Trash Scenario
begin

text \<open>
  What the trash promises: a record that reads back as the path it was written for, a restore that
  undoes a trashing, and a file that no failure loses. Directories the daemon creates on the way
  stay; they are the only trace.
\<close>

section \<open>The record\<close>

definition plain_text :: "string \<Rightarrow> bool" where
  "plain_text s \<longleftrightarrow> CHR 0x0A \<notin> set s \<and> (\<forall>c \<in> set s. (of_char c :: nat) < 0x80)"

lemma plain_append [simp]: "plain_text (a @ b) \<longleftrightarrow> plain_text a \<and> plain_text b"
  by (auto simp: plain_text_def)

lemma plain_Cons [simp]:
  "plain_text (c # s) \<longleftrightarrow> c \<noteq> CHR 0x0A \<and> (of_char c :: nat) < 0x80 \<and> plain_text s" "plain_text []"
  by (auto simp: plain_text_def)

lemma plain_escape: "plain_text (uri_escape s)" and escape_no_cr: "CHR 0x0D \<notin> set (uri_escape s)"
proof -
  have "unreserved c \<Longrightarrow> (of_char c :: nat) < 0x80 \<and> c \<noteq> CHR 0x0A \<and> c \<noteq> CHR 0x0D" for c
    by (auto simp: unreserved_def Let_def)
  then show "plain_text (uri_escape s)" "CHR 0x0D \<notin> set (uri_escape s)"
    using escape_plain[of _ s] by (fastforce simp: plain_text_def)+
qed

lemma strip_cr_id: "CHR 0x0D \<notin> set l \<Longrightarrow> strip_cr l = l"
  by (auto simp: strip_cr_def dest: last_in_set)

lemma strip_date: "strip_prefix ''Path='' (strip_cr (''DeletionDate='' @ date)) = None"
  by (cases date rule: rev_cases) (auto simp: strip_cr_def strip_prefix_def butlast_append)

lemma three_lines:
  assumes "CHR 0x0A \<notin> set a" "CHR 0x0A \<notin> set b" "CHR 0x0A \<notin> set c"
  shows "text_lines (a @ CHR 0x0A # b @ CHR 0x0A # c @ [CHR 0x0A]) = [strip_cr a, strip_cr b, strip_cr c]"
  by (simp add: text_lines_line assms)

lemma record_lines:
  assumes "plain_text date"
  shows "text_lines (trash_record original date) =
    [''[Trash Info]'', ''Path='' @ uri_escape original, strip_cr (''DeletionDate='' @ date)]"
proof -
  have 1: "trash_record original date = ''[Trash Info]'' @ CHR 0x0A # (''Path='' @ uri_escape original) @ CHR 0x0A
      # (''DeletionDate='' @ date) @ CHR 0x0A # []"
    by (simp add: trash_record_def)
  have "CHR 0x0A \<notin> set (''Path='' @ uri_escape original)" "CHR 0x0A \<notin> set (''DeletionDate='' @ date)"
    "CHR 0x0A \<notin> set ''[Trash Info]''"
    using plain_escape[of original] assms by (auto simp: plain_text_def)
  from three_lines[OF this(3,1,2)] show ?thesis
    unfolding 1 using escape_no_cr[of original] by (simp add: strip_cr_id)
qed

lemma recorded_path_record:
  assumes "plain_text date"
  shows "recorded_path (trash_record original date) = Some (from_utf8_lossy original)"
  using strip_date[of date]
  by (simp add: recorded_path_def record_lines[OF assms] unescape_uri_escape) (simp add: strip_prefix_def unescape_uri_escape)

lemma record_valid: "plain_text date \<Longrightarrow> valid_utf8 (trash_record original date)"
  using plain_escape[of original]
  by (intro valid_utf8_ascii) (auto simp: trash_record_def plain_text_def)

lemma show_nat_ascii: "plain_text (show_nat n)"
  using show_nat_digits[of _ n] by (fastforce simp: plain_text_def is_digit_def)

lemma plain_pad: "plain_text (pad0 k n)" "plain_text (pad0_int k i)"
  using show_nat_ascii by (auto simp: pad0_def pad0_int_def plain_text_def)

lemma plain_datetime: "plain_text (show_datetime t)"
  by (cases t) (simp add: show_datetime_def plain_pad)

section \<open>Directories made on the way\<close>

definition grown :: "(key \<Rightarrow> node option) \<Rightarrow> (key \<Rightarrow> node option) \<Rightarrow> bool" where
  "grown g h \<longleftrightarrow> (\<forall>k. h k = g k \<or> g k = None \<and> h k = Some Dir)"

definition grown_to :: "key \<Rightarrow> (key \<Rightarrow> node option) \<Rightarrow> (key \<Rightarrow> node option) \<Rightarrow> bool" where
  "grown_to a g h \<longleftrightarrow> (\<forall>k. h k = g k \<or> g k = None \<and> h k = Some Dir \<and> prefix k a)"

lemma grown_to_grown: "grown_to a g h \<Longrightarrow> grown g h"
  by (auto simp: grown_to_def grown_def)

lemma grown_refl [simp]: "grown g g" "grown_to a g g"
  by (auto simp: grown_def grown_to_def)

lemma grown_trans: "grown g h \<Longrightarrow> grown h i \<Longrightarrow> grown g i"
  unfolding grown_def by (metis option.distinct(1))

lemma grown_some: "grown g h \<Longrightarrow> g k = Some n \<Longrightarrow> h k = Some n"
  unfolding grown_def by (metis option.distinct(1))

lemma grown_none: "grown g h \<Longrightarrow> h k = None \<Longrightarrow> g k = None"
  unfolding grown_def by (metis option.distinct(1))

lemma mkdirs_grown: "mkdirs p ns f = Inr f' \<Longrightarrow> grown_to (p @ ns) (map_of f) (map_of f')"
proof (induction p ns f arbitrary: f' rule: mkdirs.induct)
  case (2 p n ns f)
  show ?case
  proof (cases "map_of f (p @ [n])")
    case None
    with 2(1)[OF None, of f'] 2(3)
    have "grown_to (p @ n # ns) ((map_of f)(p @ [n] \<mapsto> Dir)) (map_of f')"
      by (simp only: mkdirs.simps None option.case map_of_update append_assoc append.simps)
    with None show ?thesis
      unfolding grown_to_def by (metis append_Cons append_Nil append_assoc fun_upd_apply option.distinct(1) prefixI)
  next
    case (Some x)
    with 2(2)[OF Some] 2(3) show ?thesis by (cases x) (auto split: if_splits)
  qed
qed simp

lemma triple_create_dir_all:
  "triple (view E UNIV g) (create_dir_all p)
     (\<lambda>_ w. \<exists>h. grown_to (path_key (e_cwd E) p) g h \<and> view E UNIV h w) (\<lambda>_. view E UNIV g) (view E UNIV g)"
proof (cases "p = []")
  case True
  then show ?thesis by (auto simp: create_dir_all_def intro!: triple_ret exI[of _ g])
next
  case False
  then show ?thesis
    unfolding create_dir_all_def
    by (simp, intro triple_sys)
      (auto simp: at_path_def view_def fun_eq_iff[symmetric] dest!: mkdirs_grown split: sum.splits if_splits)
qed

section \<open>Names in the trash\<close>

lemma keeps_ok_of [triple_intro]: "keeps E S g m \<Longrightarrow> keeps E S g (ok_of m)"
  unfolding ok_of_def by (intro triple_intro)

lemma keeps_can_trash_in [triple_intro]: "keeps E S g (can_trash_in root p)"
  unfolding can_trash_in_def Let_def by (intro triple_intro)

lemma keeps_local_offset [triple_intro]: "keeps E S g local_utc_offset_secs"
  by (auto simp: keeps_def triple_def local_utc_offset_secs_def split: option.splits)

definition trash_free :: "env \<Rightarrow> (key \<Rightarrow> node option) \<Rightarrow> path \<Rightarrow> path \<Rightarrow> string \<Rightarrow> nat \<Rightarrow> bool" where
  "trash_free E g files info stem n \<longleftrightarrow>
     (calm E \<longrightarrow> g (path_key (e_cwd E) (path_join files (trash_candidate stem n))) = None
       \<and> g (path_key (e_cwd E) (path_join info (trash_candidate stem n @ ''.trashinfo''))) = None)"

definition clean :: "path \<Rightarrow> bool" where
  "clean p \<longleftrightarrow> CHR 0x00 \<notin> set p"

lemma candidate_clean: "clean stem \<Longrightarrow> clean (trash_candidate stem n)"
  using show_nat_digits[of "CHR 0x00" n] by (auto simp: clean_def trash_candidate_def is_digit_def)

lemma candidate_not_Nil: "stem \<noteq> [] \<Longrightarrow> trash_candidate stem n \<noteq> []"
  by (simp add: trash_candidate_def)

lemma join_usable: "clean d \<Longrightarrow> clean n \<Longrightarrow> n \<noteq> [] \<Longrightarrow> path_join d n \<noteq> [] \<and> CHR 0x00 \<notin> set (path_join d n)"
  by (auto simp: clean_def path_join_not_Nil dest!: path_join_set)

text \<open>The probe of a candidate, as \<open>name_search\<close> wants it.\<close>

lemma triple_trash_probe:
  assumes "clean files" "clean info" "clean stem" "stem \<noteq> []"
  shows "triple (view E UNIV g) (trash_probe files info stem n)
    (\<lambda>b w. (if b then trash_free E g files info stem n else True) \<and> view E UNIV g w)
    (\<lambda>_. view E UNIV g) (view E UNIV g)"
proof -
  have u: "path_join files (trash_candidate stem n) \<noteq> [] \<and> CHR 0x00 \<notin> set (path_join files (trash_candidate stem n))"
    "path_join info (trash_candidate stem n @ ''.trashinfo'') \<noteq> []
     \<and> CHR 0x00 \<notin> set (path_join info (trash_candidate stem n @ ''.trashinfo''))"
    using join_usable[OF assms(1) candidate_clean[OF assms(3)] candidate_not_Nil[OF assms(4)], of n]
      join_usable[OF assms(2), of "trash_candidate stem n @ ''.trashinfo''"] candidate_clean[OF assms(3), of n]
    by (simp_all add: clean_def)
  show ?thesis
    unfolding trash_probe_def Let_def
    by (rule triple_bind[OF triple_exists[OF refl]], rule triple_conj, rule triple_if, rule triple_ret, simp,
        rule triple_bind[OF triple_exists[OF refl]], rule triple_conj, rule triple_ret)
      (use u in \<open>auto simp: trash_free_def\<close>)
qed

text \<open>The search for a free name in the trash is a \<open>name_search\<close>, too.\<close>

interpretation trash_names: name_search
  "trash_probe files info stem"
  "\<lambda>n. clean files \<and> clean info \<and> clean stem \<and> stem \<noteq> [] \<longrightarrow> trash_free E g files info stem n" "\<lambda>n. True" E UNIV g
  for files info stem E g
proof
  fix n
  show "triple (view E UNIV g) (trash_probe files info stem n)
    (\<lambda>b w. (if b then clean files \<and> clean info \<and> clean stem \<and> stem \<noteq> [] \<longrightarrow> trash_free E g files info stem n else True)
        \<and> view E UNIV g w)
    (\<lambda>_. view E UNIV g) (view E UNIV g)"
  proof (cases "clean files \<and> clean info \<and> clean stem \<and> stem \<noteq> []")
    case True
    then have "triple (view E UNIV g) (trash_probe files info stem n)
      (\<lambda>b w. (if b then trash_free E g files info stem n else True) \<and> view E UNIV g w)
      (\<lambda>_. view E UNIV g) (view E UNIV g)" by (intro triple_trash_probe) simp_all
    then show ?thesis by (rule triple_conseq) simp_all
  next
    case False
    have "keeps E UNIV g (trash_probe files info stem n)"
      unfolding trash_probe_def Let_def by (intro triple_intro)
    then have "triple (view E UNIV g) (trash_probe files info stem n)
      (\<lambda>_. view E UNIV g) (\<lambda>_. view E UNIV g) (view E UNIV g)" by (simp add: keeps_def)
    then show ?thesis by (rule triple_conseq) (use False in auto)
  qed
qed

lemma triple_unique_name:
  assumes "clean files" "clean info" "clean stem" "stem \<noteq> []"
  shows "triple (view E UNIV g) (unique_name files info stem)
    (\<lambda>x w. (\<exists>n. x = (trash_candidate stem n, path_join info (trash_candidate stem n @ ''.trashinfo''))
        \<and> trash_free E g files info stem n) \<and> view E UNIV g w)
    (\<lambda>_. view E UNIV g) (view E UNIV g)"
  unfolding unique_name_def
  by (rule triple_bind[OF trash_names.search], rule triple_conj, rule triple_option)
    (use assms in \<open>auto intro!: triple_ret triple_fail simp: found_def\<close>)

section \<open>Trashing, on a machine that refuses no call\<close>

text \<open>Only the runs that return matter below.\<close>

definition returns :: "('s world \<Rightarrow> bool) \<Rightarrow> ('e, 'a, 's) io \<Rightarrow> ('a \<Rightarrow> 's world \<Rightarrow> bool) \<Rightarrow> bool" where
  "returns P m Q \<longleftrightarrow> triple P m Q (\<lambda>_ _. True) (\<lambda>_. True)"

lemma returns_triple: "triple P m Q X C \<Longrightarrow> returns P m Q"
  unfolding returns_def by (erule triple_conseq) simp_all

lemma returns_bind: "returns P m R \<Longrightarrow> (\<And>a. returns (R a) (f a) Q) \<Longrightarrow> returns P (io_bind m f) Q"
  unfolding returns_def by (rule triple_bind)

lemma returns_try: "returns P m Q \<Longrightarrow> returns P (try_io m) Q"
  unfolding returns_def by (rule triple_map_err)

lemma returns_ret: "(\<And>w. P w \<Longrightarrow> Q a w) \<Longrightarrow> returns P (ret a) Q"
  unfolding returns_def by (rule triple_ret)

lemma returns_ex: "(\<And>x. returns (P x) m Q) \<Longrightarrow> returns (\<lambda>w. \<exists>x. P x w) m Q"
  unfolding returns_def by (rule triple_ex)

lemma returns_conj: "(p \<Longrightarrow> returns P m Q) \<Longrightarrow> returns (\<lambda>w. p \<and> P w) m Q"
  unfolding returns_def by (rule triple_conj)

lemma returns_keeps: "keeps E S g m \<Longrightarrow> returns (view E S g) m (\<lambda>_. view E S g)"
  unfolding keeps_def by (rule returns_triple)

lemma returnsD: "returns P m Q \<Longrightarrow> P w \<Longrightarrow> m w = (Ok a, w') \<Longrightarrow> Q a w'"
  unfolding returns_def by (rule tripleD)

text \<open>A medium that keeps what is written and returns what it keeps.\<close>

definition plain_medium :: "env \<Rightarrow> bool" where
  "plain_medium E \<longleftrightarrow> (\<forall>t b. e_read E t b = b \<and> e_write E t b = b)"

lemma write_fresh [simp]: "write_at 0 b [] = b"
  by (simp add: write_at_def)

lemma returns_fs_write:
  assumes "plain_medium E" "path_key (e_cwd E) p = k"
  shows "returns (view E UNIV g) (fs_write p b) (\<lambda>_. view E UNIV (g(k \<mapsto> File b False)))"
  unfolding fs_write_def
proof (rule returns_bind[OF returns_triple[OF triple_open_create[OF assms(2) UNIV_I]]], rule returns_conj)
  fix h assume h: "h = k"
  have w: "triple (view E UNIV (g(k \<mapsto> File [] False))) (write_all k 0 b)
    (\<lambda>_ w. \<exists>t. 0 + length b \<le> MAX_FILE
        \<and> view E UNIV ((g(k \<mapsto> File [] False))(k \<mapsto> File (write_at 0 (e_write E t b) []) False)) w)
    (\<lambda>_. view E (UNIV - {k}) (g(k \<mapsto> File [] False))) (view E (UNIV - {k}) (g(k \<mapsto> File [] False)))"
    by (rule triple_write_all[where d = False]) simp_all
  have "returns (view E UNIV (g(k \<mapsto> File [] False))) (write_all k 0 b) (\<lambda>_. view E UNIV (g(k \<mapsto> File b False)))"
    unfolding returns_def
    by (rule triple_conseq[OF w]) (use assms(1) in \<open>auto simp: plain_medium_def\<close>)
  with h show "returns (view E UNIV (g(k \<mapsto> File [] False))) (write_all h 0 b) (\<lambda>_. view E UNIV (g(k \<mapsto> File b False)))"
    by simp
qed

lemma returns_canonicalize:
  assumes "calm E" "path_key (e_cwd E) p = s" "p \<noteq> []" "clean p" "g s \<noteq> None"
  shows "returns (view E UNIV g :: 's world \<Rightarrow> bool) (map_unwrap_or id p (canonicalize p)) (\<lambda>q w. q = key_path s \<and> view E UNIV g w)"
  unfolding returns_def map_unwrap_or_def
proof (rule triple_match[where R = "\<lambda>q w. q = key_path s \<and> view E UNIV g w" and S = "\<lambda>_ _. False"])
  show "triple (view E UNIV g :: 's world \<Rightarrow> bool) (canonicalize p) (\<lambda>q w. q = key_path s \<and> view E UNIV g w) (\<lambda>_ _. False) (\<lambda>_. True)"
  proof (rule tripleI)
    fix w :: "'s world" and r w1
    assume v: "view E UNIV g w" and run: "canonicalize p w = (r, w1)"
    have v1: "view E UNIV g (w\<lparr>w_fs := e_other E (w_tick w) (w_fs w), w_tick := Suc (w_tick w)\<rparr>)"
      by (rule view_meddle[OF v])
    then have f: "map_of (e_other E (w_tick w) (w_fs w)) s = g s" by (auto simp: view_def)
    from v have E: "w_env w = E" by (simp add: view_def)
    show "case r of Ok q \<Rightarrow> q = key_path s \<and> view E UNIV g w1 | Err e \<Rightarrow> False | Killed \<Rightarrow> True"
      using run v1 f E assms
      by (auto simp: canonicalize_def sys_def Let_def calm_def at_path_def clean_def view_def
          split: if_splits option.splits sum.splits)
  qed
qed (auto simp: triple_def ret_def)

lemma returns_iso: "returns (view E UNIV g) iso8601_local_now (\<lambda>d w. plain_text d \<and> view E UNIV g w)"
proof -
  have env: "returns (view E UNIV g) get_env (\<lambda>_. view E UNIV g)" "returns (view E UNIV g) get_tick (\<lambda>_. view E UNIV g)"
    "returns (view E UNIV g) local_utc_offset_secs (\<lambda>_. view E UNIV g)"
    by (rule returns_keeps, intro triple_intro)+
  show ?thesis
    unfolding iso8601_local_now_def Let_def
    by (rule returns_bind[OF env(1)], rule returns_bind[OF env(2)], rule returns_bind[OF env(3)], rule returns_ret)
      (simp add: plain_datetime)
qed

text \<open>
  The world a successful trashing leaves: directories were made on the way to the trash's own, the
  record was written, and the entry was moved, which changes the file system by \<open>M\<close>.
\<close>

definition made_for :: "key \<Rightarrow> (key \<Rightarrow> node option) \<Rightarrow> (key \<Rightarrow> node option) \<Rightarrow> bool" where
  "made_for R g h \<longleftrightarrow> grown g h \<and> (\<forall>k. h k \<noteq> g k \<longrightarrow> prefix k (R @ [''files'']) \<or> prefix k (R @ [''info'']))"

lemma made_for_refl: "made_for R g g"
  by (simp add: made_for_def)

lemma made_for_to: "made_for R g h \<Longrightarrow> a = R @ [''files''] \<or> a = R @ [''info''] \<Longrightarrow> grown_to a h h' \<Longrightarrow> made_for R g h'"
  unfolding made_for_def
proof (intro conjI allI impI)
  assume h: "grown g h \<and> (\<forall>k. h k \<noteq> g k \<longrightarrow> prefix k (R @ [''files'']) \<or> prefix k (R @ [''info'']))"
    and a: "a = R @ [''files''] \<or> a = R @ [''info'']" and h': "grown_to a h h'"
  show "grown g h'" using h grown_to_grown[OF h'] grown_trans by blast
  fix k assume k: "h' k \<noteq> g k"
  show "prefix k (R @ [''files'']) \<or> prefix k (R @ [''info''])"
  proof (cases "h' k = h k")
    case False
    with h' have "prefix k a" unfolding grown_to_def by blast
    with a show ?thesis by blast
  qed (use h k in simp)
qed

definition trashed_by ::
  "(key \<Rightarrow> (key \<Rightarrow> node option) \<Rightarrow> (key \<Rightarrow> node option)) \<Rightarrow> env \<Rightarrow> (key \<Rightarrow> node option) \<Rightarrow> path \<Rightarrow> key \<Rightarrow> path \<Rightarrow> path
    \<Rightarrow> 's world \<Rightarrow> bool" where
  "trashed_by M E g root s dest info w \<longleftrightarrow>
     (\<exists>h m date. made_for (path_key (e_cwd E) root) g h \<and> plain_text date \<and> normal_name m \<and> clean m \<and> valid_utf8 m
        \<and> dest = path_join (path_join root ''files'') m \<and> info = path_join (path_join root ''info'') (m @ ''.trashinfo'')
        \<and> h (path_key (e_cwd E) dest) = None \<and> h (path_key (e_cwd E) info) = None
        \<and> view E UNIV (M (path_key (e_cwd E) dest)
             (h(path_key (e_cwd E) info \<mapsto> File (trash_record (from_utf8_lossy (key_path s)) date) False))) w)"

text \<open>A regular file moved from \<open>s\<close>.\<close>

definition file_moved :: "key \<Rightarrow> node \<Rightarrow> key \<Rightarrow> (key \<Rightarrow> node option) \<Rightarrow> (key \<Rightarrow> node option)" where
  "file_moved s node f h = h(s := None, f \<mapsto> node)"

definition trashed ::
  "env \<Rightarrow> (key \<Rightarrow> node option) \<Rightarrow> path \<Rightarrow> key \<Rightarrow> node \<Rightarrow> path \<Rightarrow> path \<Rightarrow> 's world \<Rightarrow> bool" where
  "trashed E g root s node dest info w \<longleftrightarrow>
     (\<exists>h m date. grown g h \<and> plain_text date \<and> normal_name m \<and> clean m \<and> valid_utf8 m
        \<and> dest = path_join (path_join root ''files'') m \<and> info = path_join (path_join root ''info'') (m @ ''.trashinfo'')
        \<and> h (path_key (e_cwd E) dest) = None \<and> h (path_key (e_cwd E) info) = None
        \<and> view E UNIV (h(path_key (e_cwd E) info \<mapsto> File (trash_record (from_utf8_lossy (key_path s)) date) False,
             s := None, path_key (e_cwd E) dest \<mapsto> node)) w)"

lemma trashed_by_file: "trashed_by (file_moved s node) E g root s dest info w \<Longrightarrow> trashed E g root s node dest info w"
  unfolding trashed_by_def trashed_def made_for_def file_moved_def by blast

lemma normal_suffix: "normal_name m \<Longrightarrow> CHR ''/'' \<notin> set x \<Longrightarrow> length x \<ge> 2 \<Longrightarrow> normal_name (m @ x)"
  by (auto simp: normal_name_def append_eq_Cons_conv)

lemma candidate_normal: "normal_name stem \<Longrightarrow> normal_name (trash_candidate stem n)"
proof -
  assume s: "normal_name stem"
  have "CHR ''/'' \<notin> set (show_nat n)" using show_nat_digits[of "CHR ''/''" n] by (auto simp: is_digit_def)
  moreover have "show_nat n \<noteq> []" by simp
  ultimately show ?thesis
    using s normal_suffix[OF s, of "''.'' @ show_nat n"]
    by (cases "show_nat n") (auto simp: trash_candidate_def)
qed

lemma trash_keys:
  assumes "normal_name m"
  shows "path_key cwd (path_join (path_join root ''files'') m) = path_key cwd root @ [''files'', m]"
    "path_key cwd (path_join (path_join root ''info'') (m @ ''.trashinfo'')) = path_key cwd root @ [''info'', m @ ''.trashinfo'']"
proof -
  have "normal_name ''files''" "normal_name ''info''" by (simp_all add: normal_name_def)
  moreover have "normal_name (m @ ''.trashinfo'')" by (rule normal_suffix[OF assms]) simp_all
  ultimately show "path_key cwd (path_join (path_join root ''files'') m) = path_key cwd root @ [''files'', m]"
    "path_key cwd (path_join (path_join root ''info'') (m @ ''.trashinfo'')) = path_key cwd root @ [''info'', m @ ''.trashinfo'']"
    using assms by (simp_all add: path_key_join)
qed

lemma valid_join: "valid_utf8 d \<Longrightarrow> valid_utf8 x \<Longrightarrow> valid_utf8 (path_join d x)"
  using valid_utf8_append[of d] valid_utf8_append[of "''/''" x] valid_utf8_ascii[of "''/''"]
  by (simp add: path_join_def)

lemma valid_candidate: "valid_utf8 stem \<Longrightarrow> valid_utf8 (trash_candidate stem n)"
  using show_nat_ascii[of n] by (auto simp: trash_candidate_def valid_utf8_append plain_text_def intro!: valid_utf8_ascii)

lemma trashed_names:
  assumes "trashed E g root s node dest info w" "valid_utf8 root"
  shows "valid_utf8 dest \<and> valid_utf8 info"
proof -
  have "valid_utf8 ''files''" "valid_utf8 ''info''" "valid_utf8 ''.trashinfo''" by code_simp+
  with assms show ?thesis by (auto simp: trashed_def valid_utf8_append intro!: valid_join)
qed

lemma returns_mkdir:
  assumes "path_key (e_cwd E) p = R @ [''files''] \<or> path_key (e_cwd E) p = R @ [''info'']"
  shows "returns (\<lambda>w. \<exists>h. made_for R g h \<and> view E UNIV h w) (create_dir_all p) (\<lambda>_ w. \<exists>h. made_for R g h \<and> view E UNIV h w)"
proof (rule returns_ex, rule returns_conj)
  fix h assume h: "made_for R g h"
  show "returns (view E UNIV h) (create_dir_all p) (\<lambda>_ w. \<exists>h. made_for R g h \<and> view E UNIV h w)"
    unfolding returns_def
    by (rule triple_conseq[OF triple_create_dir_all]) (use h made_for_to[OF h assms] in blast)+
qed

text \<open>Trashing whatever stands at a path, once it is known what moving it changes.\<close>

lemma returns_trash_in_by:
  assumes E: "calm E" "plain_medium E" and root: "clean root" and p: "clean p" "p \<noteq> []" "file_name p = Some m" "valid_utf8 m"
    and s: "path_key (e_cwd E) p = s" "g s \<noteq> None" and R: "R = path_key (e_cwd E) root"
    and moves: "\<And>h q m rec. made_for R g h \<Longrightarrow> path_key (e_cwd E) q = R @ [''files'', m] \<Longrightarrow> h (R @ [''files'', m]) = None \<Longrightarrow>
        h (R @ [''info'', m @ ''.trashinfo'']) = None \<Longrightarrow>
        returns (view E UNIV (h(R @ [''info'', m @ ''.trashinfo''] \<mapsto> File rec False)) :: 's world \<Rightarrow> bool) (rename p q)
          (\<lambda>_. view E UNIV (M (R @ [''files'', m]) (h(R @ [''info'', m @ ''.trashinfo''] \<mapsto> File rec False))))"
  shows "returns (view E UNIV g :: 's world \<Rightarrow> bool) (trash_in root p)
    (\<lambda>out w. case out of Permanent \<Rightarrow> view E UNIV g w
       | Trashed dest info \<Rightarrow> trashed_by M E g root s dest info w)"
proof -
  let ?files = "path_join root ''files''" and ?info = "path_join root ''info''"
  let ?Q = "\<lambda>out (w :: 's world). case out of Permanent \<Rightarrow> view E UNIV g w
       | Trashed dest info \<Rightarrow> trashed_by M E g root s dest info w"
  have nm: "normal_name m" using file_name_last(3)[OF p(3)] .
  have cm: "clean m" using file_name_no_nul[OF p(3)] p(1) by (simp add: clean_def)
  have stem: "(case file_name p of Some n \<Rightarrow> from_utf8_lossy n | None \<Rightarrow> ''file'') = m"
    using p(3,4) by (simp add: lossy_valid)
  have dirs: "clean ?files" "clean ?info"
    using root by (auto simp: clean_def dest!: path_join_set)
  have "m \<noteq> []" using nm by (simp add: normal_name_def)
  let ?store = "\<lambda>(name, info_path).
         io_bind (map_unwrap_or id p (canonicalize p)) (\<lambda>original.
         io_bind iso8601_local_now (\<lambda>date.
         io_bind (try_io (fs_write info_path (trash_record (from_utf8_lossy original) date))) (\<lambda>_.
         io_match (rename p (path_join ?files name))
           (\<lambda>_. ret (Trashed (path_join ?files name) info_path))
           (\<lambda>e. io_discard (remove_file info_path) (fail (Io e))))))"
  have rest: "returns (view E UNIV h) (io_bind (try_io (unique_name ?files ?info m)) ?store) ?Q"
    if h: "made_for R g h" for h
  proof (rule returns_bind[OF returns_try[OF returns_triple[OF triple_unique_name[OF dirs cm \<open>m \<noteq> []\<close>]]]], rule returns_conj)
    fix x assume "\<exists>n. x = (trash_candidate m n, path_join ?info (trash_candidate m n @ ''.trashinfo''))
        \<and> trash_free E h ?files ?info m n"
    then obtain n where x: "x = (trash_candidate m n, path_join ?info (trash_candidate m n @ ''.trashinfo''))"
      and free: "trash_free E h ?files ?info m n" by blast
    let ?m = "trash_candidate m n"
    let ?dest = "path_join ?files ?m" and ?ip = "path_join ?info (?m @ ''.trashinfo'')"
    let ?f = "path_key (e_cwd E) ?dest" and ?i = "path_key (e_cwd E) ?ip"
    have cn: "normal_name ?m" "clean ?m" "valid_utf8 ?m"
      by (rule candidate_normal[OF nm], rule candidate_clean[OF cm], rule valid_candidate[OF p(4)])
    have none: "h ?f = None" "h ?i = None" using free E(1) by (auto simp: trash_free_def)
    have hs: "h s \<noteq> None" using h s(2) grown_some by (fastforce simp: made_for_def)
    note keys = trash_keys[OF cn(1), of "e_cwd E" root, folded R]
    have last: "returns (view E UNIV (h(?i \<mapsto> File (trash_record (from_utf8_lossy (key_path s)) date) False)))
        (io_match (rename p ?dest) (\<lambda>_. ret (Trashed ?dest ?ip)) (\<lambda>e. io_discard (remove_file ?ip) (fail (Io e)))) ?Q"
      if date: "plain_text date" for date
    proof -
      let ?g = "h(?i \<mapsto> File (trash_record (from_utf8_lossy (key_path s)) date) False)"
      have "returns (view E UNIV ?g :: 's world \<Rightarrow> bool) (rename p ?dest) (\<lambda>_. view E UNIV (M ?f ?g))"
        using moves[OF h keys(1)] none unfolding keys by blast
      then show ?thesis
        unfolding returns_def
      proof (rule triple_match)
        show "triple (view E UNIV (M ?f ?g)) (ret (Trashed ?dest ?ip)) ?Q (\<lambda>_ _. True) (\<lambda>_. True)"
          using h date cn none by (intro triple_ret) (auto simp: trashed_by_def R)
        show "triple (\<lambda>_. True) (io_discard (remove_file ?ip) (fail (Io e))) ?Q (\<lambda>_ _. True) (\<lambda>_. True)" for e
          by (auto simp: triple_def io_discard_def io_match_def fail_def split: prod.split res.split)
      qed
    qed
    show "returns (view E UNIV h) (?store x) ?Q"
      unfolding x prod.case
      by (rule returns_bind[OF returns_canonicalize[OF E(1) s(1) p(2,1)]], use hs in simp, rule returns_conj,
          rule returns_bind[OF returns_iso], rule returns_conj,
          rule returns_bind[OF returns_try[OF returns_fs_write[OF E(2) refl]]])
        (use last in simp)
  qed
  show ?thesis
    unfolding trash_in_def Let_def stem
  proof (rule returns_bind[OF returns_keeps[OF keeps_can_trash_in]])
    fix can
    have "path_key (e_cwd E) ?files = R @ [''files'']" "path_key (e_cwd E) ?info = R @ [''info'']"
      by (simp_all add: R path_key_join normal_name_def)
    note mk = returns_try[OF returns_mkdir[where g = g and E = E, OF disjI1[OF this(1)]]]
      returns_try[OF returns_mkdir[where g = g and E = E, OF disjI2[OF this(2)]]]
    have "returns (\<lambda>w. \<exists>h. made_for R g h \<and> view E UNIV h w)
        (io_bind (try_io (create_dir_all ?files)) (\<lambda>_. io_bind (try_io (create_dir_all ?info)) (\<lambda>_.
           io_bind (try_io (unique_name ?files ?info m)) ?store))) ?Q"
      by (rule returns_bind[OF mk(1)], rule returns_bind[OF mk(2)], rule returns_ex, rule returns_conj) (rule rest)
    then have "returns (view E UNIV g)
        (io_bind (try_io (create_dir_all ?files)) (\<lambda>_. io_bind (try_io (create_dir_all ?info)) (\<lambda>_.
           io_bind (try_io (unique_name ?files ?info m)) ?store))) ?Q"
      unfolding returns_def by (rule triple_pre) (rule exI[of _ g], simp add: made_for_refl)
    then show "returns (view E UNIV g) (if \<not> can then ret Permanent
        else io_bind (try_io (create_dir_all ?files)) (\<lambda>_. io_bind (try_io (create_dir_all ?info)) (\<lambda>_.
           io_bind (try_io (unique_name ?files ?info m)) ?store))) ?Q"
      by (simp add: returns_ret)
  qed
qed

lemma returns_trash_in:
  assumes E: "calm E" "plain_medium E" and root: "clean root" and p: "clean p" "p \<noteq> []" "file_name p = Some m" "valid_utf8 m"
    and s: "path_key (e_cwd E) p = s" "g s = Some (File c d)"
  shows "returns (view E UNIV g :: 's world \<Rightarrow> bool) (trash_in root p)
    (\<lambda>out w. case out of Permanent \<Rightarrow> view E UNIV g w
       | Trashed dest info \<Rightarrow> trashed E g root s (File c d) dest info w)"
proof -
  let ?R = "path_key (e_cwd E) root"
  have "returns (view E UNIV g :: 's world \<Rightarrow> bool) (trash_in root p)
    (\<lambda>out w. case out of Permanent \<Rightarrow> view E UNIV g w
       | Trashed dest info \<Rightarrow> trashed_by (file_moved s (File c d)) E g root s dest info w)"
  proof (rule returns_trash_in_by[OF E root p s(1) _ refl])
    fix h q m rec
    let ?i = "?R @ [''info'', m @ ''.trashinfo'']" and ?f = "?R @ [''files'', m]"
    assume "made_for ?R g h" and f: "path_key (e_cwd E) q = ?f" "h ?f = None" and i: "h ?i = None"
    then have hs: "h s = Some (File c d)" using grown_some[of g h s] s(2) by (simp add: made_for_def)
    with f i have ne: "s \<noteq> ?f" "s \<noteq> ?i" by auto
    show "returns (view E UNIV (h(?i \<mapsto> File rec False)) :: 's world \<Rightarrow> bool) (rename p q)
        (\<lambda>_. view E UNIV (file_moved s (File c d) ?f (h(?i \<mapsto> File rec False))))"
      unfolding file_moved_def
      by (rule returns_triple[OF triple_rename_file[OF s(1) f(1) UNIV_I UNIV_I ne(1)]]) (use hs ne in simp)
  qed (use s(2) in simp)
  then show ?thesis
    unfolding returns_def by (rule triple_conseq) (auto split: disposal.splits intro: trashed_by_file)
qed

section \<open>Restoring\<close>

text \<open>The absolute spelling of a key names it again.\<close>

lemma resolve_normal:
  "(\<And>n. n \<in> set k \<Longrightarrow> normal_name n) \<Longrightarrow> (\<And>p. p \<in> set ps \<Longrightarrow> CHR ''/'' \<notin> set p) \<Longrightarrow>
   n \<in> set (resolve k ps) \<Longrightarrow> normal_name n"
proof (induction k ps arbitrary: n rule: resolve.induct)
  case (2 k p ps)
  consider (here) "trivial p" | (up) "\<not> trivial p" "p = ''..''" | (down) "\<not> trivial p" "p \<noteq> ''..''" by blast
  then show ?case
  proof cases
    case here
    with 2(1)[OF here, of n] 2(4-6) show ?thesis by auto
  next
    case up
    have "x \<in> set (butlast k) \<Longrightarrow> normal_name x" for x using 2(4) in_set_butlastD by fast
    with 2(2)[OF up, of n] up 2(5,6) show ?thesis by auto
  next
    case down
    have "normal_name p" using down 2(5)[of p] by (auto simp: normal_name_def trivial_def)
    with 2(3)[OF down, of n] down 2(4-6) show ?thesis by auto
  qed
qed simp

lemma path_key_normal:
  "(\<And>n. n \<in> set cwd \<Longrightarrow> normal_name n) \<Longrightarrow> n \<in> set (path_key cwd p) \<Longrightarrow> normal_name n"
  unfolding path_key_def by (rule resolve_normal) (auto dest: split_slash_no_slash split: if_splits)

lemma resolve_all_normal: "(\<And>n. n \<in> set ps \<Longrightarrow> normal_name n) \<Longrightarrow> resolve k ps = k @ ps"
proof (induction ps arbitrary: k)
  case (Cons p ps)
  then have "\<not> trivial p" "p \<noteq> ''..''" using normal_nameD[of p] by auto
  with Cons show ?case by simp
qed simp

lemma key_path_key:
  assumes "s \<noteq> []" "\<And>n. n \<in> set s \<Longrightarrow> normal_name n"
  shows "path_key cwd (key_path s) = s" "has_root (key_path s)"
proof -
  have "split_slash (join_slash s) = s"
    by (rule split_join_slash[OF assms(1)]) (use assms(2) in \<open>auto simp: normal_name_def\<close>)
  then have "split_slash (key_path s) = [] # s" by (simp add: key_path_def)
  moreover have all: "resolve [] s = [] @ s" by (rule resolve_all_normal) (rule assms(2))
  ultimately show "path_key cwd (key_path s) = s" "has_root (key_path s)"
    using all
    by (simp_all add: path_key_def key_path_def has_root_def trivial_def)
qed

lemma key_path_file:
  assumes "s \<noteq> []" "\<And>n. n \<in> set s \<Longrightarrow> normal_name n"
  shows "file_name (key_path s) = Some (last s)"
proof -
  have "body_names (key_path s) = s"
  proof -
    have "split_slash (join_slash s) = s"
      by (rule split_join_slash[OF assms(1)]) (use assms(2) in \<open>auto simp: normal_name_def\<close>)
    moreover have "filter (\<lambda>p. \<not> trivial p) s = s"
      using assms(2) normal_nameD(1) by (auto intro: filter_True)
    ultimately show ?thesis by (simp add: body_names_split key_path_def trivial_def)
  qed
  moreover have "last s \<noteq> ''..''" using assms normal_nameD(2) by (meson last_in_set)
  ultimately show ?thesis
    using assms(1) by (cases s rule: rev_cases) (auto simp: file_name_def)
qed

lemma returns_read_back:
  assumes "plain_medium E" "path_key (e_cwd E) p = k" "g k = Some (File b d)" "valid_utf8 b"
  shows "returns (view E UNIV g) (read_to_string p) (\<lambda>s w. s = b \<and> view E UNIV g w)"
proof -
  have "returns (view E UNIV g) (fs_read p) (\<lambda>s w. s = b \<and> view E UNIV g w)"
    unfolding returns_def fs_read_def
    by (rule triple_sys)
      (use assms in \<open>auto simp: at_path_def view_def plain_medium_def split: sum.splits option.splits node.splits if_splits\<close>)
  then show ?thesis
    unfolding read_to_string_def by (rule returns_bind, intro returns_conj) (use assms(4) in \<open>simp add: returns_ret\<close>)
qed

text \<open>A removal that is not refused, of a file that is there.\<close>

lemma triple_remove_calm:
  assumes "calm E" "path_key (e_cwd E) p = k" "g k = Some (File b d)" "p \<noteq> []" "clean p"
  shows "triple (view E UNIV g :: 's world \<Rightarrow> bool) (remove_file p) (\<lambda>_. view E UNIV (g(k := None))) (\<lambda>_ _. False) (\<lambda>_. True)"
proof (rule tripleI)
  fix w :: "'s world" and r w1
  assume v: "view E UNIV g w" and run: "remove_file p w = (r, w1)"
  have v1: "view E UNIV g (w\<lparr>w_fs := e_other E (w_tick w) (w_fs w), w_tick := Suc (w_tick w)\<rparr>)"
    by (rule view_meddle[OF v])
  then have f: "map_of (e_other E (w_tick w) (w_fs w)) = g" by (auto simp: view_def)
  from v have E: "w_env w = E" "quiet E UNIV" by (simp_all add: view_def)
  show "case r of Ok a \<Rightarrow> view E UNIV (g(k := None)) w1 | Err e \<Rightarrow> False | Killed \<Rightarrow> True"
    using run f E assms
    by (auto simp: remove_file_def sys_def Let_def calm_def at_path_def clean_def view_def
        split: if_splits option.splits sum.splits)
qed

text \<open>Restoring whatever stands in the trash, once it is known what moving it back changes.\<close>

lemma returns_restore_by:
  assumes E: "calm E" "plain_medium E" and root: "clean root" "\<And>n. n \<in> set s \<Longrightarrow> normal_name n" "s \<noteq> []"
    and valid: "valid_utf8 (key_path s)" and date: "plain_text date" and m: "clean m"
    and info: "info = path_join (path_join root ''info'') (m @ ''.trashinfo'')" "path_key (e_cwd E) info = i"
    and rec: "rec = trash_record (from_utf8_lossy (key_path s)) date" "G i = Some (File rec False)"
    and home: "\<And>h q. grown_to (butlast s) G h \<Longrightarrow> path_key (e_cwd E) q = s \<Longrightarrow>
       returns (view E UNIV h :: 's world \<Rightarrow> bool) (rename dest q) (\<lambda>_. view E UNIV (N h))"
    and N: "\<And>h. grown_to (butlast s) G h \<Longrightarrow> N h i = Some (File rec False) \<and> grown g ((N h)(i := None))"
  shows "returns (view E UNIV G :: 's world \<Rightarrow> bool) (restore dest info) (\<lambda>q w. q = key_path s \<and> grown g (map_of (w_fs w)))"
proof -
  let ?o = "key_path s"
  have clean: "clean info" "info \<noteq> []"
    using root(1) m by (auto simp: info clean_def path_join_not_Nil dest!: path_join_set)
  have orig: "recorded_path rec = Some ?o"
    by (simp add: recorded_path_record[OF date] lossy_valid[OF valid] rec(1))
  have o: "path_key (e_cwd E) ?o = s" by (rule key_path_key[OF root(3,2)])
  obtain dir where dir: "parent ?o = Some dir" "path_key (e_cwd E) ?o = path_key (e_cwd E) dir @ [last s]"
    by (rule path_key_parent[OF key_path_file[OF root(3,2)]])
  then have b: "path_key (e_cwd E) dir = butlast s" using o by (metis butlast_snoc)
  have final: "returns (view E UNIV h :: 's world \<Rightarrow> bool) (io_bind (try_io (rename dest ?o)) (\<lambda>_. io_discard (remove_file info) (ret ?o)))
      (\<lambda>q w. q = ?o \<and> grown g (map_of (w_fs w)))"
    if h: "grown_to (butlast s) G h" for h
  proof -
    have rm: "triple (view E UNIV (N h) :: 's world \<Rightarrow> bool) (remove_file info) (\<lambda>_. view E UNIV ((N h)(i := None))) (\<lambda>_ _. False) (\<lambda>_. True)"
      by (rule triple_remove_calm[OF E(1) info(2)]) (use N[OF h] clean in auto)
    have "triple (view E UNIV (N h) :: 's world \<Rightarrow> bool) (io_discard (remove_file info) (ret ?o))
        (\<lambda>q w. q = ?o \<and> grown g (map_of (w_fs w))) (\<lambda>_ _. True) (\<lambda>_. True)"
      by (intro triple_discard[OF rm] triple_ret) (use N[OF h] in \<open>auto dest: view_UNIV\<close>)
    then show ?thesis
      by (intro returns_bind[OF returns_try[OF home[OF h o]]]) (simp add: returns_def)
  qed
  have mk: "returns (view E UNIV G :: 's world \<Rightarrow> bool) (try_io (create_dir_all dir))
      (\<lambda>_ w. \<exists>h. grown_to (butlast s) G h \<and> view E UNIV h w)"
    unfolding b[symmetric] by (rule returns_try, rule returns_triple, rule triple_create_dir_all)
  have rd: "returns (view E UNIV G :: 's world \<Rightarrow> bool) (try_io (read_to_string info)) (\<lambda>raw w. raw = rec \<and> view E UNIV G w)"
    by (rule returns_try, rule returns_read_back[where g = G, OF E(2) info(2) rec(2)]) (simp add: rec(1) record_valid[OF date])
  show ?thesis
    unfolding restore_def
  proof (rule returns_bind[OF rd], rule returns_conj)
    fix raw assume "raw = rec"
    then have raw: "recorded_path raw = Some ?o" by (simp add: orig)
    show "returns (view E UNIV G :: 's world \<Rightarrow> bool)
      (case recorded_path raw of None \<Rightarrow> fail (Io (Custom InvalidData ''trashinfo has no Path''))
       | Some original \<Rightarrow> io_bind (case parent original of Some d \<Rightarrow> try_io (create_dir_all d) | None \<Rightarrow> ret ())
           (\<lambda>_. io_bind (try_io (rename dest original)) (\<lambda>_. io_discard (remove_file info) (ret original))))
      (\<lambda>q w. q = ?o \<and> grown g (map_of (w_fs w)))"
      unfolding raw option.case dir(1)
      by (rule returns_bind[OF mk], rule returns_ex, rule returns_conj) (rule final)
  qed
qed

lemma returns_restore:
  assumes E: "calm E" "plain_medium E" and root: "clean root" "\<And>n. n \<in> set s \<Longrightarrow> normal_name n" "s \<noteq> []"
    and valid: "valid_utf8 (key_path s)" and g: "g s = Some (File c d)"
  shows "returns (trashed E g root s (File c d) dest info :: 's world \<Rightarrow> bool) (restore dest info)
    (\<lambda>q w. q = key_path s \<and> grown g (map_of (w_fs w)))"
  unfolding trashed_def
proof (intro returns_ex returns_conj)
  fix h m date
  let ?f = "path_key (e_cwd E) dest" and ?i = "path_key (e_cwd E) info"
  let ?rec = "trash_record (from_utf8_lossy (key_path s)) date"
  let ?G = "h(?i \<mapsto> File ?rec False, s := None, ?f \<mapsto> File c d)"
  assume h: "grown g h" and date: "plain_text date" and m: "normal_name m" "clean m"
    and dest: "dest = path_join (path_join root ''files'') m"
    and info: "info = path_join (path_join root ''info'') (m @ ''.trashinfo'')"
    and none: "h ?f = None" "h ?i = None"
  have hs: "h s = Some (File c d)" by (rule grown_some[OF h g])
  have ne: "s \<noteq> ?f" "s \<noteq> ?i" "?f \<noteq> ?i"
    using none hs trash_keys[OF m(1), of "e_cwd E" root] by (auto simp: dest info)
  have Gi: "?G ?i = Some (File ?rec False)" using ne by simp
  show "returns (view E UNIV ?G :: 's world \<Rightarrow> bool) (restore dest info)
      (\<lambda>q w. q = key_path s \<and> grown g (map_of (w_fs w)))"
  proof (rule returns_restore_by[where N = "\<lambda>h. h(?f := None, s \<mapsto> File c d)" and g = g and G = ?G and i = ?i, OF E root valid date m(2) info refl refl Gi])
    fix h2 assume h2: "grown_to (butlast s) ?G h2"
    have h2f: "h2 ?f = Some (File c d)" using grown_some[OF grown_to_grown[OF h2], of ?f] by simp
    have h2i: "h2 ?i = Some (File ?rec False)" using grown_some[OF grown_to_grown[OF h2], of ?i] ne by simp
    show "returns (view E UNIV h2 :: 's world \<Rightarrow> bool) (rename dest q) (\<lambda>_. view E UNIV (h2(?f := None, s \<mapsto> File c d)))"
      if "path_key (e_cwd E) q = s" for q
      by (rule returns_triple[OF triple_rename_file]) (use that ne h2f in auto)
    have "grown g ((h2(?f := None, s \<mapsto> File c d))(?i := None))"
      using h2 h none g ne unfolding grown_def grown_to_def
      by (smt (verit) fun_upd_other fun_upd_same option.distinct(1))
    then show "(h2(?f := None, s \<mapsto> File c d)) ?i = Some (File ?rec False) \<and> grown g ((h2(?f := None, s \<mapsto> File c d))(?i := None))"
      using ne h2i by simp
  qed
qed

section \<open>Trashing, on any machine\<close>

lemma keeps_create_dir_all:
  assumes "\<And>k. k \<in> S \<Longrightarrow> prefix k (path_key (e_cwd E) p) \<Longrightarrow> g k \<noteq> None"
  shows "keeps E S g (create_dir_all p)"
proof (cases "p = []")
  case True
  then show ?thesis by (auto simp: create_dir_all_def intro: triple_intro)
next
  case False
  show ?thesis
    unfolding create_dir_all_def if_not_P[OF False]
  proof (rule keeps_sys)
    fix t f a f' k
    assume g: "\<And>k. k \<in> S \<Longrightarrow> map_of f k = g k" and k: "k \<in> S"
      and "at_path p E (\<lambda>k. case mkdirs [] k f of Inl e \<Rightarrow> Inl e | Inr f' \<Rightarrow> Inr ((), f')) = Inr (a, f')"
    then have "grown_to (path_key (e_cwd E) p) (map_of f) (map_of f')"
      using mkdirs_grown[of "[]"] by (auto dest!: at_path_Inr split: sum.splits)
    then show "map_of f' k = map_of f k"
      using assms[OF k] g[OF k] unfolding grown_to_def by metis
  qed
qed

lemma keeps_first_free: "(\<And>n. keeps E S g (probe n)) \<Longrightarrow> keeps E S g (first_free probe lo hi)"
proof (induction "hi - lo" arbitrary: lo)
  case 0
  then show ?case by (subst first_free.simps) (auto intro!: triple_intro)
next
  case (Suc d)
  then show ?case by (subst first_free.simps) (auto intro!: triple_intro)
qed

lemma keeps_iso [triple_intro]: "keeps E S g iso8601_local_now"
  unfolding iso8601_local_now_def Let_def by (intro triple_intro)

lemma keeps_unique_name:
  "triple (view E S g) (unique_name files info stem)
    (\<lambda>x w. (\<exists>n. x = (trash_candidate stem n, path_join info (trash_candidate stem n @ ''.trashinfo''))) \<and> view E S g w)
    (\<lambda>_. view E S g) (view E S g)"
proof -
  have "keeps E S g (first_free (trash_probe files info stem) 0 10000)"
    unfolding trash_probe_def Let_def by (intro keeps_first_free triple_intro)
  then show ?thesis
    unfolding unique_name_def
    by (intro triple_bind[where R = "\<lambda>_. view E S g"] triple_option)
      (auto simp: keeps_def intro!: triple_ret triple_fail)
qed

text \<open>The file is under its own name, or under a name of the trash.\<close>

definition file_kept :: "key \<Rightarrow> key \<Rightarrow> node \<Rightarrow> 's world \<Rightarrow> bool" where
  "file_kept s files n w \<longleftrightarrow> map_of (w_fs w) s = Some n \<or> (\<exists>x. map_of (w_fs w) (files @ [x]) = Some n)"

lemma triple_trash_rename:
  assumes s: "path_key (e_cwd E) p = s" "s \<in> S" "g s = Some (File c d)"
    and k: "path_key (e_cwd E) q = files @ [x]" "files @ [x] \<in> S"
  shows "triple (view E S g) (rename p q) (\<lambda>_. file_kept s files (File c d)) (\<lambda>_. view E S g) (file_kept s files (File c d))"
proof (cases "s = files @ [x]")
  case True
  have "triple (view E S g) (rename p q) (\<lambda>_. view E S g) (\<lambda>_. view E S g) (view E S g)"
    unfolding rename_def
    by (rule triple_sys)
      (use s k True in \<open>auto simp: at_path_def fs_rename_def view_def split: sum.splits option.splits if_splits\<close>)
  then show ?thesis
    by (rule triple_conseq) (use s in \<open>auto simp: file_kept_def view_def\<close>)
next
  case False
  show ?thesis
    by (rule triple_conseq[OF triple_rename_file[OF s(1) k(1) s(2) k(2) False, where g = g, OF s(3)]])
      (use s k in \<open>auto simp: file_kept_def view_def intro!: exI[of _ x]\<close>)
qed

lemma triple_trash_in:
  assumes s: "path_key (e_cwd E) p = s" "s \<in> S" "g s = Some (File c d)" and m: "file_name p = Some m" "valid_utf8 m"
    and files: "files = path_key (e_cwd E) root @ [''files'']"
    and S: "S = insert s {files @ [x] | x. True}" and out: "butlast s \<noteq> path_key (e_cwd E) root @ [''info'']"
  shows "triple (view E S g :: 's world \<Rightarrow> bool) (trash_in root p)
    (\<lambda>_. file_kept s files (File c d)) (\<lambda>_. view E S g) (file_kept s files (File c d))"
proof -
  let ?files = "path_join root ''files''" and ?info = "path_join root ''info''"
  let ?K = "file_kept s files (File c d) :: 's world \<Rightarrow> bool"
  have here: "?K w" if "view E S g w" for w
    using that s by (auto simp: file_kept_def view_def)
  have kept: "triple (view E S g :: 's world \<Rightarrow> bool) x (\<lambda>_. view E S g) (\<lambda>_. view E S g) ?K" if "keeps E S g x"
    for x :: "('e, 'a, 's) io"
    by (rule keeps_triple[OF that]) (auto intro: here)
  have nm: "normal_name m" using file_name_last(3)[OF m(1)] .
  have stem: "(case file_name p of Some n \<Rightarrow> from_utf8_lossy n | None \<Rightarrow> ''file'') = m"
    using m by (simp add: lossy_valid)
  have dir: "path_key (e_cwd E) ?files = files" "path_key (e_cwd E) ?info = path_key (e_cwd E) root @ [''info'']"
    by (simp_all add: path_key_join normal_name_def files)
  have mk1: "keeps E S g (try_io (create_dir_all ?files))" and mk2: "keeps E S g (try_io (create_dir_all ?info))"
    by (intro triple_intro keeps_create_dir_all; use s in \<open>auto simp: S dir prefix_def files\<close>)+
  have tail: "triple (view E S g :: 's world \<Rightarrow> bool)
      (io_bind (map_unwrap_or id p (canonicalize p)) (\<lambda>original.
         io_bind iso8601_local_now (\<lambda>date.
         io_bind (try_io (fs_write (path_join ?info (trash_candidate m n @ ''.trashinfo''))
                   (trash_record (from_utf8_lossy original) date))) (\<lambda>_.
         io_match (rename p (path_join ?files (trash_candidate m n)))
           (\<lambda>_. ret (Trashed (path_join ?files (trash_candidate m n)) (path_join ?info (trash_candidate m n @ ''.trashinfo''))))
           (\<lambda>e. io_discard (remove_file (path_join ?info (trash_candidate m n @ ''.trashinfo''))) (fail (Io e)))))))
      (\<lambda>_. ?K) (\<lambda>_. view E S g) ?K" for n
  proof -
    have c: "normal_name (trash_candidate m n)" by (rule candidate_normal[OF nm])
    note keys = trash_keys[OF c, of "e_cwd E" root]
    have info: "path_key (e_cwd E) (path_join ?info (trash_candidate m n @ ''.trashinfo'')) \<notin> S"
      using out by (auto simp: S keys files butlast_append)
    have x: "path_key (e_cwd E) (path_join ?files (trash_candidate m n)) = files @ [trash_candidate m n]"
      "files @ [trash_candidate m n] \<in> S"
      using keys by (auto simp: S files)
    have k1: "keeps E S g (map_unwrap_or id p (canonicalize p))" by (intro triple_intro)
    have k2: "keeps E S g iso8601_local_now" by (intro triple_intro)
    have k3: "keeps E S g (try_io (fs_write (path_join ?info (trash_candidate m n @ ''.trashinfo'')) b))" for b
      by (intro triple_intro info)
    have k4: "keeps E S g (io_discard (remove_file (path_join ?info (trash_candidate m n @ ''.trashinfo''))) (fail (Io e)))"
      for e by (intro triple_intro info)
    have mv: "triple (view E S g) (rename p (path_join ?files (trash_candidate m n))) (\<lambda>_. ?K) (\<lambda>_. view E S g) ?K"
      by (rule triple_trash_rename[where g = g and files = files and x = "trash_candidate m n", OF s x])
    show ?thesis
      by (rule triple_bind[OF kept[OF k1]], rule triple_bind[OF kept[OF k2]], rule triple_bind[OF kept[OF k3]],
          rule triple_match[OF mv], rule triple_ret, assumption, rule triple_conseq[OF kept[OF k4]]) (auto intro: here)
  qed
  have un: "triple (view E S g :: 's world \<Rightarrow> bool) (try_io (unique_name ?files ?info m))
     (\<lambda>x w. (\<exists>n. x = (trash_candidate m n, path_join ?info (trash_candidate m n @ ''.trashinfo''))) \<and> view E S g w)
     (\<lambda>_. view E S g) ?K"
    by (rule triple_map_err, rule triple_conseq[OF keeps_unique_name]) (auto intro: here)
  have can: "keeps E S g (can_trash_in root p)" by (intro triple_intro)
  show ?thesis
    unfolding trash_in_def Let_def stem
    by (rule triple_bind[OF kept[OF can]], rule triple_if, rule triple_ret, erule here,
        rule triple_bind[OF kept[OF mk1]], rule triple_bind[OF kept[OF mk2]], rule triple_bind[OF un], rule triple_conj)
      (use tail in auto)
qed

section \<open>Properties\<close>

text \<open>A regular file on a machine that refuses no call, lets nobody else write and keeps what is written.\<close>

definition at_rest :: "'s world \<Rightarrow> path \<Rightarrow> bytes \<Rightarrow> bool \<Rightarrow> bool" where
  "at_rest w p c d \<longleftrightarrow>
     calm (w_env w) \<and> quiet (w_env w) UNIV \<and> plain_medium (w_env w)
     \<and> p \<noteq> [] \<and> clean p \<and> map_of (w_fs w) (path_key (e_cwd (w_env w)) p) = Some (File c d)"

definition text_names :: "env \<Rightarrow> path \<Rightarrow> bool" where
  "text_names E p \<longleftrightarrow>
     (\<exists>m. file_name p = Some m \<and> valid_utf8 m) \<and> valid_utf8 (key_path (path_key (e_cwd E) p))
     \<and> (\<forall>n \<in> set (e_cwd E). normal_name n)"

text \<open>
  Restoring undoes trashing. For a regular file whose path is text, on a machine at rest: after a
  trashing that says where the file went, a restore with exactly those two paths, if it returns
  a path, returns one that names the file's own place, and the whole file system is what it was
  before the trashing, apart from directories that were made on the way.
\<close>

theorem restored_file_is_back:
  assumes "at_rest w p c d" "text_names (w_env w) p" "clean root"
    and "trash_in root p w = (Ok (Trashed dest info), w1)" and "restore dest info w1 = (Ok q, w2)"
  shows "path_key (e_cwd (w_env w)) q = path_key (e_cwd (w_env w)) p \<and> grown (map_of (w_fs w)) (map_of (w_fs w2))"
proof -
  let ?E = "w_env w" and ?g = "map_of (w_fs w)" and ?s = "path_key (e_cwd (w_env w)) p"
  from assms(1) have E: "calm ?E" "plain_medium ?E" "quiet ?E UNIV" and p: "clean p" "p \<noteq> []" and g: "?g ?s = Some (File c d)"
    by (simp_all add: at_rest_def)
  from assms(2) obtain m where m: "file_name p = Some m" "valid_utf8 m" and valid: "valid_utf8 (key_path ?s)"
    and cwd: "\<And>n. n \<in> set (e_cwd ?E) \<Longrightarrow> normal_name n"
    by (auto simp: text_names_def)
  have s: "?s \<noteq> []" using key_of_file[OF m(1)] by simp
  have normal: "normal_name n" if "n \<in> set ?s" for n by (rule path_key_normal[OF _ that]) (rule cwd)
  have "trashed ?E ?g root ?s (File c d) dest info w1"
    using returnsD[OF returns_trash_in[OF E(1,2) assms(3) p m refl, where g = ?g, OF g] view_start[OF E(3)] assms(4)]
    by simp
  from returnsD[OF returns_restore[where s = ?s and g = ?g, OF E(1,2) assms(3) normal s valid g] this assms(5)]
  show ?thesis using key_path_key[OF s normal] by simp
qed

text \<open>
  Trashing moves the file and clobbers nothing. On a machine at rest, a trashing that says where the
  file went has moved exactly that file, with its bytes, to a name in the trash that nothing
  occupied, beside a record that reads back as the file's place; every other key is as it was,
  apart from directories that were made. A trashing that says "permanent" has changed nothing.
\<close>

theorem trash_moves_and_records:
  assumes "at_rest w p c d" "text_names (w_env w) p" "clean root"
    and "trash_in root p w = (Ok out, w1)"
  shows "case out of
      Permanent \<Rightarrow> map_of (w_fs w1) = map_of (w_fs w)
    | Trashed dest info \<Rightarrow>
        (\<exists>h date. grown (map_of (w_fs w)) h
           \<and> h (path_key (e_cwd (w_env w)) dest) = None \<and> h (path_key (e_cwd (w_env w)) info) = None
           \<and> recorded_path (trash_record (key_path (path_key (e_cwd (w_env w)) p)) date)
               = Some (key_path (path_key (e_cwd (w_env w)) p))
           \<and> map_of (w_fs w1) = h(path_key (e_cwd (w_env w)) info
                 \<mapsto> File (trash_record (key_path (path_key (e_cwd (w_env w)) p)) date) False,
               path_key (e_cwd (w_env w)) p := None, path_key (e_cwd (w_env w)) dest \<mapsto> File c d))"
proof -
  let ?E = "w_env w" and ?g = "map_of (w_fs w)" and ?s = "path_key (e_cwd (w_env w)) p"
  from assms(1) have E: "calm ?E" "plain_medium ?E" "quiet ?E UNIV" and p: "clean p" "p \<noteq> []" and g: "?g ?s = Some (File c d)"
    by (simp_all add: at_rest_def)
  from assms(2) obtain m where m: "file_name p = Some m" "valid_utf8 m" and valid: "valid_utf8 (key_path ?s)"
    by (auto simp: text_names_def)
  have lossy: "from_utf8_lossy (key_path ?s) = key_path ?s" by (rule lossy_valid[OF valid])
  have out: "case out of Permanent \<Rightarrow> view ?E UNIV ?g w1 | Trashed dest info \<Rightarrow> trashed ?E ?g root ?s (File c d) dest info w1"
    by (rule returnsD[OF returns_trash_in[OF E(1,2) assms(3) p m refl, where g = ?g, OF g] view_start[OF E(3)] assms(4)])
  show ?thesis
  proof (cases out)
    case (Trashed dest info)
    with out obtain h m' date where h: "grown ?g h" "plain_text date" "h (path_key (e_cwd ?E) dest) = None"
      "h (path_key (e_cwd ?E) info) = None"
      and v: "view ?E UNIV (h(path_key (e_cwd ?E) info \<mapsto> File (trash_record (key_path ?s) date) False,
             ?s := None, path_key (e_cwd ?E) dest \<mapsto> File c d)) w1"
      by (auto simp: trashed_def lossy)
    from h view_UNIV[OF v] recorded_path_record[OF h(2), of "key_path ?s"] show ?thesis
      by (auto simp: Trashed lossy intro!: exI[of _ h] exI[of _ date])
  next
    case Permanent
    with out show ?thesis by (auto dest: view_UNIV)
  qed
qed

text \<open>
  C27. No trashing loses the file. Whichever call fails and wherever the daemon is killed, whatever
  the medium does: a regular file that is not itself a record of this trash is, after any ending of
  a trashing, under its own name or under a name in the trash, with its bytes.
\<close>

theorem trash_never_loses:
  assumes "quiet (w_env w) (insert (path_key (e_cwd (w_env w)) p) {path_key (e_cwd (w_env w)) root @ [''files'', x] | x. True})"
    and "file_name p = Some m" "valid_utf8 m"
    and "map_of (w_fs w) (path_key (e_cwd (w_env w)) p) = Some (File c d)"
    and "butlast (path_key (e_cwd (w_env w)) p) \<noteq> path_key (e_cwd (w_env w)) root @ [''info'']"
    and "trash_in root p w = (r, w1)"
  shows "file_kept (path_key (e_cwd (w_env w)) p) (path_key (e_cwd (w_env w)) root @ [''files'']) (File c d) w1"
proof -
  let ?E = "w_env w" and ?s = "path_key (e_cwd (w_env w)) p" and ?files = "path_key (e_cwd (w_env w)) root @ [''files'']"
  let ?S = "insert ?s {?files @ [x] | x. True}"
  have q: "quiet ?E ?S" using assms(1) by simp
  note t = triple_trash_in[where g = "map_of (w_fs w)" and s = ?s and S = ?S and E = ?E and root = root,
      OF refl _ assms(4,2,3) refl refl assms(5)]
  show ?thesis
    using tripleD[OF t view_start[OF q]] assms(4,6) by (cases r) (auto simp: file_kept_def view_def)
qed

text \<open>
  A trash record reads back. The record written for a path and a date names, when the daemon reads it
  for a restore, exactly that path (its lossy reading when it is not text), and is text itself.
\<close>

theorem trash_record_reads_back:
  "recorded_path (trash_record original (show_datetime t)) = Some (from_utf8_lossy original)
   \<and> valid_utf8 (trash_record original (show_datetime t))"
  using recorded_path_record[OF plain_datetime] record_valid[OF plain_datetime] by blast

section \<open>Witnesses\<close>

definition lab_trash :: path where
  "lab_trash = ''/trash''"

definition lab_trashed :: "(transfer_error, disposal) res \<times> unit world" where
  "lab_trashed = trash_in lab_trash ''/src/a'' (lab_world whole_read)"

lemma lab_trash_out:
  "fst lab_trashed = Ok (Trashed ''/trash/files/a'' ''/trash/info/a.trashinfo'')"
  by code_simp

definition lab_restored :: "(transfer_error, path) res \<times> unit world" where
  "lab_restored = restore ''/trash/files/a'' ''/trash/info/a.trashinfo'' (snd lab_trashed)"

lemma lab_restore_out: "fst lab_restored = Ok ''/src/a''"
  by code_simp

lemma lab_at_rest: "at_rest (lab_world whole_read) ''/src/a'' ''hello'' True"
  by (simp add: at_rest_def lab_calm quiet_def plain_medium_def whole_read_def clean_def lab_paths lab_files)

lemma lab_text_names: "text_names (w_env (lab_world whole_read)) ''/src/a''"
proof -
  have "valid_utf8 ''a''" "valid_utf8 (key_path [''src'', ''a''])" by code_simp+
  then show ?thesis by (simp add: text_names_def lab_paths)
qed

lemma lab_clean: "clean lab_trash"
  by (simp add: clean_def lab_trash_def)

lemma restored_file_is_back_witness: "map_of (w_fs (snd lab_restored)) [''src'', ''a''] = Some (File ''hello'' True)"
proof -
  have 1: "trash_in lab_trash ''/src/a'' (lab_world whole_read) = (Ok (Trashed ''/trash/files/a'' ''/trash/info/a.trashinfo''), snd lab_trashed)"
    using lab_trash_out by (simp add: lab_trashed_def prod_eq_iff)
  have 2: "restore ''/trash/files/a'' ''/trash/info/a.trashinfo'' (snd lab_trashed) = (Ok ''/src/a'', snd lab_restored)"
    using lab_restore_out by (simp add: lab_restored_def prod_eq_iff)
  from restored_file_is_back[OF lab_at_rest lab_text_names lab_clean 1 2] show ?thesis
    using grown_some[of "map_of lab_fs" "map_of (w_fs (snd lab_restored))" "[''src'', ''a'']"] by (simp add: lab_files)
qed

lemma trash_moves_and_records_witness:
  "map_of (w_fs (snd lab_trashed)) [''trash'', ''files'', ''a''] = Some (File ''hello'' True)
   \<and> map_of (w_fs (snd lab_trashed)) [''src'', ''a''] = None"
proof -
  have 1: "trash_in lab_trash ''/src/a'' (lab_world whole_read) = (Ok (Trashed ''/trash/files/a'' ''/trash/info/a.trashinfo''), snd lab_trashed)"
    using lab_trash_out by (simp add: lab_trashed_def prod_eq_iff)
  have "path_key [] ''/trash/files/a'' = [''trash'', ''files'', ''a'']" by code_simp
  with trash_moves_and_records[OF lab_at_rest lab_text_names lab_clean 1] show ?thesis
    by (auto simp: lab_paths)
qed

lemma trash_never_loses_witness:
  "file_kept [''src'', ''a''] [''trash'', ''files''] (File ''hello'' True)
     (snd (trash_in lab_trash ''/src/a'' (lab_world empty_read)))"
proof -
  have "path_key [] lab_trash = [''trash'']" "valid_utf8 ''a''" by code_simp+
  with trash_never_loses[of "lab_world empty_read" "''/src/a''" lab_trash "''a''" "''hello''" True, OF _ _ _ _ _ surjective_pairing]
  show ?thesis by (simp add: quiet_def lab_paths lab_files)
qed

end
