(* ===== verification/Divergences.thy ===== *)
theory Divergences
  imports Trashing Moving Jobs
begin

text \<open>
  Runs of the model that show where the code does something else than its comments, its documents
  or its own rules say. Each is evaluated by the simplifier on the concrete machine of theory
  \<open>Scenario\<close>, with one thing about it changed: a second device, a call that fails once, another
  process that writes at one moment, a kill.
\<close>

definition lab_but :: "(env \<Rightarrow> env) \<Rightarrow> unit world" where
  "lab_but change = (lab_world whole_read)\<lparr>w_env := change (lab_reading whole_read)\<rparr>"

definition copy_on :: "(env \<Rightarrow> env) \<Rightarrow> path \<Rightarrow> path \<Rightarrow> (transfer_error, outcome) res \<times> node option" where
  "copy_on change src dst =
     (case copy_file_with lab_crates lab_journal src dst default_options unreported (lab_but change) of
        (r, w) \<Rightarrow> (r, map_of (w_fs w) (path_key [] dst)))"

definition move_on :: "(env \<Rightarrow> env) \<Rightarrow> conflict \<Rightarrow> path \<Rightarrow> (transfer_error, outcome) res \<times> node option" where
  "move_on change rule dst =
     (case move_file_with lab_crates lab_journal ''/src/a'' dst \<lparr>opt_checksum = False, opt_on_conflict = rule\<rparr>
             unreported (lab_but change) of
        (r, w) \<Rightarrow> (r, map_of (w_fs w) (path_key [] dst)))"

section \<open>Words that are not so\<close>

text \<open>
  A move to another file system is a copy and a removal; the outcome is the one of a rename, and
  the row says that nothing was copied.
\<close>

lemma cross_device_move_claims_nothing_was_copied:
  "move_on (\<lambda>E. E\<lparr>e_dev := (\<lambda>k. if prefix [''dst''] k then 1 else 0)\<rparr>) Skip ''/dst/c''
     = (Ok (Moved ''/dst/c''), Some (File ''hello'' True))
   \<and> co_detail (tally_finish (tally_add ''c'' (Moved ''/dst/c'') 5 (tally_new True)))
     = ''same filesystem '' @ em_dash @ '' nothing was copied''"
  by (intro conjI) code_simp+

text \<open>A move that replaced a file does not count it: the outcome of a move has no such flag.\<close>

lemma replacing_move_is_not_counted:
  "move_on id Replace ''/dst/b'' = (Ok (Moved ''/dst/b''), Some (File ''hello'' True))
   \<and> ta_replaced (tally_add ''b'' (Moved ''/dst/b'') 5 (tally_new True)) = 0"
  by (intro conjI) code_simp+

text \<open>
  Verification reads both files, and what it reports goes into the row as bytes that reached the
  destination: while its copy is read back, the row of a five-byte file stands at ten bytes of five.
\<close>

definition reports_of_a_checked_copy :: "(phase \<times> u64 \<times> u64) list" where
  "reports_of_a_checked_copy =
     (case copy_file_with lab_crates lab_journal ''/src/a'' ''/dst/b'' replace_checked
             (\<lambda>ph d tot log. log @ [(ph, d, tot)]) \<lparr>w_env = lab_reading whole_read, w_fs = lab_fs, w_tick = 0, w_cap = []\<rparr> of
        (r, w) \<Rightarrow> w_cap w)"

definition row_after :: "phase \<times> u64 \<times> u64 \<Rightarrow> (u64 \<times> u64 \<times> fraction) option" where
  "row_after = (\<lambda>(ph, d, tot).
     map_option (\<lambda>v. (jv_bytes v, jv_expected v, jv_done v))
       (lookup_job (report lab_job (js_base lab_job) 0 ph d tot shared_new) ''1''))"

lemma verification_passes_the_whole:
  "reports_of_a_checked_copy = [(Copying, 5, 5), (Verifying, 5, 10), (Verifying, 10, 10)]
   \<and> row_after (Verifying, 10, 10) = Some (10, 5, Fraction 10 5)"
  by (intro conjI) code_simp+

section \<open>Rules that one failed call undoes\<close>

text \<open>\<open>exists\<close> takes every error for absence: one failed look, and the skip rule overwrites.\<close>

lemma skip_overwrites_after_a_failed_look:
  "map_of lab_fs [''dst'', ''b''] = Some (File ''old'' True)
   \<and> copy_on (\<lambda>E. E\<lparr>e_fault := (\<lambda>t. if t = 1 then Some OtherKind else None)\<rparr>) ''/src/a'' ''/dst/b''
     = (Ok (Copied SizeChecked 5 False ''/dst/b''), Some (File ''hello'' True))"
  by (intro conjI) code_simp+

text \<open>The journal is cleared after the commit; when that fails a file that landed is reported as an error.\<close>

lemma committed_but_reported_failed:
  "copy_on (\<lambda>E. E\<lparr>e_fault := (\<lambda>t. if t = 21 then Some OtherKind else None)\<rparr>) ''/src/a'' ''/dst/c''
     = (Err (Io (Os OtherKind)), Some (File ''hello'' True))"
  by code_simp

text \<open>
  The size check stands on the streaming path only. A source that shrinks between the look at its
  size and the clone is committed short, and reported with the size it had.
\<close>

lemma clone_is_not_size_checked:
  "copy_on (\<lambda>E. E\<lparr>e_cow := (\<lambda>d. True),
      e_other := (\<lambda>t f. if t = 5 then AList.update [''src'', ''a''] (File [] True) f else f)\<rparr>) ''/src/a'' ''/dst/c''
     = (Ok (Copied SharedExtents 5 False ''/dst/c''), Some (File [] True))"
  by code_simp

text \<open>A bare name has the empty path for a parent, which names nothing: such a copy never starts.\<close>

lemma bare_names_are_not_found:
  "fst (copy_on (\<lambda>E. E\<lparr>e_cwd := [''src'']\<rparr>) ''a'' ''b'') = Err (Io (Os NotFound))"
  by code_simp

text \<open>
  The temporary file of a destination has one name for all Jobs. When another Job has written its own
  five bytes into it just before the commit, they are committed under this Job's size-checked row.
\<close>

lemma temporary_file_is_shared:
  "copy_on (\<lambda>E. E\<lparr>e_other := (\<lambda>t f. if t = 20
        then AList.update (path_key [] (temp_path_for ''/dst/c'')) (File ''other'' True) f else f)\<rparr>) ''/src/a'' ''/dst/c''
     = (Ok (Copied SizeChecked 5 False ''/dst/c''), Some (File ''other'' True))"
  by code_simp

section \<open>A restore that replaces\<close>

text \<open>What came to stand at the old place of a trashed file is lost when that file is restored.\<close>

definition restored_over :: "(transfer_error, path) res \<times> node option" where
  "restored_over =
     (case lab_trashed of (r, w) \<Rightarrow>
        (case restore ''/trash/files/a'' ''/trash/info/a.trashinfo''
                (w\<lparr>w_fs := AList.update [''src'', ''a''] (File ''new'' True) (w_fs w)\<rparr>) of
           (q, w2) \<Rightarrow> (q, map_of (w_fs w2) [''src'', ''a''])))"

lemma restore_replaces: "restored_over = (Ok ''/src/a'', Some (File ''hello'' True))"
  by code_simp

section \<open>A journal that never resumes\<close>

text \<open>
  The engine writes an entry once, before it streams, with the offset it starts from. An entry
  that says nothing was done, which is what a first attempt writes, resumes nothing: the next
  attempt starts from nothing and writes the same.
\<close>

lemma fresh_entries_resume_nothing:
  assumes "\<And>raw en. from_json D raw = Some en \<Longrightarrow> en_bytes_done en = 0"
    and "resume_offset D J dst temp expected checksum w = (r, w')"
  shows "r = Ok 0 \<or> r = Killed"
proof -
  have "m w = (r', w1) \<Longrightarrow> r' \<noteq> Err e" if "m = journal_get D J dst" for m :: "('e, entry option, 's) io" and w r' w1 e
    using that by (auto simp: journal_get_def io_match_def ret_def split: prod.splits res.splits)
  with assms show ?thesis
    by (fastforce simp: resume_offset_def journal_get_def io_bind_def io_match_def ret_def fail_def
        split: prod.splits res.splits option.splits if_splits)
qed

end
