(* ===== verification/Deleting.thy ===== *)
theory Deleting
  imports Trashing Session
begin

text \<open>
  Deleting and taking it back, as a client sees it: the \<open>Delete\<close> and \<open>Restore\<close> requests of
  \<open>daemon/src/server.rs\<close> over the trash of \<open>daemon/src/trash.rs\<close>. What the answer says (gone for
  good, in the trash and where, not deleted) is compared with what is on the disk.
\<close>

section \<open>The trash of the user\<close>

definition trash_root :: "env \<Rightarrow> path" where
  "trash_root E =
     path_join (case e_vars E ''XDG_DATA_HOME'' of
                  Some v \<Rightarrow> v
                | None \<Rightarrow> path_join (case e_vars E ''HOME'' of Some h \<Rightarrow> h | None \<Rightarrow> []) ''.local/share'') ''Trash''"

lemma trash_run: "trash p w = trash_in (trash_root (w_env w)) p w"
  by (simp add: trash_def home_trash_def io_bind_def io_match_def get_env_def ret_def Let_def trash_root_def)

section \<open>Permanent deletion\<close>

lemma triple_delete_permanently:
  assumes "path_key (e_cwd E) p = s" "s \<in> S" "g s = Some (File c d)"
  shows "triple (view E S g :: 's world \<Rightarrow> bool) (delete_permanently p)
    (\<lambda>_. view E S (g(s := None))) (\<lambda>_. view E S g) (\<lambda>_. True)"
proof -
  have isdir: "triple (view E S g :: 's world \<Rightarrow> bool) (path_is_dir p) (\<lambda>b w. \<not> b \<and> view E S g w) (\<lambda>_. view E S g) (\<lambda>_. True)"
    unfolding path_is_dir_def map_unwrap_or_def
    by (rule triple_match[where R = "\<lambda>m w. \<not> md_is_dir m \<and> view E S g w" and S = "\<lambda>_. view E S g"],
        rule triple_conseq[OF triple_metadata[OF assms(1,2), where g = g]]) (auto simp: assms(3) intro: triple_ret)
  have rm: "triple (view E S g :: 's world \<Rightarrow> bool) (try_io (remove_file p)) (\<lambda>_. view E S (g(s := None))) (\<lambda>_. view E S g) (\<lambda>_. True)"
    by (rule triple_map_err) (rule triple_conseq[OF triple_remove_file[OF assms(1,2), where g = g]], simp_all)
  show ?thesis
    unfolding delete_permanently_def
    by (rule triple_bind[OF isdir], rule triple_conj, simp, rule triple_bind[OF rm], rule triple_ret)
qed

section \<open>What the answer says\<close>

text \<open>The disk, as the answer to a deletion of a regular file describes it.\<close>

definition deletion_told ::
  "env \<Rightarrow> (key \<Rightarrow> node option) \<Rightarrow> path \<Rightarrow> node \<Rightarrow> bool \<Rightarrow> string option \<Rightarrow> string option \<Rightarrow> string option \<Rightarrow> 's world \<Rightarrow> bool" where
  "deletion_told E g p node recoverable trashed_as info err w \<longleftrightarrow>
     (case err of
        Some e \<Rightarrow> \<not> recoverable \<and> map_of (w_fs w) (path_key (e_cwd E) p) = Some node
      | None \<Rightarrow>
          if recoverable
          then \<exists>dest rcd. trashed_as = Some (from_utf8_lossy dest) \<and> info = Some (from_utf8_lossy rcd)
                 \<and> trashed E g (trash_root E) (path_key (e_cwd E) p) node dest rcd w
          else map_of (w_fs w) = g(path_key (e_cwd E) p := None))"

lemma deletion_told_trashed:
  "trashed E g (trash_root E) (path_key (e_cwd E) p) node dest rcd w \<Longrightarrow>
   deletion_told E g p node True (Some (from_utf8_lossy dest)) (Some (from_utf8_lossy rcd)) None w"
  by (auto simp: deletion_told_def)

lemma trashed_gone: "trashed E g root s node dest rcd w \<Longrightarrow> g s \<noteq> None \<Longrightarrow>
    map_of (w_fs w) s = None \<and> map_of (w_fs w) (path_key (e_cwd E) dest) = Some node"
  unfolding trashed_def by (auto dest!: view_UNIV) (metis grown_none option.distinct(1))+

definition answers_deletion ::
  "env \<Rightarrow> (key \<Rightarrow> node option) \<Rightarrow> u64 \<Rightarrow> path \<Rightarrow> node \<Rightarrow> (u64 \<Rightarrow> event) \<Rightarrow> 's world \<Rightarrow> bool" where
  "answers_deletion E g i p node ev w \<longleftrightarrow>
     (\<exists>recoverable trashed_as info err. ev = (\<lambda>q. Ev_Deleted q i p recoverable trashed_as info err)
       \<and> deletion_told E g p node recoverable trashed_as info err w)"

lemma answers_deletionI:
  "deletion_told E g p node r t f e w \<Longrightarrow> answers_deletion E g i p node (\<lambda>q. Ev_Deleted q i p r t f e) w"
  by (auto simp: answers_deletion_def)

lemma answer_delete_run:
  fixes w :: "conn world"
  assumes w: "at_rest w p c d" "text_names (w_env w) p" "clean (trash_root (w_env w))"
    and out: "butlast (path_key (e_cwd (w_env w)) p) \<noteq> path_key (e_cwd (w_env w)) (trash_root (w_env w)) @ [''info'']"
    and run: "answer_delete i p w = (Ok ev, w1)"
  shows "answers_deletion (w_env w) (map_of (w_fs w)) i p (File c d) ev w1"
proof -
  let ?E = "w_env w" and ?g = "map_of (w_fs w)" and ?s = "path_key (e_cwd (w_env w)) p"
  let ?root = "trash_root ?E"
  let ?files = "path_key (e_cwd ?E) ?root @ [''files'']"
  let ?S = "insert ?s {?files @ [x] | x. True}"
  from w have E: "calm ?E" "plain_medium ?E" "quiet ?E UNIV" and p: "clean p" "p \<noteq> []" and g: "?g ?s = Some (File c d)"
    by (simp_all add: at_rest_def)
  from w(2) obtain m where m: "file_name p = Some m" "valid_utf8 m" by (auto simp: text_names_def)
  note keeps_or_moves = triple_trash_in[where g = ?g and s = ?s and S = ?S and E = ?E and root = ?root,
      OF refl _ g m refl refl out]
  have qS: "quiet ?E ?S" by (rule quiet_mono[OF E(3)]) simp
  obtain tr w2 where tr: "trash p w = (tr, w2)" by fastforce
  note tr' = tr[unfolded trash_run]
  show ?thesis
  proof (cases tr)
    case (Ok out)
    note t = returnsD[OF returns_trash_in[OF E(1,2) w(3) p m refl, where g = ?g, OF g] view_start[OF E(3)] tr'[unfolded Ok]]
    show ?thesis
    proof (cases out)
      case (Trashed dest info)
      with run tr Ok t show ?thesis
        by (auto simp: answer_delete_def io_match_def ret_def intro!: answers_deletionI deletion_told_trashed)
    next
      case Permanent
      with t have v: "view ?E UNIV ?g w2" by simp
      obtain dr w3 where dr: "delete_permanently p w2 = (dr, w3)" by fastforce
      note del = tripleD[OF triple_delete_permanently[where E = ?E and S = UNIV and g = ?g, OF refl UNIV_I g] v]
      from run tr Ok Permanent dr show ?thesis
        using del(1,2)[of _ w3] g by (cases dr)
          (auto simp: answer_delete_def io_match_def io_bind_def get_env_def ret_def deletion_told_def dest: view_UNIV
            intro!: answers_deletionI)
    qed
  next
    case (Err e)
    have "map_of (w_fs w2) ?s = Some (File c d)"
      using tripleD(2)[OF keeps_or_moves view_start[OF qS] tr'[unfolded Err]] g by (auto simp: view_def)
    with run tr Err show ?thesis
      by (auto simp: answer_delete_def io_match_def io_bind_def get_env_def ret_def deletion_told_def
          intro!: answers_deletionI)
  qed (use run tr in \<open>simp add: answer_delete_def io_match_def\<close>)
qed

section \<open>Properties\<close>

text \<open>
  C10. The answer to a deletion is true. For a regular file whose name is text, on a machine that refuses
  no call: when the daemon answers that the file can be recovered it stands, with its bytes, under
  the name in the trash that the answer gives, beside its record, and nowhere else; when it answers
  that it is gone for good exactly that file is gone; when it answers with an error the file is
  where it was. The answer carries the request's id and path.
\<close>

theorem delete_tells_the_truth:
  fixes w :: "conn world"
  assumes "at_rest w p c d" "text_names (w_env w) p" "clean (trash_root (w_env w))"
    and "butlast (path_key (e_cwd (w_env w)) p) \<noteq> path_key (e_cwd (w_env w)) (trash_root (w_env w)) @ [''info'']"
    and "answer_delete i p w = (Ok ev, w1)"
  shows "answers_deletion (w_env w) (map_of (w_fs w)) i p (File c d) ev w1"
  by (rule answer_delete_run[OF assms])

text \<open>
  C11. Undo works over the wire. When the daemon has answered a deletion as recoverable, a restore request
  with exactly the two texts of that answer, if it is answered with a path, is answered with the
  absolute path of the deleted file, and the whole file system is what it was before the
  deletion, apart from directories made on the way.
\<close>

theorem delete_can_be_undone:
  fixes w :: "conn world"
  assumes "at_rest w p c d" "text_names (w_env w) p" "clean (trash_root (w_env w))" "valid_utf8 (trash_root (w_env w))"
    and "butlast (path_key (e_cwd (w_env w)) p) \<noteq> path_key (e_cwd (w_env w)) (trash_root (w_env w)) @ [''info'']"
    and "answer_delete i p w = (Ok ev, w1)" "ev q = Ev_Deleted q i p True (Some trashed_as) (Some info) None"
    and "answer_restore j trashed_as info w1 = (Ok back, w2)" "back q' = Ev_Restored q' j (Some at) err"
  shows "at = key_path (path_key (e_cwd (w_env w)) p) \<and> err = None \<and> grown (map_of (w_fs w)) (map_of (w_fs w2))"
proof -
  let ?E = "w_env w" and ?g = "map_of (w_fs w)" and ?s = "path_key (e_cwd (w_env w)) p"
  from answer_delete_run[OF assms(1-3,5,6)] assms(7) obtain dest rcd
    where d: "trashed_as = from_utf8_lossy dest" "info = from_utf8_lossy rcd"
      and t: "trashed ?E ?g (trash_root ?E) ?s (File c d) dest rcd w1"
    by (auto simp: answers_deletion_def deletion_told_def)
  from trashed_names[OF t assms(4)] d have names: "dest = trashed_as" "rcd = info" by (simp_all add: lossy_valid)
  from assms(1,2) have E: "calm ?E" "plain_medium ?E" and g: "?g ?s = Some (File c d)"
    and valid: "valid_utf8 (key_path ?s)" and cwd: "\<And>n. n \<in> set (e_cwd ?E) \<Longrightarrow> normal_name n"
    and s: "?s \<noteq> []"
    using key_of_file by (fastforce simp: at_rest_def text_names_def)+
  have normal: "normal_name n" if "n \<in> set ?s" for n by (rule path_key_normal[OF _ that]) (rule cwd)
  obtain rr w3 where rr: "restore trashed_as info w1 = (rr, w3)" by fastforce
  with assms(8,9) obtain x where x: "rr = Ok x" "w3 = w2" "at = from_utf8_lossy x" "err = None"
    by (cases rr) (auto simp: answer_restore_def io_match_def io_bind_def get_env_def ret_def)
  from returnsD[OF returns_restore[where s = ?s and g = ?g, OF E assms(3) normal s valid g] t[unfolded names] rr[unfolded x(1)]]
  show ?thesis using x valid by (simp add: lossy_valid)
qed

section \<open>Witnesses\<close>

text \<open>The concrete machine, with the user's data under \<open>/state\<close>.\<close>

definition lab_home :: "conn world" where
  "lab_home = lab_client\<lparr>w_env := lab_reading whole_read\<lparr>e_vars := (\<lambda>v. if v = ''XDG_DATA_HOME'' then Some ''/state'' else None)\<rparr>\<rparr>"

definition lab_deleted :: "(io_error, u64 \<Rightarrow> event) res \<times> conn world" where
  "lab_deleted = answer_delete 3 ''/src/a'' lab_home"

definition lab_undone :: "(io_error, u64 \<Rightarrow> event) res \<times> conn world" where
  "lab_undone = answer_restore 4 ''/state/Trash/files/a'' ''/state/Trash/info/a.trashinfo'' (snd lab_deleted)"

lemma lab_deleted_says:
  "case lab_deleted of (r, w) \<Rightarrow>
     (case r of Ok ev \<Rightarrow> ev 7 = Ev_Deleted 7 3 ''/src/a'' True (Some ''/state/Trash/files/a'') (Some ''/state/Trash/info/a.trashinfo'') None
      | _ \<Rightarrow> False)"
  by code_simp

lemma lab_undone_says:
  "case lab_undone of (r, w) \<Rightarrow> (case r of Ok ev \<Rightarrow> ev 8 = Ev_Restored 8 4 (Some ''/src/a'') None | _ \<Rightarrow> False)"
  by code_simp

lemma lab_home_facts:
  "at_rest lab_home ''/src/a'' ''hello'' True" "text_names (w_env lab_home) ''/src/a''"
  "trash_root (w_env lab_home) = ''/state/Trash''" "path_key [] ''/state/Trash'' = [''state'', ''Trash'']"
  "clean ''/state/Trash''" "valid_utf8 ''/state/Trash''" "e_cwd (w_env lab_home) = []" "w_fs lab_home = lab_fs"
proof -
  have "valid_utf8 ''a''" "valid_utf8 (key_path [''src'', ''a''])" by code_simp+
  then show "text_names (w_env lab_home) ''/src/a''" by (simp add: text_names_def lab_paths lab_home_def)
  show "at_rest lab_home ''/src/a'' ''hello'' True"
    by (simp add: at_rest_def calm_def quiet_def plain_medium_def whole_read_def clean_def lab_paths lab_files
        lab_home_def lab_client_def)
  show "trash_root (w_env lab_home) = ''/state/Trash''" "path_key [] ''/state/Trash'' = [''state'', ''Trash'']"
    "valid_utf8 ''/state/Trash''" by code_simp+
qed (simp_all add: clean_def lab_home_def lab_client_def)

lemma delete_tells_the_truth_witness:
  "map_of (w_fs (snd lab_deleted)) [''src'', ''a''] = None
   \<and> (\<exists>dest. from_utf8_lossy dest = ''/state/Trash/files/a''
        \<and> map_of (w_fs (snd lab_deleted)) (path_key [] dest) = Some (File ''hello'' True))"
proof -
  obtain r w where rw: "lab_deleted = (r, w)" by fastforce
  from lab_deleted_says[unfolded rw prod.case] obtain ev where r: "r = Ok ev"
    and ev: "ev 7 = Ev_Deleted 7 3 ''/src/a'' True (Some ''/state/Trash/files/a'') (Some ''/state/Trash/info/a.trashinfo'') None"
    by (cases r) simp_all
  have "answer_delete 3 ''/src/a'' lab_home = (Ok ev :: (io_error, u64 \<Rightarrow> event) res, w)" using rw r by (simp add: lab_deleted_def)
  from delete_tells_the_truth[OF lab_home_facts(1,2) _ _ this] ev obtain dest rcd
    where d: "''/state/Trash/files/a'' = from_utf8_lossy dest"
      and t: "trashed (w_env lab_home) (map_of lab_fs) ''/state/Trash'' [''src'', ''a''] (File ''hello'' True) dest rcd w"
    by (auto simp: lab_home_facts lab_paths answers_deletion_def deletion_told_def)
  from trashed_gone[OF t] d show ?thesis
    by (auto simp: lab_home_facts lab_files rw intro!: exI[of _ dest])
qed

lemma delete_can_be_undone_witness: "map_of (w_fs (snd lab_undone)) [''src'', ''a''] = Some (File ''hello'' True)"
proof -
  obtain r w where rw: "lab_deleted = (r, w)" by fastforce
  from lab_deleted_says[unfolded rw prod.case] obtain ev where r: "r = Ok ev"
    and ev: "ev 7 = Ev_Deleted 7 3 ''/src/a'' True (Some ''/state/Trash/files/a'') (Some ''/state/Trash/info/a.trashinfo'') None"
    by (cases r) simp_all
  obtain r2 w2 where rw2: "lab_undone = (r2, w2)" by fastforce
  from lab_undone_says[unfolded rw2 prod.case] obtain ev2 where r2: "r2 = Ok ev2"
    and ev2: "ev2 8 = Ev_Restored 8 4 (Some ''/src/a'') None"
    by (cases r2) simp_all
  have run: "answer_delete 3 ''/src/a'' lab_home = (Ok ev :: (io_error, u64 \<Rightarrow> event) res, w)" using rw r by (simp add: lab_deleted_def)
  have run2: "answer_restore 4 ''/state/Trash/files/a'' ''/state/Trash/info/a.trashinfo'' w = (Ok ev2 :: (io_error, u64 \<Rightarrow> event) res, w2)"
    using rw2 r2 by (simp add: lab_undone_def rw)
  have "grown (map_of lab_fs) (map_of (w_fs w2))"
    using delete_can_be_undone[OF lab_home_facts(1,2) _ _ _ run ev run2 ev2] by (simp add: lab_home_facts lab_paths)
  from grown_some[OF this, of "[''src'', ''a'']"] show ?thesis by (simp add: lab_files rw2)
qed

end
