(* ===== verification/Restoring.thy ===== *)
theory Restoring
  imports Trashing
begin

text \<open>
  Trash and restore of any entry: a file, a socket, or a directory with all that is under it. The
  file system of theory \<open>World\<close> is a map of keys, so what a \<open>rename\<close> of a directory carries along are all
  keys that its key is a prefix of.
\<close>

section \<open>Trees\<close>

text \<open>Whatever exists stands in a directory.\<close>

definition tidy :: "(key \<Rightarrow> node option) \<Rightarrow> bool" where
  "tidy g \<longleftrightarrow> (\<forall>k x. g (k @ [x]) \<noteq> None \<longrightarrow> g k = Some Dir)"

lemma tidy_below:
  assumes "tidy g" "g k \<noteq> None" "prefix a k" "k \<noteq> a"
  shows "g a = Some Dir"
proof -
  from assms(3,4) obtain r where "k = a @ r" "r \<noteq> []" by (auto simp: prefix_def)
  then show ?thesis using assms(2)
  proof (induction r arbitrary: k rule: rev_induct)
    case (snoc x r)
    then have "g (a @ r) = Some Dir" using assms(1) unfolding tidy_def by (metis append_assoc)
    with snoc.IH[of "a @ r"] show ?case by (cases "r = []") auto
  qed simp
qed

text \<open>Everything at and under \<open>a\<close> goes to \<open>b\<close>.\<close>

definition carried :: "key \<Rightarrow> key \<Rightarrow> (key \<Rightarrow> node option) \<Rightarrow> (key \<Rightarrow> node option)" where
  "carried a b g = (\<lambda>k. if prefix b k then g (a @ drop (length b) k) else if prefix a k then None else g k)"

lemma carried_at [simp]: "carried a b g (b @ r) = g (a @ r)"
  by (simp add: carried_def)

lemma carried_else: "\<not> prefix b k \<Longrightarrow> carried a b g k = (if prefix a k then None else g k)"
  by (simp add: carried_def)

lemma carried_one:
  assumes "g a = Some n" "\<And>k. prefix a k \<Longrightarrow> k \<noteq> a \<Longrightarrow> g k = None" "\<And>k. prefix b k \<Longrightarrow> g k = None"
  shows "g(a := None, b \<mapsto> n) = carried a b g"
proof
  fix k
  have ab: "\<not> prefix b a" using assms(1,3) by auto
  show "(g(a := None, b \<mapsto> n)) k = carried a b g k"
  proof (cases "prefix b k")
    case True
    then obtain r where r: "k = b @ r" by (auto simp: prefix_def)
    then have "k \<noteq> a" using ab by auto
    with r show ?thesis using assms(1,3) assms(2)[of "a @ r"] carried_at[of a b g r] by (cases "r = []") simp_all
  next
    case False
    then show ?thesis using assms(2)[of k] by (auto simp: carried_else)
  qed
qed

lemma triple_rename_entry:
  assumes k: "path_key (e_cwd E) p = a" "path_key (e_cwd E) q = b" and g: "g a = Some n"
    and alone: "\<And>k. n \<noteq> Dir \<Longrightarrow> prefix a k \<Longrightarrow> k \<noteq> a \<Longrightarrow> g k = None" and free: "\<And>k. prefix b k \<Longrightarrow> g k = None"
    and "\<not> prefix a b"
  shows "triple (view E UNIV g) (rename p q) (\<lambda>_. view E UNIV (carried a b g)) (\<lambda>_. view E UNIV g) (view E UNIV g)"
  unfolding rename_def
proof (rule triple_sys)
  fix t and w :: "'a world"
  assume v: "view E UNIV g w"
  then have w: "map_of (w_fs w) = g" by (rule view_UNIV)
  have one: "view E UNIV (carried a b g) (w\<lparr>w_fs := AList.update b n (AList.delete a (w_fs w))\<rparr>)" if "n \<noteq> Dir"
  proof -
    have "carried a b g = g(a := None, b \<mapsto> n)"
      by (rule carried_one[symmetric]) (use g alone[OF that] free in auto)
    then show ?thesis using v w by (auto simp: view_def)
  qed
  have "map_of (fs_move_tree a b (w_fs w)) = carried a b g"
    by (rule ext) (simp add: map_of_move_tree w carried_def)
  then have tree: "view E UNIV (carried a b g) (w\<lparr>w_fs := fs_move_tree a b (w_fs w)\<rparr>)" using v by (simp add: view_def)
  have "g b = None" using free[of b] by simp
  then have "case fs_rename E a b (w_fs w) of Inl e \<Rightarrow> True
      | Inr f \<Rightarrow> f = (if n = Dir then fs_move_tree a b (w_fs w) else AList.update b n (AList.delete a (w_fs w)))"
    using g assms(6) by (cases n) (auto simp: fs_rename_def w split: sum.split)
  then show "case at_path p E (\<lambda>a. at_path q E (\<lambda>b.
      case fs_rename E a b (w_fs w) of Inl e \<Rightarrow> Inl e | Inr f' \<Rightarrow> Inr ((), f'))) of
      Inl e \<Rightarrow> view E UNIV g w | Inr (x, f') \<Rightarrow> view E UNIV (carried a b g) (w\<lparr>w_fs := f'\<rparr>)"
    using v one tree by (auto simp: at_path_def k split: sum.splits if_splits)
qed auto

section \<open>Into the trash\<close>

text \<open>Where an entry goes: a key of the trash at which, and under which, there is nothing.\<close>

lemma nothing_under_free:
  assumes "tidy g" "made_for R g h" "h (R @ [''files'', m]) = None" "prefix (R @ [''files'', m]) k"
  shows "h k = None"
proof (rule ccontr)
  assume some: "h k \<noteq> None"
  then have "k \<noteq> R @ [''files'', m]" using assms(3) by auto
  have "length k \<ge> length R + 2" using prefix_length_le[OF assms(4)] by simp
  then have "\<not> prefix k (R @ [''files''])" "\<not> prefix k (R @ [''info''])" by (auto dest: prefix_length_le)
  then have "g k = h k" using assms(2) unfolding made_for_def by metis
  with some have "g (R @ [''files'', m]) = Some Dir"
    using tidy_below[OF assms(1) _ assms(4)] \<open>k \<noteq> _\<close> by auto
  then show False using assms(2,3) grown_some[of g h] by (auto simp: made_for_def)
qed

text \<open>An entry, whatever it is, that does not hold the trash itself.\<close>

definition outside :: "key \<Rightarrow> key \<Rightarrow> bool" where
  "outside s R \<longleftrightarrow> \<not> prefix s (R @ [''files'']) \<and> \<not> prefix s (R @ [''info''])"

lemma outside_keys:
  assumes "outside s R"
  shows "s \<noteq> R @ [''files'', m] \<Longrightarrow> \<not> prefix s (R @ [''files'', m])"
    "s \<noteq> R @ [''info'', x] \<Longrightarrow> \<not> prefix s (R @ [''info'', x])"
  using assms prefix_snoc[of s "R @ [''files'']" m] prefix_snoc[of s "R @ [''info'']" x]
  by (simp_all add: outside_def)

lemma nothing_under_file:
  assumes "tidy g" "made_for R g h" "outside s R" "g s = Some n" "n \<noteq> Dir" "prefix s k" "k \<noteq> s"
  shows "h k = None"
proof (rule ccontr)
  assume "h k \<noteq> None"
  moreover have "g k = None"
  proof (rule ccontr)
    assume "g k \<noteq> None"
    from tidy_below[OF assms(1) this assms(6,7)] assms(4,5) show False by simp
  qed
  ultimately have "prefix k (R @ [''files'']) \<or> prefix k (R @ [''info''])"
    using assms(2) unfolding made_for_def by metis
  then show False using assms(3,6) prefix_order.trans unfolding outside_def by blast
qed

lemma trash_moves_entry:
  assumes g: "tidy g" "g s = Some n" "outside s R" and h: "made_for R g h"
    and none: "h (R @ [''files'', m]) = None" "h (R @ [''info'', i]) = None"
    and k: "path_key (e_cwd E) p = s" "path_key (e_cwd E) q = R @ [''files'', m]"
  shows "returns (view E UNIV (h(R @ [''info'', i] \<mapsto> r)) :: 's world \<Rightarrow> bool) (rename p q)
    (\<lambda>_. view E UNIV (carried s (R @ [''files'', m]) (h(R @ [''info'', i] \<mapsto> r))))"
proof (rule returns_triple[OF triple_rename_entry[OF k]])
  have hs: "h s = Some n" using grown_some[of g h] h g(2) by (simp add: made_for_def)
  then have ne: "s \<noteq> R @ [''files'', m]" "s \<noteq> R @ [''info'', i]" using none by auto
  then have "\<not> prefix s (R @ [''info'', i])" "\<not> prefix s (R @ [''files'', m])"
    using outside_keys[OF g(3)] by blast+
  moreover have "\<not> prefix (R @ [''files'', m]) (R @ [''info'', i])" by simp
  ultimately show "\<not> prefix s (R @ [''files'', m])" "(h(R @ [''info'', i] \<mapsto> r)) s = Some n"
    "prefix (R @ [''files'', m]) k \<Longrightarrow> (h(R @ [''info'', i] \<mapsto> r)) k = None"
    "n \<noteq> Dir \<Longrightarrow> prefix s k \<Longrightarrow> k \<noteq> s \<Longrightarrow> (h(R @ [''info'', i] \<mapsto> r)) k = None" for k
    using hs ne nothing_under_free[OF g(1) h none(1)] nothing_under_file[OF g(1) h g(3,2)] by auto
qed

section \<open>And back\<close>

text \<open>What an entry's way into the trash and back leaves of a file system.\<close>

lemma there_and_back:
  fixes g :: "key \<Rightarrow> node option"
  assumes g: "tidy g" "g s = Some n" "outside s R" and h: "made_for R g h"
    and f: "f = R @ [''files'', m]" "h f = None" and i: "i = R @ [''info'', x]" "h i = None"
    and G: "G = carried s f (h(i \<mapsto> r))" and h2: "grown_to (butlast s) G h2" and s: "s \<noteq> []"
  shows "h2 f = Some n" "n \<noteq> Dir \<Longrightarrow> prefix f k \<Longrightarrow> k \<noteq> f \<Longrightarrow> h2 k = None" "prefix s k \<Longrightarrow> h2 k = None"
    "\<not> prefix f s" "carried f s h2 i = Some r" "grown g ((carried f s h2)(i := None))"
    "G i = Some r" "prefix s y \<Longrightarrow> G y = None" "g (s @ y) \<noteq> None \<Longrightarrow> G (f @ y) = g (s @ y)"
proof -
  have hs: "h s = Some n" using grown_some[of g h] h g(2) by (simp add: made_for_def)
  then have ne: "s \<noteq> f" "s \<noteq> i" using f i by auto
  then have sf: "\<not> prefix s f" and si: "\<not> prefix s i" unfolding f(1) i(1) using outside_keys[OF g(3)] by blast+
  have under_f: "h k = None" if "prefix f k" for k
    using nothing_under_free[OF g(1) h] f that by simp
  then show fs: "\<not> prefix f s" using hs by auto
  have fi: "\<not> prefix f i" by (simp add: f(1) i(1))
  have Gf: "G (f @ k) = h (s @ k)" for k using si by (simp add: G) (auto simp: prefix_def)
  show Gs: "G k = None" if "prefix s k" for k
  proof -
    have "\<not> prefix f k" using that sf fs prefix_same_cases by blast
    then show ?thesis using that by (simp add: G carried_else)
  qed
  show "G (f @ y) = g (s @ y)" if "g (s @ y) \<noteq> None"
    using that Gf[of y] grown_some[of g h "s @ y"] h by (auto simp: made_for_def)
  show Gi: "G i = Some r" using fi si by (simp add: G carried_else)
  have new: "h2 k = G k \<or> G k = None \<and> h2 k = Some Dir \<and> prefix k (butlast s)" for k
    using h2 unfolding grown_to_def by blast
  have not_f: "\<not> prefix k (butlast s)" if "prefix f k" for k
    using that fs prefix_order.trans prefixeq_butlast by blast
  have not_s: "\<not> prefix k (butlast s)" if "prefix s k" for k
    using that s by (cases s) (auto dest!: prefix_length_le)
  have h2f: "h2 (f @ k) = h (s @ k)" for k using new[of "f @ k"] not_f[of "f @ k"] Gf[of k] by auto
  from h2f[of "[]"] hs show "h2 f = Some n" by simp
  show h2s: "h2 k = None" if "prefix s k" for k using new[of k] not_s[OF that] Gs[OF that] by simp
  show "h2 k = None" if n: "n \<noteq> Dir" and k: "prefix f k" "k \<noteq> f"
  proof -
    obtain x where x: "k = f @ x" "x \<noteq> []" using k by (auto simp: prefix_def)
    then show ?thesis using h2f[of x] nothing_under_file[OF g(1) h g(3,2) n, of "s @ x"] by simp
  qed
  show "carried f s h2 i = Some r" using si fi new[of i] Gi by (simp add: carried_else)
  have gh: "h k = g k \<or> g k = None \<and> h k = Some Dir" for k using h unfolding made_for_def grown_def by blast
  show "grown g ((carried f s h2)(i := None))"
    unfolding grown_def
  proof
    fix k
    consider (i) "k = i" | (s) x where "k = s @ x" | (f) "k \<noteq> i" "\<not> prefix s k" "prefix f k"
      | (e) "k \<noteq> i" "\<not> prefix s k" "\<not> prefix f k" by (auto simp: prefix_def)
    then show "((carried f s h2)(i := None)) k = g k \<or> g k = None \<and> ((carried f s h2)(i := None)) k = Some Dir"
    proof cases
      case i
      then show ?thesis using gh[of i] \<open>h i = None\<close> by auto
    next
      case s
      then have "k \<noteq> i" using si by auto
      then show ?thesis using gh[of k] by (simp add: s h2f)
    next
      case f
      then show ?thesis using gh[of k] under_f[of k] by (auto simp: carried_else)
    next
      case e
      then have "G k = h k" by (simp add: G carried_else)
      with e show ?thesis using new[of k] gh[of k] by (auto simp: carried_else)
    qed
  qed
qed

lemma dirs_on_the_way:
  assumes g: "tidy g" "g s = Some n" and h: "made_for R g h" "h i = None"
    and G: "G = carried s f (h(i \<mapsto> r))" and s: "s \<noteq> []" "\<not> prefix f s" and k: "prefix k (butlast s)"
  shows "G k = Some Dir"
proof -
  have ks: "prefix k s" using k prefixeq_butlast prefix_order.trans by blast
  have sk: "\<not> prefix s k" using k s(1) by (cases s rule: rev_cases) (auto dest!: prefix_length_le)
  then have "k \<noteq> s" by auto
  then have "g k = Some Dir" using tidy_below[OF g(1) _ ks] g(2) by simp
  then have hk: "h k = Some Dir" using h(1) grown_some by (auto simp: made_for_def)
  moreover have "k \<noteq> i" using hk h(2) by auto
  moreover have "\<not> prefix f k" using s(2) ks prefix_order.trans by blast
  ultimately show ?thesis using sk by (simp add: G carried_else)
qed

section \<open>The way back cannot fail\<close>

text \<open>On a machine that refuses no call, a call whose preconditions hold succeeds, unless the process is killed.\<close>

definition surely :: "('s world \<Rightarrow> bool) \<Rightarrow> ('e, 'a, 's) io \<Rightarrow> ('a \<Rightarrow> 's world \<Rightarrow> bool) \<Rightarrow> bool" where
  "surely P m Q \<longleftrightarrow> triple P m Q (\<lambda>_ _. False) (\<lambda>_. True)"

lemma surely_bind: "surely P m R \<Longrightarrow> (\<And>a. surely (R a) (f a) Q) \<Longrightarrow> surely P (io_bind m f) Q"
  unfolding surely_def by (rule triple_bind)

lemma surely_try: "surely P m Q \<Longrightarrow> surely P (try_io m) Q"
  unfolding surely_def by (rule triple_map_err)

lemma surely_ret: "(\<And>w. P w \<Longrightarrow> Q a w) \<Longrightarrow> surely P (ret a) Q"
  unfolding surely_def by (rule triple_ret)

lemma surely_conj: "(p \<Longrightarrow> surely P m Q) \<Longrightarrow> surely (\<lambda>w. p \<and> P w) m Q"
  unfolding surely_def by (rule triple_conj)

lemma surelyD: "surely P m Q \<Longrightarrow> P w \<Longrightarrow> m w = (r, w') \<Longrightarrow> r = Killed \<or> (\<exists>a. r = Ok a \<and> Q a w')"
  unfolding surely_def by (cases r) (auto dest: tripleD)

lemma surely_sys:
  fixes Q :: "'a \<Rightarrow> 's world \<Rightarrow> bool"
  assumes "calm E" and op: "\<And>t w. view E UNIV g w \<Longrightarrow>
      (case op E t (w_fs w) of Inl e \<Rightarrow> False | Inr (a, f') \<Rightarrow> Q a (w\<lparr>w_fs := f'\<rparr>))"
  shows "surely (view E UNIV g) (sys op) Q"
  unfolding surely_def
proof (rule tripleI)
  fix w :: "'s world" and r w1
  assume v: "view E UNIV g w" and run: "sys op w = (r, w1)"
  let ?w = "w\<lparr>w_fs := e_other (w_env w) (w_tick w) (w_fs w), w_tick := Suc (w_tick w)\<rparr>"
  have v1: "view E UNIV g ?w" using v by (auto simp: view_def quiet_def)
  have E: "w_env w = E" using v by (simp add: view_def)
  show "case r of Ok a \<Rightarrow> Q a w1 | Err e \<Rightarrow> False | Killed \<Rightarrow> True"
    using run E assms(1) op[OF v1, of "w_tick w"]
    by (auto simp: sys_def Let_def calm_def split: if_splits sum.splits)
qed

lemma surely_read_back:
  assumes "calm E" "plain_medium E" "path_key (e_cwd E) p = k" "g k = Some (File b d)" "valid_utf8 b" "clean p" "p \<noteq> []"
  shows "surely (view E UNIV g) (read_to_string p) (\<lambda>s w. s = b \<and> view E UNIV g w)"
proof -
  have "surely (view E UNIV g) (fs_read p) (\<lambda>s w. s = b \<and> view E UNIV g w)"
    unfolding fs_read_def
    by (rule surely_sys[OF assms(1)]) (use assms in \<open>auto simp: at_path_def clean_def view_def plain_medium_def\<close>)
  then show ?thesis
    unfolding read_to_string_def by (rule surely_bind, intro surely_conj) (use assms(5) in \<open>simp add: surely_ret\<close>)
qed

lemma mkdirs_there: "(\<And>r. prefix r k \<Longrightarrow> map_of f (p @ r) = Some Dir) \<Longrightarrow> mkdirs p k f = Inr f"
proof (induction k arbitrary: p)
  case (Cons n k)
  have "map_of f (p @ [n]) = Some Dir" by (rule Cons.prems) simp
  moreover have "mkdirs (p @ [n]) k f = Inr f"
    by (rule Cons.IH) (use Cons.prems in force)
  ultimately show ?case by simp
qed simp

lemma surely_create_dir_all:
  assumes "calm E" "path_key (e_cwd E) p = k" "\<And>r. prefix r k \<Longrightarrow> g r = Some Dir" "clean p"
  shows "surely (view E UNIV g) (create_dir_all p) (\<lambda>_. view E UNIV g)"
proof (cases "p = []")
  case False
  have "mkdirs [] k f = Inr f" if "map_of f = g" for f
    by (rule mkdirs_there) (use assms(3) that in auto)
  then show ?thesis
    using False unfolding create_dir_all_def if_not_P[OF False]
    by (intro surely_sys[OF assms(1)]) (use assms in \<open>auto simp: at_path_def clean_def view_def fun_eq_iff\<close>)
qed (simp add: create_dir_all_def surely_ret)

lemma surely_rename_entry:
  assumes "calm E" and k: "path_key (e_cwd E) p = a" "path_key (e_cwd E) q = b" and g: "g a = Some n"
    and alone: "\<And>k. n \<noteq> Dir \<Longrightarrow> prefix a k \<Longrightarrow> k \<noteq> a \<Longrightarrow> g k = None" and free: "\<And>k. prefix b k \<Longrightarrow> g k = None"
    and ab: "\<not> prefix a b" and ne: "a \<noteq> []" "b \<noteq> []" and dir: "g (butlast b) = Some Dir"
    and dev: "e_dev E (butlast a) = e_dev E (butlast b)" and pq: "clean p" "p \<noteq> []" "clean q" "q \<noteq> []"
  shows "surely (view E UNIV g :: 's world \<Rightarrow> bool) (rename p q) (\<lambda>_. view E UNIV (carried a b g))"
proof -
  have "surely (view E UNIV g :: 's world \<Rightarrow> bool) (rename p q) (\<lambda>_ _. True)"
    unfolding rename_def
  proof (rule surely_sys[OF assms(1)])
    fix t and w :: "'s world"
    assume "view E UNIV g w"
    then have w: "map_of (w_fs w) = g" by (rule view_UNIV)
    have "g b = None" using free[of b] by simp
    then have "\<exists>f. fs_rename E a b (w_fs w) = Inr f"
      using g ab ne dir dev by (cases n) (auto simp: fs_rename_def w)
    then show "case at_path p E (\<lambda>a. at_path q E (\<lambda>b.
        case fs_rename E a b (w_fs w) of Inl e \<Rightarrow> Inl e | Inr f' \<Rightarrow> Inr ((), f'))) of
        Inl e \<Rightarrow> False | Inr (x, f') \<Rightarrow> True"
      using pq by (auto simp: at_path_def clean_def k)
  qed
  moreover note triple_rename_entry[where g = g and E = E, OF k g alone free ab]
  ultimately show ?thesis unfolding surely_def triple_def by (fastforce split: prod.splits res.splits)
qed

lemma surely_restore:
  assumes E: "calm E" "plain_medium E" and s: "\<And>n. n \<in> set s \<Longrightarrow> normal_name n" "s \<noteq> []"
    and valid: "valid_utf8 (key_path s)" "clean (key_path s)" and date: "plain_text date"
    and info: "path_key (e_cwd E) info = i" "clean info" "info \<noteq> []"
    and rec: "rec = trash_record (from_utf8_lossy (key_path s)) date" "G i = Some (File rec False)"
    and dirs: "\<And>k. prefix k (butlast s) \<Longrightarrow> G k = Some Dir"
    and home: "surely (view E UNIV G :: 's world \<Rightarrow> bool) (rename dest (key_path s)) (\<lambda>_. view E UNIV N)" and N: "N i = Some (File rec False)"
  shows "surely (view E UNIV G :: 's world \<Rightarrow> bool) (restore dest info) (\<lambda>q w. q = key_path s \<and> view E UNIV (N(i := None)) w)"
proof -
  let ?o = "key_path s"
  have orig: "recorded_path rec = Some ?o"
    by (simp add: recorded_path_record[OF date] lossy_valid[OF valid(1)] rec(1))
  have o: "path_key (e_cwd E) ?o = s" by (rule key_path_key[OF s(2,1)])
  obtain dir where dir: "parent ?o = Some dir" "path_key (e_cwd E) ?o = path_key (e_cwd E) dir @ [last s]"
    by (rule path_key_parent[OF key_path_file[OF s(2,1)]])
  then have b: "path_key (e_cwd E) dir = butlast s" using o by (metis butlast_snoc)
  have clean_dir: "clean dir" using parent_no_nul[OF dir(1)] valid(2) by (simp add: clean_def)
  have "triple (view E UNIV N :: 's world \<Rightarrow> bool) (remove_file info) (\<lambda>_. view E UNIV (N(i := None))) (\<lambda>_ _. False) (\<lambda>_. True)"
    by (rule triple_remove_calm[where g = N, OF E(1) info(1) N info(3,2)])
  then have last: "surely (view E UNIV N :: 's world \<Rightarrow> bool) (io_discard (remove_file info) (ret ?o))
      (\<lambda>q w. q = ?o \<and> view E UNIV (N(i := None)) w)"
    unfolding surely_def by (rule triple_discard) (auto simp: triple_def ret_def)
  have mk: "surely (view E UNIV G :: 's world \<Rightarrow> bool) (try_io (create_dir_all dir)) (\<lambda>_. view E UNIV G)"
    by (intro surely_try surely_create_dir_all[where g = G, OF E(1) b dirs clean_dir])
  have rd: "surely (view E UNIV G :: 's world \<Rightarrow> bool) (try_io (read_to_string info)) (\<lambda>raw w. raw = rec \<and> view E UNIV G w)"
    by (intro surely_try surely_read_back[where g = G, OF E info(1) rec(2) _ info(2,3)]) (simp add: rec(1) record_valid[OF date])
  show ?thesis
    unfolding restore_def
  proof (rule surely_bind[OF rd], rule surely_conj)
    fix raw assume "raw = rec"
    then have raw: "recorded_path raw = Some ?o" by (simp add: orig)
    show "surely (view E UNIV G :: 's world \<Rightarrow> bool)
      (case recorded_path raw of None \<Rightarrow> fail (Io (Custom InvalidData ''trashinfo has no Path''))
       | Some original \<Rightarrow> io_bind (case parent original of Some d \<Rightarrow> try_io (create_dir_all d) | None \<Rightarrow> ret ())
           (\<lambda>_. io_bind (try_io (rename dest original)) (\<lambda>_. io_discard (remove_file info) (ret original))))
      (\<lambda>q w. q = ?o \<and> view E UNIV (N(i := None)) w)"
      unfolding raw option.case dir(1)
      by (rule surely_bind[OF mk], rule surely_bind[OF surely_try[OF home]], rule last)
  qed
qed

text \<open>A rename across devices does not return, so a trashing that does was on one device.\<close>

lemma rename_same_device:
  assumes "e_dev E (butlast a) \<noteq> e_dev E (butlast b)" "path_key (e_cwd E) p = a" "path_key (e_cwd E) q = b"
  shows "returns (view E UNIV g) (rename p q) (\<lambda>_ _. False)"
  unfolding returns_def rename_def
  by (rule triple_sys) (use assms in \<open>auto simp: at_path_def fs_rename_def split: sum.splits option.splits if_splits\<close>)

lemma returns_False: "returns P m (\<lambda>_ _. False) \<Longrightarrow> returns P m Q"
  unfolding returns_def by (erule triple_conseq) simp_all

lemma trashed_on_one_device:
  fixes w :: "'s world"
  assumes E: "calm (w_env w)" "quiet (w_env w) UNIV" "plain_medium (w_env w)" and root: "clean root"
    and p: "clean p" "p \<noteq> []" "file_name p = Some m" "valid_utf8 m"
    and s: "path_key (e_cwd (w_env w)) p = s" "map_of (w_fs w) s \<noteq> None"
    and run: "trash_in root p w = (Ok (Trashed dest info), w1)"
  shows "e_dev (w_env w) (butlast s) = e_dev (w_env w) (path_key (e_cwd (w_env w)) root @ [''files''])"
proof (rule ccontr)
  let ?E = "w_env w" and ?g = "map_of (w_fs w)" and ?R = "path_key (e_cwd (w_env w)) root"
  assume dev: "e_dev ?E (butlast s) \<noteq> e_dev ?E (?R @ [''files''])"
  have "trashed_by M ?E ?g root s dest info w1" for M
  proof -
    have "returns (view ?E UNIV ?g :: 's world \<Rightarrow> bool) (trash_in root p)
      (\<lambda>out w. case out of Permanent \<Rightarrow> view ?E UNIV ?g w | Trashed dest info \<Rightarrow> trashed_by M ?E ?g root s dest info w)"
      by (rule returns_trash_in_by[where g = ?g, OF E(1,3) root p s refl], rule returns_False, rule rename_same_device)
        (use dev s(1) in \<open>auto simp: butlast_append\<close>)
    from returnsD[OF this view_start[OF E(2)] run] show ?thesis by simp
  qed
  from this[of "\<lambda>f h k. None"] this[of "\<lambda>f h k. Some Dir"]
  have "map_of (w_fs w1) = (\<lambda>k. None)" "map_of (w_fs w1) = (\<lambda>k. Some Dir)"
    unfolding trashed_by_def by (blast dest: view_UNIV)+
  then show False by (simp add: fun_eq_iff)
qed

section \<open>Property\<close>

text \<open>An entry on a machine that refuses no call, lets nobody else write and keeps what is written.\<close>

definition entry_at_rest :: "'s world \<Rightarrow> path \<Rightarrow> node \<Rightarrow> bool" where
  "entry_at_rest w p n \<longleftrightarrow>
     calm (w_env w) \<and> quiet (w_env w) UNIV \<and> plain_medium (w_env w) \<and> tidy (map_of (w_fs w))
     \<and> p \<noteq> [] \<and> clean p \<and> clean (key_path (path_key (e_cwd (w_env w)) p)) \<and> map_of (w_fs w) (path_key (e_cwd (w_env w)) p) = Some n"

lemma entry_trashed:
  fixes w :: "'s world"
  assumes "entry_at_rest w p n" "file_name p = Some m" "valid_utf8 m" "clean root"
    and "path_key (e_cwd (w_env w)) p = s" "outside s (path_key (e_cwd (w_env w)) root)"
    and "trash_in root p w = (Ok (Trashed dest info), w1)"
  shows "trashed_by (carried s) (w_env w) (map_of (w_fs w)) root s dest info w1"
    and "e_dev (w_env w) (butlast s) = e_dev (w_env w) (path_key (e_cwd (w_env w)) root @ [''files''])"
proof -
  let ?E = "w_env w" and ?g = "map_of (w_fs w)" and ?R = "path_key (e_cwd (w_env w)) root"
  from assms(1,5) have E: "calm ?E" "plain_medium ?E" "quiet ?E UNIV" and p: "clean p" "p \<noteq> []" and g: "tidy ?g" "?g s = Some n"
    by (simp_all add: entry_at_rest_def)
  then have gs: "?g s \<noteq> None" by simp
  have "returns (view ?E UNIV ?g :: 's world \<Rightarrow> bool) (trash_in root p)
    (\<lambda>out w. case out of Permanent \<Rightarrow> view ?E UNIV ?g w | Trashed dest info \<Rightarrow> trashed_by (carried s) ?E ?g root s dest info w)"
    by (rule returns_trash_in_by[where g = ?g, OF E(1,2) assms(4) p assms(2,3,5) gs refl])
      (rule trash_moves_entry[OF g assms(6) _ _ _ assms(5)])
  from returnsD[OF this view_start[OF E(3)] assms(7)]
  show "trashed_by (carried s) ?E ?g root s dest info w1" by simp
  show "e_dev ?E (butlast s) = e_dev ?E (?R @ [''files''])"
    by (rule trashed_on_one_device[OF E(1,3,2) assms(4) p assms(2,3,5) gs assms(7)])
qed

text \<open>
  C26. Restoring undoes trashing. Take any entry whose path is text and that does not hold the trash
  itself (a file, or a directory with all that is under it), on a machine that refuses no call, lets
  nobody else write and keeps what is written. A trashing that says where it went has left nothing at
  or under the entry's path, and everything that was there at and under the path it says; a
  restore with exactly those two paths, unless the process is killed in it, succeeds, the path it returns names the
  entry's own place, and the whole file system, the entry and all that was under it, is what it was before the
  trashing, apart from directories that were made on the way.
\<close>

theorem restore_undoes_trash:
  fixes w :: "'s world"
  assumes "entry_at_rest w p n" "text_names (w_env w) p" "clean root"
    and "outside (path_key (e_cwd (w_env w)) p) (path_key (e_cwd (w_env w)) root)"
    and "trash_in root p w = (Ok (Trashed dest info), w1)" and "restore dest info w1 = (r, w2)"
  shows "(\<forall>k. map_of (w_fs w1) (path_key (e_cwd (w_env w)) p @ k) = None
      \<and> (map_of (w_fs w) (path_key (e_cwd (w_env w)) p @ k) \<noteq> None \<longrightarrow>
           map_of (w_fs w1) (path_key (e_cwd (w_env w)) dest @ k) = map_of (w_fs w) (path_key (e_cwd (w_env w)) p @ k)))
    \<and> (r = Killed \<or> (\<exists>q. r = Ok q
        \<and> path_key (e_cwd (w_env w)) q = path_key (e_cwd (w_env w)) p \<and> grown (map_of (w_fs w)) (map_of (w_fs w2))))"
proof -
  let ?E = "w_env w" and ?g = "map_of (w_fs w)" and ?s = "path_key (e_cwd (w_env w)) p" and ?R = "path_key (e_cwd (w_env w)) root"
  from assms(1) have E: "calm ?E" "plain_medium ?E" "quiet ?E UNIV" and p: "clean p" "p \<noteq> []" and g: "tidy ?g" "?g ?s = Some n"
    and clean: "clean (key_path ?s)"
    by (simp_all add: entry_at_rest_def)
  from assms(2) obtain m where m: "file_name p = Some m" "valid_utf8 m" and valid: "valid_utf8 (key_path ?s)"
    and cwd: "\<And>n. n \<in> set (e_cwd ?E) \<Longrightarrow> normal_name n"
    by (auto simp: text_names_def)
  have s: "?s \<noteq> []" using key_of_file[OF m(1)] by simp
  have normal: "normal_name n" if "n \<in> set ?s" for n by (rule path_key_normal[OF _ that]) (rule cwd)
  note trashed = entry_trashed[OF assms(1) m assms(3) refl assms(4,5)]
  from trashed(1) obtain h m' date where h: "made_for ?R ?g h" "plain_text date" "normal_name m'" "clean m'"
    and dest: "dest = path_join (path_join root ''files'') m'" and info: "info = path_join (path_join root ''info'') (m' @ ''.trashinfo'')"
    and none: "h (path_key (e_cwd ?E) dest) = None" "h (path_key (e_cwd ?E) info) = None"
    and v: "view ?E UNIV (carried ?s (path_key (e_cwd ?E) dest)
             (h(path_key (e_cwd ?E) info \<mapsto> File (trash_record (from_utf8_lossy (key_path ?s)) date) False))) w1"
    unfolding trashed_by_def by blast
  define f where f: "f = path_key (e_cwd ?E) dest"
  define i where i: "i = path_key (e_cwd ?E) info"
  define r' where r': "r' = File (trash_record (from_utf8_lossy (key_path ?s)) date) False"
  have key: "f = ?R @ [''files'', m']" "i = ?R @ [''info'', m' @ ''.trashinfo'']"
    using trash_keys[OF h(3)] unfolding f i dest info by blast+
  define G where G: "G = carried ?s f (h(i \<mapsto> r'))"
  note way = there_and_back[OF g assms(4) h(1) key(1) none(1)[folded f] key(2) none(2)[folded i] G grown_refl(2) s]
  have vG: "view ?E UNIV G w1" using v unfolding G f i r' .
  have ne: "m' \<noteq> []" using h(3) by (simp add: normal_name_def)
  have paths: "clean dest" "dest \<noteq> []" "clean info" "info \<noteq> []"
    using assms(3) h(4) ne by (auto simp: dest info clean_def path_join_not_Nil dest!: path_join_set)
  have dirs: "G k = Some Dir" if "prefix k (butlast ?s)" for k
    by (rule dirs_on_the_way[OF g h(1) none(2)[folded i] G s way(4) that])
  have o: "path_key (e_cwd ?E) (key_path ?s) = ?s" by (rule key_path_key[OF s normal])
  have home: "surely (view ?E UNIV G :: 's world \<Rightarrow> bool) (rename dest (key_path ?s)) (\<lambda>_. view ?E UNIV (carried f ?s G))"
  proof (rule surely_rename_entry[where g = G, OF E(1) f[symmetric] o way(1)])
    show "e_dev ?E (butlast f) = e_dev ?E (butlast ?s)"
      using trashed(2) by (simp add: key(1) butlast_append)
    show "clean (key_path ?s)" by (rule clean)
  qed (use way(2-4) s dirs key(1) paths in \<open>auto simp: key_path_def\<close>)
  have "surely (view ?E UNIV G :: 's world \<Rightarrow> bool) (restore dest info)
      (\<lambda>q w. q = key_path ?s \<and> view ?E UNIV ((carried f ?s G)(i := None)) w)"
    by (rule surely_restore[OF E(1,2) normal s valid clean h(2) i[symmetric] paths(3,4) refl _ dirs home])
      (use way(5,7) in \<open>simp_all add: r'\<close>)
  from surelyD[OF this vG assms(6)] view_UNIV way(6)
  have "r = Killed \<or> (\<exists>q. r = Ok q \<and> q = key_path ?s \<and> grown ?g (map_of (w_fs w2)))" by metis
  then show ?thesis
    using o way(8,9) unfolding view_UNIV[OF vG] f[symmetric] by (intro conjI allI impI) auto
qed

section \<open>Witness\<close>

text \<open>The directory of the concrete machine goes to the trash and comes back, with the file in it.\<close>

definition lab_tree_trashed :: "(transfer_error, disposal) res \<times> unit world" where
  "lab_tree_trashed = trash_in lab_trash ''/src'' (lab_world whole_read)"

definition lab_tree_restored :: "(transfer_error, path) res \<times> unit world" where
  "lab_tree_restored = restore ''/trash/files/src'' ''/trash/info/src.trashinfo'' (snd lab_tree_trashed)"

lemma lab_tree_out: "fst lab_tree_trashed = Ok (Trashed ''/trash/files/src'' ''/trash/info/src.trashinfo'')"
  by code_simp

lemma lab_tree_back: "fst lab_tree_restored = Ok ''/src''"
  by code_simp

lemma tidy_lab: "tidy (map_of lab_fs)"
  unfolding tidy_def
proof (intro allI impI)
  fix k x assume "map_of lab_fs (k @ [x]) \<noteq> None"
  then have "k @ [x] \<in> fst ` set lab_fs" by (simp add: map_of_eq_None_iff)
  then have "k \<in> butlast ` (fst ` set lab_fs)" by (metis butlast_snoc imageI)
  then show "map_of lab_fs k = Some Dir" by (auto simp: lab_fs_def)
qed

lemma restore_undoes_trash_witness:
  "map_of (w_fs (snd lab_tree_trashed)) [''src'', ''a''] = None
   \<and> map_of (w_fs (snd lab_tree_trashed)) [''trash'', ''files'', ''src'', ''a''] = Some (File ''hello'' True)
   \<and> map_of (w_fs (snd lab_tree_restored)) [''src'', ''a''] = Some (File ''hello'' True)"
proof -
  have keys: "path_key [] ''/src'' = [''src'']" "path_key [] ''/trash/files/src'' = [''trash'', ''files'', ''src'']"
    "path_key [] lab_trash = [''trash'']" "valid_utf8 ''src''" "valid_utf8 (key_path [''src''])" "clean (key_path [''src''])" "clean ''/src''" "file_name ''/src'' = Some ''src''"
    by (code_simp, code_simp, code_simp, code_simp, code_simp, simp add: clean_def key_path_def, simp add: clean_def, code_simp)
  have rest: "entry_at_rest (lab_world whole_read) ''/src'' Dir"
    by (simp add: entry_at_rest_def lab_calm quiet_def plain_medium_def whole_read_def tidy_lab keys) (simp add: lab_fs_def)
  have 1: "trash_in lab_trash ''/src'' (lab_world whole_read) = (Ok (Trashed ''/trash/files/src'' ''/trash/info/src.trashinfo''), snd lab_tree_trashed)"
    using lab_tree_out by (simp add: lab_tree_trashed_def prod_eq_iff)
  have 2: "restore ''/trash/files/src'' ''/trash/info/src.trashinfo'' (snd lab_tree_trashed) = (Ok ''/src'', snd lab_tree_restored)"
    using lab_tree_back by (simp add: lab_tree_restored_def prod_eq_iff)
  have "map_of lab_fs ([''src''] @ [''a'']) = Some (File ''hello'' True)" by (simp add: lab_files)
  with restore_undoes_trash[OF rest _ lab_clean _ 1 2]
  show ?thesis
    using grown_some[of "map_of lab_fs" "map_of (w_fs (snd lab_tree_restored))" "[''src'', ''a'']"]
    by (auto simp: text_names_def outside_def keys)
qed

end
