(* ===== verification/Socket.thy ===== *)
theory Socket
  imports Logic Texts Scenario
begin

text \<open>
  Where the daemon listens (\<open>daemon/src/server.rs\<close>): the socket systemd passed, or a path it binds
  itself without evicting a daemon that serves there, and the accept loop. What the kernel says
  of a descriptor (\<open>getsockopt\<close>) is part of the process.
\<close>

section \<open>The default path\<close>

definition default_socket_path :: "env \<Rightarrow> path" where
  "default_socket_path E =
     path_join (case e_vars E ''XDG_RUNTIME_DIR'' of Some v \<Rightarrow> v | None \<Rightarrow> ''/tmp'') ''omafiled.sock''"

section \<open>Socket activation\<close>

datatype sock_option = SO_ACCEPTCONN | SO_DOMAIN | SO_TYPE

definition AF_UNIX :: int where
  "AF_UNIX = 1"

definition SOCK_STREAM :: int where
  "SOCK_STREAM = 1"

definition LISTEN_FDS_START :: int where
  "LISTEN_FDS_START = 3"

record process =
  pr_vars :: "string \<Rightarrow> string option"
  pr_id :: u32
  pr_sockopt :: "int \<Rightarrow> sock_option \<Rightarrow> int option"
  pr_cloexec :: "int set"

text \<open>The three refusals of \<open>activated_listener\<close>, each of kind \<open>InvalidInput\<close>.\<close>

datatype activation_error = Bad_count string | No_sockets | Not_listening

text \<open>\<open>std::env::var\<close>: absent, or not text, is an error.\<close>

definition env_var :: "process \<Rightarrow> string \<Rightarrow> string option" where
  "env_var P v = (case pr_vars P v of Some s \<Rightarrow> if valid_utf8 s then Some s else None | None \<Rightarrow> None)"

definition is_listening_stream_socket :: "process \<Rightarrow> int \<Rightarrow> bool" where
  "is_listening_stream_socket P fd \<longleftrightarrow>
     pr_sockopt P fd SO_ACCEPTCONN = Some 1 \<and> pr_sockopt P fd SO_DOMAIN = Some AF_UNIX
     \<and> pr_sockopt P fd SO_TYPE = Some SOCK_STREAM"

definition forget_claims :: "process \<Rightarrow> process" where
  "forget_claims P =
     P\<lparr>pr_vars := (pr_vars P)(''LISTEN_PID'' := None, ''LISTEN_FDS'' := None, ''LISTEN_FDNAMES'' := None)\<rparr>"

definition activated_listener :: "process \<Rightarrow> (activation_error + int option) \<times> process" where
  "activated_listener P =
     (case env_var P ''LISTEN_PID'' of
        None \<Rightarrow> (Inr None, P)
      | Some claimed \<Rightarrow>
          let count = (case env_var P ''LISTEN_FDS'' of Some c \<Rightarrow> c | None \<Rightarrow> []);
              P1 = forget_claims P
          in if parse_unsigned 32 claimed \<noteq> Some (unat (pr_id P)) then (Inr None, P1)
             else case parse_signed 32 count of
                    None \<Rightarrow> (Inl (Bad_count count), P1)
                  | Some n \<Rightarrow>
                      if n < 1 then (Inl No_sockets, P1)
                      else if \<not> is_listening_stream_socket P1 LISTEN_FDS_START then (Inl Not_listening, P1)
                      else (Inr (Some LISTEN_FDS_START),
                            P1\<lparr>pr_cloexec := insert LISTEN_FDS_START (pr_cloexec P1)\<rparr>))"

section \<open>Binding a path\<close>

text \<open>
  With no symbolic links, \<open>symlink_metadata\<close> is \<open>metadata\<close>. An address of a local socket holds 108 bytes, and the
  standard library refuses a path that does not leave one of them free, before the kernel sees it.
  (The empty path is refused too, where Linux would choose a name of its own.)
\<close>

definition SUN_PATH :: nat where
  "SUN_PATH = 108"

definition sock_address :: "path \<Rightarrow> env \<Rightarrow> (key \<Rightarrow> io_error + 'b) \<Rightarrow> io_error + 'b" where
  "sock_address p E h =
     (if CHR 0x00 \<in> set p then Inl (Custom InvalidInput ''paths must not contain interior null bytes'')
      else if SUN_PATH \<le> length p then Inl (Custom InvalidInput ''path must be shorter than SUN_LEN'')
      else at_path p E h)"

definition sock_connect :: "path \<Rightarrow> (io_error, unit, 's) io" where
  "sock_connect p = sys (\<lambda>E t f. sock_address p E (\<lambda>k.
     case map_of f k of
       None \<Rightarrow> Inl (Os NotFound) | Some (Sock True) \<Rightarrow> Inr ((), f) | Some n \<Rightarrow> Inl (Os ConnectionRefused)))"

definition sock_bind :: "path \<Rightarrow> (io_error, path, 's) io" where
  "sock_bind p = sys (\<lambda>E t f. sock_address p E (\<lambda>k.
     if map_of f k \<noteq> None then Inl (Os AddrInUse)
     else if k = [] \<or> map_of f (butlast k) \<noteq> Some Dir then Inl (Os NotFound)
     else Inr (p, AList.update k (Sock True) f)))"

definition bind_fresh :: "path \<Rightarrow> (io_error, path, 's) io" where
  "bind_fresh p =
     io_match (metadata p)
       (\<lambda>md. if \<not> md_is_socket md
             then fail (Custom AlreadyExists
                    (from_utf8_lossy p @ '' exists and is not a socket '' @ em_dash @ '' refusing to remove it''))
             else io_match (sock_connect p)
               (\<lambda>_. fail (Custom AddrInUse
                  (from_utf8_lossy p @ '' is already served by a running omafiled '' @ em_dash
                   @ '' refusing to take its clients'')))
               (\<lambda>e. if error_kind_of e = ConnectionRefused
                    then io_bind (remove_file p) (\<lambda>_. sock_bind p)
                    else io_bind get_env (\<lambda>E. fail (Custom (error_kind_of e)
                           (''cannot tell whether '' @ from_utf8_lossy p @ '' is still being served: ''
                            @ show_io_error E e)))))
       (\<lambda>e. if error_kind_of e = NotFound then sock_bind p else fail e)"

section \<open>Serving\<close>

datatype listener = Passed int | Bound path

datatype listen_error = Activation activation_error | Binding io_error

definition choose_listener :: "process \<Rightarrow> path \<Rightarrow> (listen_error, listener \<times> process, 's) io" where
  "choose_listener P p =
     (case activated_listener P of
        (Inl e, P1) \<Rightarrow> fail (Activation e)
      | (Inr (Some fd), P1) \<Rightarrow> ret (Passed fd, P1)
      | (Inr None, P1) \<Rightarrow> io_bind (map_err Binding (bind_fresh p)) (\<lambda>q. ret (Bound q, P1)))"

text \<open>The accept loop: one thread per connection, until an accept fails.\<close>

fun accept_loop :: "(io_error + 'c) list \<Rightarrow> 'c list \<times> (io_error + unit)" where
  "accept_loop [] = ([], Inr ())"
| "accept_loop (Inl e # cs) = ([], Inl e)"
| "accept_loop (Inr c # cs) = (let (handled, r) = accept_loop cs in (c # handled, r))"

section \<open>What binding does to the file system\<close>

lemma triple_sock_bind:
  assumes "path_key (e_cwd E) p = k" "k \<in> S"
  shows "triple (view E S g) (sock_bind p)
    (\<lambda>q w. (q = p \<and> g k = None) \<and> view E S (g(k \<mapsto> Sock True)) w) (\<lambda>_. view E S g) (view E S g)"
  unfolding sock_bind_def
  by (rule triple_sys)
    (use assms in \<open>auto simp: sock_address_def at_path_def view_update view_look split: sum.splits option.splits if_splits\<close>)

lemma triple_sock_connect:
  assumes k: "path_key (e_cwd E) p = k" "k \<in> S" and E: "calm E"
  shows "triple (view E S g) (sock_connect p) (\<lambda>_. view E S g)
    (\<lambda>e w. (error_kind_of e = ConnectionRefused \<longrightarrow> g k \<noteq> Some (Sock True)) \<and> view E S g w) (view E S g)"
proof (rule tripleI)
  fix w :: "'s world" and r :: "(io_error, unit) res" and w1
  assume v: "view E S g w" and run: "sock_connect p w = (r, w1)"
  let ?w = "w\<lparr>w_fs := e_other E (w_tick w) (w_fs w), w_tick := Suc (w_tick w)\<rparr>"
  have v1: "view E S g ?w" by (rule view_meddle[OF v])
  have v2: "view E S g (w\<lparr>w_tick := Suc (w_tick w), w_fs := e_other E (w_tick w) (w_fs w)\<rparr>)"
    using v1 by (simp add: view_def)
  have g: "map_of (e_other E (w_tick w) (w_fs w)) k = g k" using view_look[OF v1 k(2)] by simp
  have e: "w_env w = E" using v by (simp add: view_def)
  show "case r of Ok a \<Rightarrow> view E S g w1
    | Err e \<Rightarrow> (error_kind_of e = ConnectionRefused \<longrightarrow> g k \<noteq> Some (Sock True)) \<and> view E S g w1
    | Killed \<Rightarrow> view E S g w1"
    using run v v1 v2 g e E k(1)
    by (auto simp: sock_connect_def sys_def sock_address_def at_path_def Let_def calm_def
        split: if_splits option.splits sum.splits node.splits bool.splits)
qed

lemma triple_dev_socket:
  assumes "path_key (e_cwd E) p = k" "k \<in> S" and E: "calm E"
  shows "triple (view E S g) (metadata p)
    (\<lambda>m w. (md_is_socket m \<longleftrightarrow> (\<exists>b. g k = Some (Sock b))) \<and> view E S g w) (\<lambda>e. view E S g) (view E S g)"
proof -
  have "md_is_socket (node_meta E k n) \<longleftrightarrow> (\<exists>b. n = Sock b)" for n by (cases n) auto
  then show ?thesis
    by (intro triple_conseq[OF triple_metadata[OF assms(1,2)]]) auto
qed

text \<open>The path holds what the daemon may take: nothing, or the socket of one that is gone.\<close>

definition up_for_grabs :: "node option \<Rightarrow> bool" where
  "up_for_grabs n \<longleftrightarrow> n = None \<or> n = Some (Sock False)"

definition bound :: "(key \<Rightarrow> node option) \<Rightarrow> key \<Rightarrow> 's world \<Rightarrow> bool" where
  "bound g k w \<longleftrightarrow> up_for_grabs (g k) \<and> map_of (w_fs w) = g(k \<mapsto> Sock True)"

definition left_alone :: "(key \<Rightarrow> node option) \<Rightarrow> key \<Rightarrow> 's world \<Rightarrow> bool" where
  "left_alone g k w \<longleftrightarrow> map_of (w_fs w) = g \<or> g k = Some (Sock False) \<and> map_of (w_fs w) = g(k := None)"

lemma view_left_alone: "view E UNIV g w \<Longrightarrow> left_alone g k w"
  by (auto simp: left_alone_def view_def)

lemma triple_bind_fresh:
  assumes E: "calm E" "quiet E UNIV" and k: "path_key (e_cwd E) p = k"
  shows "triple (view E UNIV g) (bind_fresh p) (\<lambda>q. bound g k) (\<lambda>_. left_alone g k) (left_alone g k)"
proof -
  have fresh: "triple (view E UNIV h) (sock_bind p) (\<lambda>q. bound g k) (\<lambda>_. left_alone g k) (left_alone g k)"
    if "h = g \<or> g k = Some (Sock False) \<and> h = g(k := None)" for h
    by (rule triple_conseq[OF triple_sock_bind[OF k UNIV_I, where g = h]])
      (use that in \<open>auto simp: bound_def up_for_grabs_def left_alone_def view_def\<close>)
  have refuse: "triple (view E UNIV g) (fail e) (\<lambda>q. bound g k) (\<lambda>_. left_alone g k) (left_alone g k)" for e
    by (rule triple_fail) (rule view_left_alone)
  have env: "triple (view E UNIV g) (io_bind get_env (\<lambda>E. fail (h E)))
      (\<lambda>q. bound g k) (\<lambda>_. left_alone g k) (left_alone g k)" for h
    by (auto simp: triple_def io_bind_def io_match_def get_env_def fail_def intro: view_left_alone)
  have stale: "triple (view E UNIV g) (io_bind (remove_file p) (\<lambda>_. sock_bind p))
      (\<lambda>q. bound g k) (\<lambda>_. left_alone g k) (left_alone g k)" if "g k = Some (Sock False)"
  proof (rule triple_bind[where R = "\<lambda>_. view E UNIV (g(k := None))"])
    show "triple (view E UNIV g) (remove_file p) (\<lambda>_. view E UNIV (g(k := None))) (\<lambda>_. left_alone g k) (left_alone g k)"
      by (rule triple_conseq[OF triple_remove_file[OF k UNIV_I, where g = g]]) (auto intro: view_left_alone)
  qed (rule fresh, use that in auto)
  have meta: "triple (view E UNIV g) (metadata p)
      (\<lambda>m w. (md_is_socket m \<longleftrightarrow> (\<exists>b. g k = Some (Sock b))) \<and> view E UNIV g w) (\<lambda>e. view E UNIV g) (left_alone g k)"
    by (rule triple_conseq[OF triple_dev_socket[OF k UNIV_I E(1), where g = g]]) (auto intro: view_left_alone)
  have conn: "triple (view E UNIV g) (sock_connect p) (\<lambda>_. view E UNIV g)
      (\<lambda>e w. (error_kind_of e = ConnectionRefused \<longrightarrow> g k \<noteq> Some (Sock True)) \<and> view E UNIV g w) (left_alone g k)"
    by (rule triple_conseq[OF triple_sock_connect[OF k UNIV_I E(1), where g = g]]) (auto intro: view_left_alone)
  show ?thesis
    unfolding bind_fresh_def
  proof (rule triple_match[OF meta]; (rule triple_conj)?)
    fix m assume sock: "md_is_socket m \<longleftrightarrow> (\<exists>b. g k = Some (Sock b))"
    show "triple (view E UNIV g)
      (if \<not> md_is_socket m
       then fail (Custom AlreadyExists
              (from_utf8_lossy p @ '' exists and is not a socket '' @ em_dash @ '' refusing to remove it''))
       else io_match (sock_connect p)
             (\<lambda>_. fail (Custom AddrInUse
                (from_utf8_lossy p @ '' is already served by a running omafiled '' @ em_dash
                 @ '' refusing to take its clients'')))
             (\<lambda>e. if error_kind_of e = ConnectionRefused
                  then io_bind (remove_file p) (\<lambda>_. sock_bind p)
                  else io_bind get_env (\<lambda>E. fail (Custom (error_kind_of e)
                         (''cannot tell whether '' @ from_utf8_lossy p @ '' is still being served: ''
                          @ show_io_error E e)))))
      (\<lambda>q. bound g k) (\<lambda>_. left_alone g k) (left_alone g k)"
    proof (rule triple_if, rule refuse, rule triple_match[OF conn], rule refuse, rule triple_conj)
      fix e assume "\<not> \<not> md_is_socket m" and "error_kind_of e = ConnectionRefused \<longrightarrow> g k \<noteq> Some (Sock True)"
      with sock show "triple (view E UNIV g)
        (if error_kind_of e = ConnectionRefused
         then io_bind (remove_file p) (\<lambda>_. sock_bind p)
         else io_bind get_env (\<lambda>E. fail (Custom (error_kind_of e)
                (''cannot tell whether '' @ from_utf8_lossy p @ '' is still being served: ''
                 @ show_io_error E e))))
        (\<lambda>q. bound g k) (\<lambda>_. left_alone g k) (left_alone g k)"
        by (auto intro!: triple_if stale env)
    qed
  next
    fix e show "triple (view E UNIV g) (if error_kind_of e = NotFound then sock_bind p else fail e)
        (\<lambda>q. bound g k) (\<lambda>_. left_alone g k) (left_alone g k)"
      by (auto intro!: fresh refuse)
  qed
qed

section \<open>A daemon can start again\<close>

text \<open>A call that is neither refused nor cut off.\<close>

lemma sys_runs:
  assumes "calm E" "quiet E UNIV" "view E UNIV g w" "w_tick w < e_kill E"
  obtains f where "map_of f = g" "sys op w =
    (case op E (w_tick w) f of
       Inl e \<Rightarrow> (Err e, w\<lparr>w_fs := f, w_tick := Suc (w_tick w)\<rparr>)
     | Inr (a, f') \<Rightarrow> (Ok a, w\<lparr>w_fs := f', w_tick := Suc (w_tick w)\<rparr>))"
proof (rule that[of "e_other E (w_tick w) (w_fs w)"])
  show "map_of (e_other E (w_tick w) (w_fs w)) = g"
    using assms(2,3) by (auto simp: quiet_def view_def)
  show "sys op w =
    (case op E (w_tick w) (e_other E (w_tick w) (w_fs w)) of
       Inl e \<Rightarrow> (Err e, w\<lparr>w_fs := e_other E (w_tick w) (w_fs w), w_tick := Suc (w_tick w)\<rparr>)
     | Inr (a, f') \<Rightarrow> (Ok a, w\<lparr>w_fs := f', w_tick := Suc (w_tick w)\<rparr>))"
    using assms by (auto simp: sys_def Let_def calm_def view_def split: sum.split)
qed

text \<open>A path a socket can be bound to.\<close>

definition usable :: "path \<Rightarrow> bool" where
  "usable p \<longleftrightarrow> p \<noteq> [] \<and> CHR 0x00 \<notin> set p \<and> length p < 108"

lemma address_usable:
  "usable p \<Longrightarrow> at_path p E h = h (path_key (e_cwd E) p)"
  "usable p \<Longrightarrow> sock_address p E h = h (path_key (e_cwd E) p)"
  by (simp_all add: at_path_def sock_address_def usable_def SUN_PATH_def)

lemma bind_runs:
  assumes E: "calm E" "quiet E UNIV" and v: "view E UNIV g w" "w_tick w < e_kill E" and p: "usable p"
    and k: "path_key (e_cwd E) p = k" "k \<noteq> []" "g (butlast k) = Some Dir" and free: "g k = None"
  shows "\<exists>w'. sock_bind p w = (Ok p, w')"
proof (rule sys_runs[OF E v, where op = "\<lambda>E t f. sock_address p E (\<lambda>k.
     if map_of f k \<noteq> None then Inl (Os AddrInUse)
     else if k = [] \<or> map_of f (butlast k) \<noteq> Some Dir then Inl (Os NotFound)
     else Inr (p, AList.update k (Sock True) f))"])
qed (use assms in \<open>auto simp: sock_bind_def address_usable\<close>)

lemma bind_fresh_starts:
  assumes E: "calm E" "quiet E UNIV" and v: "view E UNIV g w" "w_tick w + 3 < e_kill E" and p: "usable p"
    and k: "path_key (e_cwd E) p = k" "k \<noteq> []" "g (butlast k) = Some Dir" and free: "up_for_grabs (g k)"
  shows "\<exists>w'. bind_fresh p w = (Ok p, w')"
proof -
  have tick: "w_tick w < e_kill E" using v(2) by simp
  have step: "view E UNIV h (w\<lparr>w_fs := f, w_tick := n\<rparr>)" if "map_of f = h" for h f n
    using v(1) that by (simp add: view_def)
  show ?thesis
  proof (cases "g k")
    case None
    obtain f where f: "map_of f = g" "metadata p w = (Err (Os NotFound), w\<lparr>w_fs := f, w_tick := Suc (w_tick w)\<rparr>)"
      by (rule sys_runs[OF E v(1) tick, of "\<lambda>E t f. at_path p E (\<lambda>k.
          case map_of f k of None \<Rightarrow> Inl (Os NotFound) | Some n \<Rightarrow> Inr (node_meta E k n, f))"])
        (use None k(1) in \<open>auto simp: metadata_def address_usable[OF p]\<close>)
    obtain w' where "sock_bind p (w\<lparr>w_fs := f, w_tick := Suc (w_tick w)\<rparr>) = (Ok p, w')"
      using bind_runs[OF E step[OF f(1)] _ p k None, of "Suc (w_tick w)"] v(2) by auto
    with f(2) show ?thesis by (simp add: bind_fresh_def io_match_def)
  next
    case (Some n)
    then have n: "n = Sock False" using free by (simp add: up_for_grabs_def)
    obtain f where f: "map_of f = g" "metadata p w = (Ok (node_meta E k n), w\<lparr>w_fs := f, w_tick := Suc (w_tick w)\<rparr>)"
      by (rule sys_runs[OF E v(1) tick, of "\<lambda>E t f. at_path p E (\<lambda>k.
          case map_of f k of None \<Rightarrow> Inl (Os NotFound) | Some n \<Rightarrow> Inr (node_meta E k n, f))"])
        (use Some k(1) in \<open>auto simp: metadata_def address_usable[OF p]\<close>)
    let ?w1 = "w\<lparr>w_fs := f, w_tick := Suc (w_tick w)\<rparr>"
    obtain f2 where f2: "map_of f2 = g"
      "sock_connect p ?w1 = (Err (Os ConnectionRefused), ?w1\<lparr>w_fs := f2, w_tick := Suc (w_tick ?w1)\<rparr>)"
      by (rule sys_runs[OF E step[OF f(1)], of "Suc (w_tick w)" "\<lambda>E t f. sock_address p E (\<lambda>k. case map_of f k of
         None \<Rightarrow> Inl (Os NotFound) | Some (Sock True) \<Rightarrow> Inr ((), f) | Some n \<Rightarrow> Inl (Os ConnectionRefused))"])
        (use v(2) Some n k(1) in \<open>auto simp: sock_connect_def address_usable[OF p]\<close>)
    let ?w2 = "w\<lparr>w_fs := f2, w_tick := Suc (Suc (w_tick w))\<rparr>"
    obtain f3 where f3: "map_of f3 = g"
      "remove_file p ?w2 = (Ok (), w\<lparr>w_fs := AList.delete k f3, w_tick := Suc (Suc (Suc (w_tick w)))\<rparr>)"
      by (rule sys_runs[OF E step[OF f2(1)], of "Suc (Suc (w_tick w))" "\<lambda>E t f. at_path p E (\<lambda>k.
         case map_of f k of None \<Rightarrow> Inl (Os NotFound) | Some Dir \<Rightarrow> Inl (Os IsADirectory)
         | Some _ \<Rightarrow> Inr ((), AList.delete k f))"])
        (use v(2) Some n k(1) in \<open>auto simp: remove_file_def address_usable[OF p]\<close>)
    have d: "map_of (AList.delete k f3) = g(k := None)" by (simp add: f3(1))
    have "butlast k \<noteq> k" using k(2) by (cases k rule: rev_cases) auto
    with bind_runs[OF E step[OF d] _ p k(1,2), of "Suc (Suc (Suc (w_tick w)))"] k(3) v(2)
    obtain w' where "sock_bind p (w\<lparr>w_fs := AList.delete k f3, w_tick := Suc (Suc (Suc (w_tick w)))\<rparr>) = (Ok p, w')"
      by auto
    with f(2) f2(2) f3(2) n show ?thesis by (simp add: bind_fresh_def io_match_def io_bind_def)
  qed
qed

section \<open>Properties\<close>

text \<open>
  C32. A daemon never evicts another. On a machine that refuses no call and with no other process
  writing meanwhile: \<open>bind_fresh\<close> takes a path only where nothing was or where the socket of a daemon
  that is gone was left, and changes no other key; when it refuses, or is killed, a live socket,
  a file or a directory at the path, and every other key, are what they were.
\<close>

theorem bind_never_evicts:
  assumes "calm (w_env w)" "quiet (w_env w) UNIV" and "bind_fresh p w = (r, w')"
  shows "case r of
      Ok q \<Rightarrow> bound (map_of (w_fs w)) (path_key (e_cwd (w_env w)) p) w'
    | _ \<Rightarrow> left_alone (map_of (w_fs w)) (path_key (e_cwd (w_env w)) p) w'"
  using tripleD[OF triple_bind_fresh[OF assms(1,2) refl, where g = "map_of (w_fs w)"] view_start[OF assms(2)]] assms(3)
  by (cases r) auto

text \<open>
  C33. A crash does not keep the daemon out. On a machine that refuses no call and with no other
  process writing meanwhile: where the path can be bound (not empty, no NUL, shorter than the 108 bytes of
  a socket's address), its directory exists and nothing lives at it but perhaps the socket of a
  daemon that is gone, a \<open>bind_fresh\<close> that is not killed within the four calls it makes at most succeeds:
  the path holds a socket that is served, and no other key changes.
\<close>

theorem daemon_starts_after_a_crash:
  assumes "calm (w_env w)" "quiet (w_env w) UNIV" "w_tick w + 3 < e_kill (w_env w)" "usable p"
    and "path_key (e_cwd (w_env w)) p = k" "k \<noteq> []" "map_of (w_fs w) (butlast k) = Some Dir"
    and "up_for_grabs (map_of (w_fs w) k)"
  shows "\<exists>w'. bind_fresh p w = (Ok p, w') \<and> map_of (w_fs w') = (map_of (w_fs w))(k \<mapsto> Sock True)"
proof -
  obtain w' where run: "bind_fresh p w = (Ok p, w')"
    using bind_fresh_starts[OF assms(1,2) view_start[OF assms(2)] assms(3-8)] by blast
  with tripleD[OF triple_bind_fresh[OF assms(1,2,5), where g = "map_of (w_fs w)"] view_start[OF assms(2)]]
  show ?thesis by (auto simp: bound_def)
qed

text \<open>What systemd says in the environment of a process it starts for a socket.\<close>

definition addressed :: "process \<Rightarrow> bool" where
  "addressed P \<longleftrightarrow> (\<exists>s. pr_vars P ''LISTEN_PID'' = Some s \<and> valid_utf8 s
     \<and> parse_unsigned 32 s = Some (unat (pr_id P)))"

definition passes_a_socket :: "process \<Rightarrow> bool" where
  "passes_a_socket P \<longleftrightarrow> (\<exists>s n. pr_vars P ''LISTEN_FDS'' = Some s \<and> valid_utf8 s
     \<and> parse_signed 32 s = Some n \<and> 1 \<le> n)"

definition a_listening_local_stream :: "process \<Rightarrow> int \<Rightarrow> bool" where
  "a_listening_local_stream P fd \<longleftrightarrow> map (pr_sockopt P fd) [SO_ACCEPTCONN, SO_DOMAIN, SO_TYPE] = [Some 1, Some 1, Some 1]"

definition claims :: "string set" where
  "claims = {''LISTEN_PID'', ''LISTEN_FDS'', ''LISTEN_FDNAMES''}"

lemma parse_signed_Nil: "parse_signed 32 [] = None"
  by code_simp

lemma activated_none:
  "env_var P ''LISTEN_PID'' = None \<Longrightarrow> activated_listener P = (Inr None, P) \<and> \<not> addressed P"
  by (auto simp: activated_listener_def addressed_def env_var_def split: option.splits if_splits)

lemma activated_some:
  assumes "env_var P ''LISTEN_PID'' = Some claimed" "activated_listener P = (r, P')"
  shows "addressed P \<longleftrightarrow> parse_unsigned 32 claimed = Some (unat (pr_id P))"
    and "P' = (forget_claims P)\<lparr>pr_cloexec := pr_cloexec P \<union> (if r = Inr (Some 3) then {3} else {})\<rparr>"
    and "r = (if \<not> addressed P then Inr None
       else if passes_a_socket P \<and> a_listening_local_stream P 3 then Inr (Some 3) else r)"
    and "addressed P \<Longrightarrow> r \<noteq> Inr None"
    and "r = Inr (Some fd) \<Longrightarrow> addressed P \<and> passes_a_socket P \<and> a_listening_local_stream P 3 \<and> fd = 3"
proof -
  show a: "addressed P \<longleftrightarrow> parse_unsigned 32 claimed = Some (unat (pr_id P))"
    using assms(1) by (auto simp: addressed_def env_var_def split: option.splits if_splits)
  have l: "is_listening_stream_socket (forget_claims P) 3 \<longleftrightarrow> a_listening_local_stream P 3"
    by (simp add: is_listening_stream_socket_def a_listening_local_stream_def forget_claims_def AF_UNIX_def SOCK_STREAM_def)
  let ?count = "case env_var P ''LISTEN_FDS'' of Some c \<Rightarrow> c | None \<Rightarrow> []"
  have n: "passes_a_socket P \<longleftrightarrow> (\<exists>n. parse_signed 32 ?count = Some n \<and> 1 \<le> n)"
    by (auto simp: passes_a_socket_def env_var_def parse_signed_Nil split: option.splits)
  have run: "activated_listener P =
    (if \<not> addressed P then (Inr None, forget_claims P)
     else case parse_signed 32 ?count of
            None \<Rightarrow> (Inl (Bad_count ?count), forget_claims P)
          | Some n \<Rightarrow>
              if n < 1 then (Inl No_sockets, forget_claims P)
              else if \<not> a_listening_local_stream P 3 then (Inl Not_listening, forget_claims P)
              else (Inr (Some 3), (forget_claims P)\<lparr>pr_cloexec := insert 3 (pr_cloexec (forget_claims P))\<rparr>))"
    using assms(1) unfolding activated_listener_def LISTEN_FDS_START_def by (simp add: a l[symmetric] Let_def)
  have c: "pr_cloexec (forget_claims P) = pr_cloexec P" "forget_claims P\<lparr>pr_cloexec := pr_cloexec P\<rparr> = forget_claims P"
    by (simp_all add: forget_claims_def)
  note facts = assms(2)[unfolded run] n c
  show "P' = (forget_claims P)\<lparr>pr_cloexec := pr_cloexec P \<union> (if r = Inr (Some 3) then {3} else {})\<rparr>"
    using facts by (cases "parse_signed 32 ?count") (auto split: if_splits)
  show "r = (if \<not> addressed P then Inr None
       else if passes_a_socket P \<and> a_listening_local_stream P 3 then Inr (Some 3) else r)"
    using facts by (cases "parse_signed 32 ?count") (auto split: if_splits)
  show "addressed P \<Longrightarrow> r \<noteq> Inr None"
    using facts by (cases "parse_signed 32 ?count") (auto split: if_splits)
  show "r = Inr (Some fd) \<Longrightarrow> addressed P \<and> passes_a_socket P \<and> a_listening_local_stream P 3 \<and> fd = 3"
    using facts by (cases "parse_signed 32 ?count") (auto split: if_splits)
qed

text \<open>
  C34. Only what systemd addressed to this process is served, and a claim addressed to it is never
  passed over. The daemon serves descriptor 3 exactly when \<open>LISTEN_PID\<close> is this process, \<open>LISTEN_FDS\<close> is a
  number of at least one and descriptor 3 is a listening local stream socket; it goes on to bind a
  path of its own exactly when the claim is for another process or there is none; so a claim for this
  process with nothing usable behind it is an error and never a silent fall back. Once a
  claim was read, none of the three variables is left for the processes the daemon starts, every other
  variable is, and descriptor 3 alone is marked close-on-exec, if it is served.
\<close>

theorem activation_is_addressed:
  assumes "activated_listener P = (r, P')"
  shows "(\<forall>fd. r = Inr (Some fd) \<longleftrightarrow>
        addressed P \<and> passes_a_socket P \<and> a_listening_local_stream P 3 \<and> fd = 3)
    \<and> (r = Inr None \<longleftrightarrow> \<not> addressed P)
    \<and> ((\<exists>e. r = Inl e) \<longleftrightarrow> addressed P \<and> \<not> (passes_a_socket P \<and> a_listening_local_stream P 3))
    \<and> pr_vars P' = (if env_var P ''LISTEN_PID'' = None then pr_vars P
        else (\<lambda>v. if v \<in> claims then None else pr_vars P v))
    \<and> pr_cloexec P' = pr_cloexec P \<union> (if r = Inr (Some 3) then {3} else {})
    \<and> pr_id P' = pr_id P \<and> pr_sockopt P' = pr_sockopt P"
proof (cases "env_var P ''LISTEN_PID''")
  case None
  from activated_none[OF this] assms None show ?thesis by simp
next
  case (Some claimed)
  note facts = activated_some[OF Some assms]
  have vars: "pr_vars P' = (\<lambda>v. if v \<in> claims then None else pr_vars P v)"
    unfolding facts(2) by (auto simp: forget_claims_def claims_def)
  have rest: "pr_cloexec P' = pr_cloexec P \<union> (if r = Inr (Some 3) then {3} else {})"
    "pr_id P' = pr_id P" "pr_sockopt P' = pr_sockopt P"
    by (simp_all add: facts(2)) (simp_all add: forget_claims_def)
  have served: "r = Inr (Some fd) \<longleftrightarrow> addressed P \<and> passes_a_socket P \<and> a_listening_local_stream P 3 \<and> fd = 3" for fd
    using facts(3) facts(5)[of fd] by auto
  have own: "r = Inr None \<longleftrightarrow> \<not> addressed P" using facts(3,4) by auto
  have "(\<exists>e. r = Inl e) \<longleftrightarrow> \<not> (\<exists>fd. r = Inr (Some fd)) \<and> r \<noteq> Inr None"
    by (cases r) (auto split: option.splits)
  with served own show ?thesis unfolding vars rest by (auto simp: Some)
qed

section \<open>Witnesses\<close>

definition stale_fs :: fs where
  "stale_fs = [([], Dir), ([''run''], Dir), ([''run'', ''omafiled.sock''], Sock False)]"

definition stale_world :: "unit world" where
  "stale_world = \<lparr>w_env = lab_reading whole_read, w_fs = stale_fs, w_tick = 0, w_cap = ()\<rparr>"

lemma stale_path: "path_key [] ''/run/omafiled.sock'' = [''run'', ''omafiled.sock'']"
  by code_simp

lemma stale_simps: "w_env stale_world = lab_reading whole_read" "w_fs stale_world = stale_fs" "w_tick stale_world = 0"
  by (simp_all add: stale_world_def)

lemma stale_starts: "\<exists>w'. bind_fresh ''/run/omafiled.sock'' stale_world = (Ok ''/run/omafiled.sock'', w')"
proof -
  have "fst (bind_fresh ''/run/omafiled.sock'' stale_world) = Ok ''/run/omafiled.sock''" by code_simp
  then show ?thesis by (intro exI[of _ "snd (bind_fresh ''/run/omafiled.sock'' stale_world)"]) (simp add: prod_eq_iff)
qed

lemma bind_never_evicts_witness:
  "\<exists>w'. bind_fresh ''/run/omafiled.sock'' stale_world = (Ok ''/run/omafiled.sock'', w')
     \<and> map_of (w_fs w') = (map_of stale_fs)([''run'', ''omafiled.sock''] \<mapsto> Sock True)"
proof -
  obtain w' where run: "bind_fresh ''/run/omafiled.sock'' stale_world = (Ok ''/run/omafiled.sock'', w')"
    using stale_starts by blast
  from bind_never_evicts[OF _ _ run] run show ?thesis
    by (auto simp: stale_simps lab_calm quiet_def stale_path bound_def)
qed

lemma daemon_starts_after_a_crash_witness:
  "\<exists>w'. bind_fresh ''/run/omafiled.sock'' stale_world = (Ok ''/run/omafiled.sock'', w')
     \<and> map_of (w_fs w') = (map_of (w_fs stale_world))([''run'', ''omafiled.sock''] \<mapsto> Sock True)"
  by (rule daemon_starts_after_a_crash)
    (simp_all add: stale_simps lab_calm quiet_def usable_def stale_path stale_fs_def up_for_grabs_def,
     simp add: lab_reading_def)

definition activated :: process where
  "activated = \<lparr>pr_vars = [''LISTEN_PID'' \<mapsto> ''42'', ''LISTEN_FDS'' \<mapsto> ''1''], pr_id = 42,
     pr_sockopt = \<lambda>fd opt. if opt = SO_ACCEPTCONN \<or> opt = SO_DOMAIN \<or> opt = SO_TYPE then Some 1 else None,
     pr_cloexec = {}\<rparr>"

lemma activation_is_addressed_witness:
  "\<exists>P'. activated_listener activated = (Inr (Some 3), P') \<and> pr_cloexec P' = {3} \<and> pr_vars P' ''LISTEN_PID'' = None"
proof -
  have "fst (activated_listener activated) = Inr (Some 3)" by code_simp
  then have run: "activated_listener activated = (Inr (Some 3), snd (activated_listener activated))"
    by (simp add: prod_eq_iff)
  have e: "env_var activated ''LISTEN_PID'' \<noteq> None" by code_simp
  have c: "''LISTEN_PID'' \<in> claims" by (simp add: claims_def)
  have "pr_cloexec activated = {}" by (simp add: activated_def)
  with activation_is_addressed[OF run] run e c show ?thesis by auto
qed

end
