(* ===== verification/Cli.thy ===== *)
theory Cli
  imports Transfers Captured Socket
begin

text \<open>
  \<open>daemon/src/main.rs\<close>: the command line. The captured state is what was printed. Serving (theory
  \<open>Socket\<close>) does not return while its listener lasts and is an argument here.
\<close>

section \<open>Definitions\<close>

datatype exit_code = SUCCESS | FAILURE

record printed =
  pr_out :: string
  pr_err :: string

definition print :: "string \<Rightarrow> ('e, unit, printed) io" where
  "print s = on_cap (\<lambda>c. c\<lparr>pr_out := pr_out c @ s\<rparr>)"

definition eprint :: "string \<Rightarrow> ('e, unit, printed) io" where
  "eprint s = on_cap (\<lambda>c. c\<lparr>pr_err := pr_err c @ s\<rparr>)"

definition line :: "string \<Rightarrow> string" where
  "line s = s @ [CHR 0x0A]"

definition USAGE :: string where
  "USAGE = concat (map line
     [''omafiled '' @ em_dash @ '' every file is committed by atomic rename, or not at all.'',
      '''',
      ''Usage:'',
      ''  omafiled copy <source> <destination> [--checksum]'',
      ''  omafiled move <source> <destination> [--checksum]'',
      ''  omafiled unfinished'',
      ''  omafiled serve [--socket <path>]'',
      ''               Serve the socket. Under systemd socket activation the listener'',
      ''               is inherited and --socket is not consulted; run by hand it binds'',
      ''               the path itself, and refuses rather than take a running daemon's'',
      ''               clients.'',
      '''',
      ''Options:'',
      ''  --replace    Commit over an existing destination. Without this, and without'',
      ''               --keep-both, an existing destination is left alone.'',
      ''  --keep-both  Land beside an existing destination under a free name.'',
      ''  --checksum   Read the committed file back and hash it against the source.'',
      ''               Off by default: measured at 2.5-2.7x wall-clock. The size check'',
      ''               is unconditional and free, and alone would have caught every'',
      ''               file in the incident this program exists to prevent.''])"

definition positional :: "string list \<Rightarrow> string list" where
  "positional args = filter (\<lambda>a. \<not> prefix ''--'' a) args"

definition cli_options :: "string list \<Rightarrow> options" where
  "cli_options args =
     \<lparr>opt_checksum = (''--checksum'' \<in> set args),
      opt_on_conflict = (if ''--replace'' \<in> set args then Replace
                         else if ''--keep-both'' \<in> set args then KeepBoth else Skip)\<rparr>"

fun arg_after :: "string \<Rightarrow> string list \<Rightarrow> string option" where
  "arg_after x [] = None"
| "arg_after x (a # as) = (if a = x then (case as of [] \<Rightarrow> None | b # _ \<Rightarrow> Some b) else arg_after x as)"

definition socket_arg :: "path \<Rightarrow> string list \<Rightarrow> path" where
  "socket_arg fallback args = (case arg_after ''--socket'' args of Some p \<Rightarrow> p | None \<Rightarrow> fallback)"

definition tell_outcome :: "outcome \<Rightarrow> ('e, unit, printed) io" where
  "tell_outcome out =
     (case out of
        Moved p \<Rightarrow> print (line (''Moved '' @ em_dash @ '' same filesystem, nothing was copied''))
      | SkippedExisting \<Rightarrow>
          print (line (''Skipped '' @ em_dash @ '' the destination already exists'')
            @ line (''  pass --replace to commit over it, or --keep-both to land beside it''))
      | Copied tier bytes replaced p \<Rightarrow>
          print (line (tier_label tier @ (if replaced then '' '' @ em_dash @ '' replaced an existing file'' else ''''))
            @ line (''  '' @ tier_detail tier bytes)))"

definition unfinished_line :: "entry \<Rightarrow> string" where
  "unfinished_line e =
     line (from_utf8_lossy (en_source e) @ '' '' @ arrow @ '' '' @ from_utf8_lossy (en_destination e)
       @ ''  resumable from '' @ show_nat (unat (en_bytes_done e)) @ '' of ''
       @ show_nat (unat (en_expected_size e)) @ '' bytes'')"

definition complain :: "string \<Rightarrow> ('e, exit_code, printed) io" where
  "complain s = io_bind (eprint (line (''omafiled: '' @ s))) (\<lambda>_. ret FAILURE)"

definition run_transfer :: "crates \<Rightarrow> journal \<Rightarrow> string \<Rightarrow> string list \<Rightarrow> options \<Rightarrow> ('e, exit_code, printed) io" where
  "run_transfer D J verb pos opts =
     (if length pos < 3 then complain (verb @ '' needs a source and a destination'')
      else io_match
             (if verb = ''copy'' then copy_file D J (pos ! 1) (pos ! 2) opts
              else move_file D J (pos ! 1) (pos ! 2) opts)
             (\<lambda>out. io_bind (tell_outcome out) (\<lambda>_. ret SUCCESS))
             (\<lambda>e. io_bind get_env (\<lambda>E. complain (show_transfer_error E e))))"

definition run_unfinished :: "crates \<Rightarrow> ('e, exit_code, printed) io" where
  "run_unfinished D =
     io_match (io_bind open_default (\<lambda>J. unfinished D J))
       (\<lambda>entries.
          if entries = [] then io_bind (print (line ''Nothing unfinished. (Completed transfers are not recorded.)''))
            (\<lambda>_. ret SUCCESS)
          else io_bind (print (concat (map unfinished_line entries))) (\<lambda>_. ret SUCCESS))
       (\<lambda>e. io_bind get_env (\<lambda>E. complain (show_io_error E e)))"

definition omafiled ::
  "crates \<Rightarrow> (path \<Rightarrow> (io_error, unit, printed) io) \<Rightarrow> string list \<Rightarrow> ('e, exit_code, printed) io" where
  "omafiled D serve args =
     (if args = [] \<or> hd args = ''-h'' \<or> hd args = ''--help''
      then io_bind (print USAGE) (\<lambda>_. ret SUCCESS)
      else io_match open_default
        (\<lambda>J. let opts = cli_options args; pos = positional args
             in case pos of
                  [] \<Rightarrow> io_bind (eprint USAGE) (\<lambda>_. ret FAILURE)
                | verb # _ \<Rightarrow>
                    if verb = ''serve''
                    then io_match (io_bind get_env (\<lambda>E. serve (socket_arg (default_socket_path E) args)))
                           (\<lambda>_. ret SUCCESS) (\<lambda>e. io_bind get_env (\<lambda>E. complain (show_io_error E e)))
                    else if verb = ''unfinished'' then run_unfinished D
                    else if verb = ''copy'' \<or> verb = ''move'' then run_transfer D J verb pos opts
                    else io_bind (eprint USAGE) (\<lambda>_. ret FAILURE))
        (\<lambda>e. io_bind get_env (\<lambda>E. complain (''cannot open the journal: '' @ show_io_error E e))))"

section \<open>Properties\<close>

text \<open>
  A command line that asks for a copy or a move: among its arguments, in this order, the verb, the two paths
  and whatever operands follow, with flags (arguments that start with two dashes) anywhere between.
\<close>

definition a_flag :: "string \<Rightarrow> bool" where
  "a_flag a \<longleftrightarrow> take 2 a = ''--''"

definition asks_to_transfer :: "string list \<Rightarrow> string \<Rightarrow> path \<Rightarrow> path \<Rightarrow> bool" where
  "asks_to_transfer args verb src dst \<longleftrightarrow>
     (verb = ''copy'' \<or> verb = ''move'') \<and> hd args \<noteq> ''-h'' \<and> hd args \<noteq> ''--help''
     \<and> (\<exists>rest flags. args \<in> shuffles (verb # src # dst # rest) flags
          \<and> (\<forall>a \<in> {verb, src, dst} \<union> set rest. \<not> a_flag a) \<and> (\<forall>a \<in> set flags. a_flag a))"

text \<open>What the user reads of an outcome.\<close>

fun report :: "outcome \<Rightarrow> string list" where
  "report (Moved p) = [''Moved '' @ em_dash @ '' same filesystem, nothing was copied'']"
| "report SkippedExisting =
     [''Skipped '' @ em_dash @ '' the destination already exists'',
      ''  pass --replace to commit over it, or --keep-both to land beside it'']"
| "report (Copied SharedExtents bytes replaced p) =
     [''Shared extents'' @ (if replaced then '' '' @ em_dash @ '' replaced an existing file'' else ''''),
      ''  same data as the source '' @ em_dash @ '' cannot diverge'']"
| "report (Copied Checksummed bytes replaced p) =
     [''Checksummed'' @ (if replaced then '' '' @ em_dash @ '' replaced an existing file'' else ''''),
      ''  bytes read back and matched the source'']"
| "report (Copied SizeChecked bytes replaced p) =
     [''Size checked'' @ (if replaced then '' '' @ em_dash @ '' replaced an existing file'' else ''''),
      ''  '' @ show_nat (unat bytes) @ '' bytes, exactly as expected'']"

definition told_user :: "string list \<Rightarrow> printed \<Rightarrow> printed" where
  "told_user ls c = \<lparr>pr_out = pr_out c @ concat (map line ls), pr_err = pr_err c\<rparr>"

definition warned_user :: "string list \<Rightarrow> printed \<Rightarrow> printed" where
  "warned_user ls c = \<lparr>pr_out = pr_out c, pr_err = pr_err c @ concat (map line ls)\<rparr>"

lemma a_flag_prefix: "prefix ''--'' a \<longleftrightarrow> a_flag a"
  by (cases a rule: list.exhaust; cases "tl a") (auto simp: a_flag_def)

lemma asks_positional:
  assumes "asks_to_transfer args verb src dst"
  obtains rest where "positional args = verb # src # dst # rest" "args \<noteq> []"
proof -
  obtain rest flags where args: "args \<in> shuffles (verb # src # dst # rest) flags"
    and ops: "\<forall>a \<in> set (verb # src # dst # rest). \<not> a_flag a" and fl: "\<forall>a \<in> set flags. a_flag a"
    using assms unfolding asks_to_transfer_def by auto
  let ?no = "\<lambda>a. \<not> prefix ''--'' a"
  from args have "filter ?no args \<in> shuffles (filter ?no (verb # src # dst # rest)) (filter ?no flags)"
    unfolding filter_shuffles[symmetric] by (rule imageI)
  moreover have "filter ?no (verb # src # dst # rest) = verb # src # dst # rest"
    using ops by (intro filter_True) (simp add: a_flag_prefix)
  moreover have "filter ?no flags = []" using fl by (auto simp: a_flag_prefix)
  moreover have "args \<noteq> []" using args by auto
  ultimately show thesis using that by (simp add: positional_def)
qed

lemma omafiled_transfer:
  assumes "asks_to_transfer args verb src dst" "open_default w = (Ok J, w1)"
  shows "omafiled D serve args w =
    io_match (if verb = ''copy'' then copy_file D J src dst (cli_options args) else move_file D J src dst (cli_options args))
      (\<lambda>out. io_bind (tell_outcome out) (\<lambda>_. ret SUCCESS))
      (\<lambda>e. io_bind get_env (\<lambda>E. complain (show_transfer_error E e))) w1"
proof -
  obtain rest where "positional args = verb # src # dst # rest" "args \<noteq> []" by (rule asks_positional[OF assms(1)])
  with assms show ?thesis
    by (auto simp: asks_to_transfer_def omafiled_def io_match_def[of open_default] run_transfer_def Let_def)
qed

lemma tell_outcome_run:
  "io_bind (tell_outcome out) (\<lambda>_. ret SUCCESS) w = (Ok SUCCESS, w\<lparr>w_cap := told_user (report out) (w_cap w)\<rparr>)"
  by (cases out rule: report.cases; cases "w_cap w")
    (simp_all add: tell_outcome_def print_def on_cap_def io_bind_def io_match_def ret_def told_user_def)

lemma complain_run:
  "io_bind get_env (\<lambda>E. complain (h E)) w =
     (Ok FAILURE, w\<lparr>w_cap := warned_user [''omafiled: '' @ h (w_env w)] (w_cap w)\<rparr>)"
  by (cases "w_cap w")
    (simp add: complain_def eprint_def on_cap_def io_bind_def io_match_def ret_def get_env_def warned_user_def)

text \<open>The engine and the journal print nothing.\<close>

lemma transfer_prints_nothing:
  assumes "(if b then copy_file D J src dst opts else move_file D J src dst opts) w = (r, w')"
  shows "w_cap w' = w_cap w"
proof -
  have "cap_keeps ((=) (w_cap w)) (if b then copy_file D J src dst opts else move_file D J src dst opts)"
    unfolding copy_file_def move_file_def
    by (intro cap_if cap_copy_file_with cap_move_file_with) (simp_all add: calls_keep_def)
  from cap_keepsD[OF this refl assms] show ?thesis by simp
qed

lemma open_prints_nothing:
  assumes "open_default w = (r, w')"
  shows "w_cap w' = w_cap w"
  using cap_keepsD[OF cap_journal(4)[of "(=) (w_cap w)"] refl assms] by simp

text \<open>
  C35. The exit code and the streams tell the truth about a transfer. When the arguments ask for a copy or a
  move and the journal opens, the engine runs once, on the two paths, with a checksum exactly if \<open>--checksum\<close> is
  among the arguments, and with the rule to replace if \<open>--replace\<close> is, else to keep both if \<open>--keep-both\<close> is,
  else to skip. If it succeeds, the exit code is success, the output gets the lines of just that outcome (moved,
  skipped, or the tier of the copy, whether it replaced a file, and what that attests) and the error
  stream nothing; if it fails, the exit code is failure, the error stream gets one line with the
  reason and the output nothing. No file is touched but by the engine and the opening.
\<close>

theorem cli_tells_the_truth:
  assumes "asks_to_transfer args verb src dst" "open_default w = (Ok J, w1)"
    and "opt_checksum opts \<longleftrightarrow> ''--checksum'' \<in> set args"
    and "opt_on_conflict opts = (if ''--replace'' \<in> set args then Replace
      else if ''--keep-both'' \<in> set args then KeepBoth else Skip)"
    and "(if verb = ''copy'' then copy_file D J src dst opts else move_file D J src dst opts) w1 = (er, w2)"
    and "(omafiled D serve args :: (io_error, exit_code, printed) io) w = (r, w')"
  shows "case er of
         Ok out \<Rightarrow> r = Ok SUCCESS \<and> w' = w2\<lparr>w_cap := told_user (report out) (w_cap w)\<rparr>
       | Err e \<Rightarrow> r = Ok FAILURE
           \<and> w' = w2\<lparr>w_cap := warned_user [''omafiled: '' @ show_transfer_error (w_env w2) e] (w_cap w)\<rparr>
       | Killed \<Rightarrow> r = Killed \<and> w' = w2"
proof -
  have opts: "cli_options args = opts" using assms(3,4) by (cases opts) (simp add: cli_options_def)
  have cap: "w_cap w2 = w_cap w"
    using transfer_prints_nothing[OF assms(5)] open_prints_nothing[OF assms(2)] by simp
  from assms(6) cap show ?thesis
    unfolding omafiled_transfer[OF assms(1,2)] io_match_def opts assms(5)
    by (cases er) (auto simp: tell_outcome_run complain_run)
qed

text \<open>
  C36. Without a flag that allows it, the command line overwrites nothing. With neither
  \<open>--replace\<close> nor \<open>--keep-both\<close>, and if the look at the destination (the second call after the journal was
  opened) is not refused: whatever else fails and wherever it is killed, \<open>omafiled copy\<close> onto an existing
  destination leaves every watched key as it was once the journal was open, and a successful exit
  prints that it skipped. (A refused look overwrites, theory \<open>Divergences\<close>.)
\<close>

theorem cli_without_flags_overwrites_nothing:
  assumes "asks_to_transfer args ''copy'' src dst" "''--replace'' \<notin> set args" "''--keep-both'' \<notin> set args"
    and "open_default w = (Ok J, w1)" "transfer_ready (w_env w1) J (w_fs w1) src dst"
    and "there w1 dst" "second_call_answered w1"
    and "(omafiled D serve args :: (io_error, exit_code, printed) io) w = (r, w')"
  shows "(\<forall>k \<in> watched (w_env w1) src dst. map_of (w_fs w') k = map_of (w_fs w1) k)
    \<and> (r = Ok SUCCESS \<longrightarrow> w_cap w' = told_user (report SkippedExisting) (w_cap w))"
proof -
  let ?E = "w_env w1" and ?S = "watched (w_env w1) src dst" and ?g = "map_of (w_fs w1)"
  let ?opts = "cli_options args"
  obtain er w2 where run: "copy_file D J src dst ?opts w1 = (er, w2)" by fastforce
  have skip: "opt_on_conflict ?opts = Skip" using assms(2,3) by (simp add: cli_options_def)
  obtain n where k: "path_key (e_cwd ?E) dst \<in> ?S" by (rule dst_watched[OF assms(5)])
  note triple = triple_skip[OF refl k, where g = ?g and opts = ?opts and D = D and J = J and src = src
      and on_progress = "\<lambda>_ _ _ s. s"]
  have skips: "triple (\<lambda>v. view ?E ?S ?g v \<and> w_tick v = w_tick w1) (copy_file_with D J src dst ?opts (\<lambda>_ _ _ s. s))
      (\<lambda>out w. out = SkippedExisting \<and> view ?E ?S ?g w) (\<lambda>_. view ?E ?S ?g) (view ?E ?S ?g)"
    using assms(6,7) skip by (intro triple) (auto simp: there_def second_call_answered_def)
  have cap: "w_cap w2 = w_cap w"
    using transfer_prints_nothing[of True D J src dst ?opts w1 er w2] open_prints_nothing[OF assms(4)] run by simp
  note exec = assms(8)[unfolded omafiled_transfer[OF assms(1,4)] if_P[OF refl] io_match_def run prod.case]
  show ?thesis
  proof (rule run_cases[OF skips conjI[OF transfer_ready_view[OF assms(5)] refl] run[unfolded copy_file_def]])
    fix out assume "er = Ok out" "out = SkippedExisting \<and> view ?E ?S ?g w2"
    with exec cap show ?thesis by (auto simp: tell_outcome_run view_def simp del: report.simps)
  next
    fix e assume "er = Err e" "view ?E ?S ?g w2"
    with exec show ?thesis by (auto simp: complain_run view_def)
  next
    assume "er = Killed" "view ?E ?S ?g w2"
    with exec show ?thesis by (auto simp: view_def)
  qed
qed

section \<open>Witnesses\<close>

definition lab_shell :: "printed world" where
  "lab_shell = \<lparr>w_env = lab_reading whole_read, w_fs = lab_fs, w_tick = 0, w_cap = \<lparr>pr_out = [], pr_err = []\<rparr>\<rparr>"

definition no_server :: "path \<Rightarrow> (io_error, unit, printed) io" where
  "no_server p = ret ()"

definition lab_args :: "string list" where
  "lab_args = [''copy'', ''--checksum'', ''/src/a'', ''/dst/b'']"

lemma lab_asks: "asks_to_transfer lab_args ''copy'' ''/src/a'' ''/dst/b''"
  unfolding asks_to_transfer_def lab_args_def
  by (intro conjI exI[of _ "[]"] exI[of _ "[''--checksum'']"]) (simp_all add: a_flag_def)

definition lab_state :: journal where
  "lab_state = \<lparr>j_dir = ''.local/state/omafile/journal''\<rparr>"

definition lab_opened :: "printed world" where
  "lab_opened = lab_shell\<lparr>w_tick := 1, w_fs := lab_fs @
     [([''.local''], Dir), ([''.local'', ''state''], Dir), ([''.local'', ''state'', ''omafile''], Dir),
      ([''.local'', ''state'', ''omafile'', ''journal''], Dir)]\<rparr>"

lemma lab_state_path: "path_key [] ''.local/state/omafile/journal'' = [''.local'', ''state'', ''omafile'', ''journal'']"
  by code_simp

lemma lab_opens: "(open_default lab_shell :: (io_error, journal) res \<times> printed world) = (Ok lab_state, lab_opened)"
proof -
  have "path_join (path_join [] ''.local/state'') ''omafile/journal'' = ''.local/state/omafile/journal''" by code_simp
  then show ?thesis
    by (simp add: open_default_def open_at_def create_dir_all_def sys_def at_path_def Let_def io_bind_def io_match_def
        get_env_def ret_def lab_shell_def lab_opened_def lab_state_def lab_reading_def lab_state_path lab_fs_def)
qed

lemma lab_opened_ready: "transfer_ready (w_env lab_opened) lab_state (w_fs lab_opened) ''/src/a'' ''/dst/b''"
proof -
  have "sized (map_of (w_fs lab_opened) k)" for k
    by (simp add: lab_opened_def lab_fs_def sized_def MAX_FILE_def)
  then have "transfer_ready (lab_reading whole_read) lab_state (w_fs lab_opened) ''/src/a'' ''/dst/b''"
    by (intro lab_ready_at[where h = "''.local''"]) (simp_all add: lab_state_def lab_state_path)
  then show ?thesis by (simp add: lab_opened_def lab_shell_def)
qed

definition lab_ran :: "(io_error, exit_code) res \<times> printed world" where
  "lab_ran = omafiled lab_crates no_server lab_args lab_shell"

lemma lab_ran_ends: "fst lab_ran = Ok SUCCESS"
  by code_simp

lemma cli_tells_the_truth_witness:
  "w_cap (snd lab_ran) = \<lparr>pr_out = concat (map line (report SkippedExisting)), pr_err = []\<rparr>"
proof -
  let ?opts = "\<lparr>opt_checksum = True, opt_on_conflict = Skip\<rparr>"
  obtain er w2 where run: "(if ''copy'' = ''copy'' then copy_file lab_crates lab_state ''/src/a'' ''/dst/b'' ?opts
      else move_file lab_crates lab_state ''/src/a'' ''/dst/b'' ?opts) lab_opened = (er, w2)" by fastforce
  have "fst (copy_file lab_crates lab_state ''/src/a'' ''/dst/b'' ?opts lab_opened) = Ok SkippedExisting" by code_simp
  with run have er: "er = Ok SkippedExisting" by simp
  have ran: "(omafiled lab_crates no_server lab_args :: (io_error, exit_code, printed) io) lab_shell = (fst lab_ran, snd lab_ran)"
    by (simp add: lab_ran_def)
  from cli_tells_the_truth[OF lab_asks lab_opens _ _ run ran] er show ?thesis
    by (simp add: lab_args_def told_user_def) (simp add: lab_shell_def)
qed

lemma cli_without_flags_overwrites_nothing_witness:
  "map_of (w_fs (snd lab_ran)) [''dst'', ''b''] = Some (File ''old'' True)
   \<and> prefix ''Skipped'' (pr_out (w_cap (snd lab_ran)))"
proof -
  have run: "(omafiled lab_crates no_server lab_args :: (io_error, exit_code, printed) io) lab_shell = (fst lab_ran, snd lab_ran)"
    by (simp add: lab_ran_def)
  have there: "there lab_opened ''/dst/b''" "second_call_answered lab_opened"
    by (simp_all add: there_def second_call_answered_def lab_opened_def lab_shell_def lab_calm lab_paths lab_fs_def)
  have k: "[''dst'', ''b''] \<in> watched (w_env lab_opened) ''/src/a'' ''/dst/b''"
    using watched_name[of "lab_reading whole_read" "''/dst/b''" "''b''" "''/src/a''"]
    by (simp add: lab_opened_def lab_shell_def lab_keys)
  from cli_without_flags_overwrites_nothing[OF lab_asks _ _ lab_opens lab_opened_ready there run] k lab_ran_ends
  show ?thesis by (simp add: lab_args_def told_user_def line_def) (simp add: lab_opened_def lab_shell_def lab_fs_def)
qed

end
