(* ===== verification/Spec2Isabelle.thy ===== *)
theory Spec2Isabelle
  imports Moving Returning Serving Divergences Deleting Restoring Socket Cli
begin

text \<open>
  \<^bold>\<open>The Omafile daemon, modelled and verified\<close>

  Omafile moves files: a QML plugin draws the window, and the Rust daemon \<open>omafiled\<close>
  (\<open>daemon/src\<close>) does the work over a line protocol on a Unix socket. This development models the
  daemon, all of its modules, and proves what its documents promise: a destination never holds a
  partial file, a source is never lost, every Job ends in a row that is true, every line of a
  client is answered, and nothing is replaced unless the request said so.

  \<^bold>\<open>Parts and how they interact\<close>

  A client connects to the listener (theory \<open>Socket\<close>: \<open>activated_listener\<close>, \<open>bind_fresh\<close>, the accept
  loop of \<open>serve\<close>). Each connection has a reader (\<open>Server\<close>: \<open>handle\<close>, \<open>dispatch\<close>, \<open>start_job\<close>; \<open>Rename\<close>,
  \<open>Space\<close> and \<open>Trash\<close> for the requests it answers itself) and a writer thread (\<open>Writer\<close>). They share
  the registry of Jobs and its counters (\<open>Registry\<close>: \<open>Shared\<close>). A copy or move request becomes a
  Job, a thread of its own (\<open>Jobs\<close>: the closure of \<open>start_job\<close>) that runs the engine (\<open>Engine\<close>) over the
  request's files, counts their outcomes (\<open>Tally\<close>) and puts its row into the registry at every
  progress report and at its end. The engine sequences primitives (\<open>FsOps\<close>) and records what it has
  begun in the journal (\<open>Journal\<close>). The command line (\<open>Cli\<close>) runs the same engine without a daemon.

  \<^bold>\<open>Which theory models which file\<close>

    \<^item> \<open>Prelude\<close>, \<open>Utf8\<close>, \<open>Paths\<close>, \<open>Texts\<close>: what the sources use of the standard library: machine integers,
      number formatting, \<open>io::Error\<close>, \<open>from_utf8_lossy\<close>, \<open>std::path\<close>, \<open>trim\<close>, \<open>lines\<close>, \<open>parse\<close>.
    \<^item> \<open>World\<close>: \<open>std::fs\<close> over a file system of keys, call by call, and the environment around the
      process. \<open>Logic\<close>: Hoare triples for these calls with one postcondition per ending.
    \<^item> \<open>Tier\<close>: \<open>tier.rs\<close>, \<open>error.rs\<close>. \<open>FsOps\<close>: \<open>fs_ops.rs\<close>. \<open>Journal\<close>: \<open>journal.rs\<close>. \<open>Engine\<close>: \<open>engine.rs\<close>, all
      of it; a method's \<open>self\<close> is the journal argument, a progress callback a function on the state
      it captured (\<open>w_cap\<close>). The body of \<open>copy_file_with\<close> is cut at its comments: \<open>resolve_conflict\<close>,
      \<open>commit_clone\<close>, \<open>fill_temp\<close>, \<open>copy_streaming\<close>, \<open>copy_onto\<close>.
    \<^item> \<open>Trash\<close>, \<open>Uri\<close>, \<open>Calendar\<close>: \<open>trash.rs\<close>. \<open>Space\<close>: \<open>space.rs\<close>. \<open>Protocol\<close>: \<open>protocol.rs\<close>. \<open>Cli\<close>: \<open>main.rs\<close>.
    \<^item> \<open>Registry\<close>, \<open>Tally\<close>, \<open>Jobs\<close>, \<open>Rename\<close>, \<open>Server\<close>, \<open>Writer\<close>, \<open>Socket\<close>: \<open>server.rs\<close>. The writer thread is
      a step relation, one step per access to something shared, with the accesses of all other threads
      between its steps; the reader and the Jobs are computations.
    \<^item> \<open>Reader\<close>, \<open>Daemon\<close>: \<open>server.rs\<close> once more, as a whole. \<open>Reader\<close> cuts the reader's thread into its accesses to
      the registry and to the socket; \<open>Daemon\<close> is any number of connections, each with reader and
      writer, and all Job threads, one access of one thread at a time.

  \<^bold>\<open>What the lemmas show\<close>

    \<^item> \<open>Commit\<close>, \<open>Copying\<close>, \<open>Transfers\<close>, \<open>Moving\<close>: the commit discipline. On every machine (any call fails,
      any read is short or rotten, the process is killed anywhere) one name changes at most besides
      the temporary one, and it holds its old entry or one whole, durable file that the tier of the
      outcome attests; also after a power loss. A move never loses the file.
    \<^item> \<open>Names\<close>: the search for a free name, once for both places that do it (locale \<open>name_search\<close>).
    \<^item> \<open>Captured\<close>, \<open>Jobs\<close>, \<open>Rows\<close>, \<open>Tally\<close>: how a Job's row can look while it runs and how it ends, and
      that its counts add up. \<open>Returning\<close>: that it ends, and within how many calls. \<open>Oblivious\<close>, \<open>Interleaving\<close>
      (locale \<open>row_sinks\<close>): a Job's thread does the same wherever its rows go and whatever the registry holds; to
      every other thread it is a sequence of puts, and two Jobs' puts in any order do not mix.
    \<^item> \<open>Session\<close>, \<open>Starting\<close>: a connection says exactly what its lines call for; a Job started is
      a Job promised. Locale \<open>ticket\<close>: numbers never repeat.
    \<^item> \<open>Writer\<close>: over all interleavings the opening and the writer tell of a completion at most once; what a
      tick tells, line by line; the one way a completion is lost. Locale \<open>job_store\<close>: the registry is a store of rows by their id.
    \<^item> \<open>Reader\<close>: alone, the reader's steps are the computation of \<open>Server\<close>. \<open>Ledger\<close>: the abstract
      specification, who works on which Job and what is shown of it (locale \<open>ledger_keeping\<close>: whatever
      keeps a ledger keeps its laws). \<open>Daemon\<close>: the composed daemon keeps a ledger. \<open>Serving\<close>: so a
      finished row is never changed, a row that says running or queued has exactly one thread that is
      responsible for it (or its client could not be told of it, and it was never started), and on each
      connection, in the middle of all others, a completion is announced at most once, the reader's
      answers included (a \<open>State\<close> line the client asks for is no announcement).
    \<^item> \<open>Trashing\<close>, \<open>Restoring\<close>, \<open>Deleting\<close>: trash and restore, of a file and of a whole directory tree, and the
      truth of the answers about them. \<open>Uri\<close> (locale
      \<open>byte_codec\<close>): what is encoded reads back. \<open>Calendar\<close>: the date algorithm is the calendar.
    \<^item> \<open>Socket\<close>, \<open>Cli\<close>: a daemon evicts nobody, starts again after a crash and serves what was addressed to it
      only; what the command line does and prints for its arguments.
    \<^item> \<open>Divergences\<close>: concrete runs in which the code departs from its own comments and documents.
    \<^item> This theory: from a client's request to the event that tells of its end.

  \<^bold>\<open>Bounds and fuel\<close>

  Every call is one tick, and \<open>e_kill\<close> is the tick at which the process is killed; a theorem says for
  every \<open>e_kill\<close> what holds then. Loops are bounded by it (the chunk loops of the engine, whose
  measure it is) or are structural. That it is no loss is theory \<open>Returning\<close>: on a medium that returns
  no more bytes than it holds, a transfer takes at most \<open>transfer_ticks\<close> calls, six per byte of the
  largest file there can be (two for the stream, one for each of two files in each of two
  verifications, at one byte a read) plus the ten thousand candidate names and a constant, and a Job \<open>job_ticks\<close>; not killed before
  that, it returns. The free-name searches have the code's own bounds (2 to 9999, 0 to 9999). Counts
  of files are 32-bit and bytes and sequence numbers 64-bit words that wrap, as in a release build;
  theorems that add counts up ask for fewer than 2^32 files. Job numbers repeat after 2^64 Jobs: theorems
  about the daemon ask for fewer, counted by \<open>dm_hired\<close>, a history variable that no step reads.

  \<^bold>\<open>Not modelled\<close>

  The plugin (QML), packaging and scripts. JSON (\<open>serde_json\<close>) and SHA-256 (\<open>sha2\<close>), third-party
  crates: a parser argument of \<open>handle\<close> and the fields of \<open>crates\<close>. Log lines on standard error. Symbolic
  and hard links, permissions (a refused call is a fault), and descriptors that outlive a rename of
  their file. A socket's path has fewer than 108 bytes, as the standard library checks; the empty path, for which Linux
  chooses a name of its own, is refused in the model. The \<open>f64\<close> of a progress fraction is kept as its two integers, unrounded. Time: a tick of
  the writer is a step, whenever it comes; the clock and \<open>date\<close> are the environment's. Two Jobs that
  work on one destination directory at once (their puts into the registry are modelled): a Job's file system is changed by others only as \<open>e_other\<close> says, and
  the theorems ask that nobody else writes in the destination directory.
\<close>

section \<open>A Job and the client that asked for it\<close>

lemma tick_tells_job:
  assumes "registry_ok (lk_shared l)" "a_hash_order ord"
    and "wr_pc (lk_writer l) = Asleep" "sh_revision (lk_shared l) \<noteq> wr_last_revision (lk_writer l)"
    and "lookup_job (lk_shared l) (jv_job v) = Some v" "jv_job v \<notin> wr_terminal_sent (lk_writer l)"
  shows "\<exists>n q. job_event q v \<in> set (lk_out (run_writer ord n l))"
proof -
  let ?js = "snapshot_for ord (wr_terminal_sent (lk_writer l)) (lk_shared l)"
  have "v \<in> set (snapshot ord (lk_shared l))"
    using snapshot_set[of "lk_shared l" ord v] assms(1,2,5) by (auto simp: a_hash_order_def)
  with assms(6) have "v \<in> set ?js" by (simp add: snapshot_for_filter)
  then obtain i where i: "i < length ?js" "?js ! i = v" by (auto simp: in_set_conv_nth)
  from tick_tells[OF assms(1-4)] obtain qs l' where l': "run_writer ord (2 * length ?js + 3) l = l'"
    "lk_out l' = lk_out l @ map2 job_event qs ?js" "length qs = length ?js" by blast
  then have "job_event (qs ! i) v \<in> set (map2 job_event qs ?js)"
    using i by (auto simp: set_conv_nth intro!: exI[of _ i])
  with l' show ?thesis by (intro exI[of _ "2 * length ?js + 3"] exI[of _ "qs ! i"]) simp
qed

text \<open>The end of a Job, as the client with an undisturbed writer is told of it.\<close>

definition heard :: "job_spec \<Rightarrow> string \<Rightarrow> event list \<Rightarrow> bool" where
  "heard js job evs \<longleftrightarrow> (\<exists>q v. jv_job v = job \<and> terminal v
     \<and> (if jv_error v = None then accounted (length (js_sources js)) v 0 \<and> Ev_Finished q v \<in> set evs
        else (accounted (length (js_sources js)) v 0 \<or> accounted (length (js_sources js)) v 1) \<and> Ev_Failed q v \<in> set evs))"

lemma result_is_heard:
  assumes "registry_ok (lk_shared l)" "a_hash_order ord" "wr_pc (lk_writer l) = Asleep" "job \<notin> wr_terminal_sent (lk_writer l)"
    and "sh_revision (lk_shared l) \<noteq> wr_last_revision (lk_writer l)"
    and "lookup_job (lk_shared l) job = Some v" "job_result js v" "length (js_sources js) < 2 ^ 32"
    and "js_base js = base_view job (js_sources js) (js_destination_dir js) (js_expected_total js)"
  shows "\<exists>n. heard js job (lk_out (run_writer ord n l))"
proof -
  have vid: "jv_job v = job" by (rule ran_ids[OF assms(1,6)])
  note acc = job_result_accounts[OF assms(7,8,9)]
  from tick_tells_job[of l ord v] obtain n q where "job_event q v \<in> set (lk_out (run_writer ord n l))"
    using assms vid by auto
  with acc vid show ?thesis
    unfolding heard_def
    by (intro exI[of _ n] exI[of _ q] exI[of _ v]) (auto simp: job_event_def terminal_def split: if_splits)
qed

lemma run_job_result:
  assumes "registry_ok (w_cap w)" "run_job D js w = (Ok () :: ('e, unit) res, w')" "jv_job (js_base js) = job"
  obtains v where "lookup_job (w_cap w') job = Some v" "job_result js v" "registry_ok (w_cap w')"
  using run_job_post[OF assms(1,2)] assms(3) by (auto simp: job_post_def others_kept_def)

text \<open>Whatever the other Jobs put in between.\<close>

lemma job_is_heard_among_others:
  assumes "wr_pc (lk_writer l) = Asleep" "job \<notin> wr_terminal_sent (lk_writer l)" "a_hash_order ord"
    and base: "js_base js = base_view job (js_sources js) (js_destination_dir js) (js_expected_total js)"
    and "length (js_sources js) < 2 ^ 32"
    and vs: "job_told job (Ok () :: ('e, unit) res) vs" "puts_anywhere D js w vs (Ok () :: ('e, unit) res) w'"
    and others: "\<forall>u \<in> set us. jv_job u \<noteq> job" "ws \<in> shuffles vs us"
    and s: "registry_ok s" "sh_revision (fold put ws s) \<noteq> wr_last_revision (lk_writer l)"
  shows "\<exists>n. heard js job (lk_out (run_writer ord n (l\<lparr>lk_shared := fold put ws s\<rparr>)))"
proof -
  have id: "jv_job (js_base js) = job" by (simp add: base base_view_def)
  obtain vs0 v where vs0: "vs = vs0 @ [v]" "\<forall>v \<in> set vs. jv_job v = job"
    using job_told_Ok[OF vs(1)] by metis
  have alone: "lookup_job (fold put vs s) job = Some v"
    by (rule last_put_wins[of job vs vs0]) (use vs0 in \<open>simp add: filter_id_conv\<close>)
  have "filter (\<lambda>v. jv_job v = job) ws = vs"
    by (rule shuffled_filter[OF others(2) vs0(2)]) (use others(1) in simp)
  then have among: "lookup_job (fold put ws s) job = Some v"
    by (intro last_put_wins[of job ws vs0]) (simp add: vs0(1))
  have "run_job D js (w\<lparr>w_cap := s\<rparr>) = (Ok () :: ('e, unit) res, w'\<lparr>w_cap := fold put vs s\<rparr>)"
    using vs(2) by (simp add: puts_anywhere_def)
  from run_job_result[OF _ this id] s(1) alone have "job_result js v" by auto
  with among show ?thesis
    by (intro result_is_heard) (use assms registry.inv_fold_ins[OF s(1)] in simp_all)
qed

lemma job_is_heard:
  fixes r :: "('e, unit) res"
  assumes "registry_ok (lk_shared l)" "wr_pc (lk_writer l) = Asleep" "job \<notin> wr_terminal_sent (lk_writer l)"
    and "w_cap w = lk_shared l" "run_job D js w = (Ok () :: ('e, unit) res, w')" "length (js_sources js) < 2 ^ 32"
    and "js_base js = base_view job (js_sources js) (js_destination_dir js) (js_expected_total js)"
    and "sh_revision (w_cap w') \<noteq> wr_last_revision (lk_writer l)" "a_hash_order ord"
  shows "\<exists>n. heard js job (lk_out (run_writer ord n (l\<lparr>lk_shared := w_cap w'\<rparr>)))"
proof -
  have id: "jv_job (js_base js) = job" by (simp add: assms(7) base_view_def)
  have "registry_ok (w_cap w)" using assms(1,4) by simp
  then obtain v where "lookup_job (w_cap w') job = Some v" "job_result js v" "registry_ok (w_cap w')"
    by (rule run_job_result[OF _ assms(5) id])
  then show ?thesis
    by (intro result_is_heard) (use assms in simp_all)
qed

text \<open>
  A client hears how its Job ended. Take a connection whose writer sleeps, and a Job whose thread ran to
  its end on the registry the connection shares: if the writer then sees that the revision moved
  and was not already told of that Job, then within its next tick (if no write fails and nobody
  comes between) the client is sent the Job's final view, as finished or as failed, and that view
  accounts for every file of the request.
\<close>

theorem client_hears_the_end:
  fixes r :: "('e, unit) res"
  assumes "registry_ok (lk_shared l)" "wr_pc (lk_writer l) = Asleep" "job \<notin> wr_terminal_sent (lk_writer l)"
    and "w_cap w = lk_shared l" "run_job D js w = (Ok (), w')" "length (js_sources js) < 2 ^ 32"
    and "js_base js = base_view job (js_sources js) (js_destination_dir js) (js_expected_total js)"
    and "sh_revision (w_cap w') \<noteq> wr_last_revision (lk_writer l)" "a_hash_order ord"
  shows "\<exists>n. heard js job (lk_out (run_writer ord n (l\<lparr>lk_shared := w_cap w'\<rparr>)))"
  by (rule job_is_heard[OF assms])

text \<open>
  C7. A transfer request is carried out and its end is heard. A client's copy or move request that
  was dispatched without an error was answered with a Job id and spawned one thread with its very
  sources, directory and options, which moves if it asked for a move. That thread, on a medium that returns no more than it holds and if nobody kills the
  daemon within the bound for its files, comes to its end, whatever the registry holds, having
  put the rows \<open>job_puts\<close>. And however those puts were interleaved with other Jobs', if the client's
  writer sees that the registry moved on, then within its next undisturbed tick the client is
  sent this Job's end, which accounts for every file.
\<close>

theorem request_is_carried_out:
  assumes "req = Req_Copy i sources d checksum rule \<or> req = Req_Move i sources d checksum rule"
    and "registry_ok (cn_shared (w_cap w))" "dispatch req w = (Ok (), w1)" "length sources < 2 ^ 32"
    and "tame (w_env thread)" "fits (w_fs thread)" "w_tick thread + job_ticks (length sources) \<le> e_kill (w_env thread)"
    and "wr_pc (lk_writer l) = Asleep" "a_hash_order ord"
    and "job_name (sh_next_job (cn_shared (w_cap w))) \<notin> wr_terminal_sent (lk_writer l)"
  shows "\<exists>job js end. cn_out (w_cap w1) = cn_out (w_cap w) @ [Ev_Reply (sh_seq (cn_shared (w_cap w))) i (Some job) None]
    \<and> cn_spawned (w_cap w1) = cn_spawned (w_cap w) @ [js] \<and> js_sources js = sources \<and> js_destination_dir js = d
    \<and> js_options js = \<lparr>opt_checksum = checksum, opt_on_conflict = rule\<rparr>
    \<and> (js_is_move js \<longleftrightarrow> req = Req_Move i sources d checksum rule)
    \<and> puts_anywhere D js thread (job_puts D js thread) (Ok () :: (io_error, unit) res) end
    \<and> (\<forall>us ws s. (\<forall>u \<in> set us. jv_job u \<noteq> job) \<and> ws \<in> shuffles (job_puts D js thread) us \<and> registry_ok s
         \<and> sh_revision (fold put ws s) \<noteq> wr_last_revision (lk_writer l)
       \<longrightarrow> (\<exists>n. heard js job (lk_out (run_writer ord n (l\<lparr>lk_shared := fold put ws s\<rparr>)))))"
proof -
  define mv where "mv \<longleftrightarrow> req = Req_Move i sources d checksum rule"
  have start: "start_job i sources d checksum rule mv w = (Ok (), w1)"
    using assms(1,3) by (auto simp: mv_def)
  let ?job = "job_name (sh_next_job (cn_shared (w_cap w)))"
  from start_job_run[OF start] obtain n
    where told: "job_started i sources d checksum rule mv (w_cap w) (base_view ?job sources d n) (w_cap w1)"
    by auto
  define js where "js = \<lparr>js_base = base_view ?job sources d n, js_sources = sources, js_destination_dir = d,
           js_options = \<lparr>opt_checksum = checksum, opt_on_conflict = rule\<rparr>, js_is_move = mv, js_expected_total = n\<rparr>"
  have js: "js_base js = base_view ?job (js_sources js) (js_destination_dir js) (js_expected_total js)" "js_sources js = sources"
    by (simp_all add: js_def)
  let ?w = "thread\<lparr>w_cap := shared_new\<rparr>"
  obtain r :: "(io_error, unit) res" and w3 where run: "run_job D js ?w = (r, w3)" by fastforce
  have "r = Ok ()"
    by (rule run_job_returns[OF _ _ _ _ run]) (use assms(5-7) in \<open>simp_all add: js_def registry_ok_def shared_new_def\<close>)
  with run_job_puts[OF run js(1)] have vs: "job_told ?job (Ok () :: (io_error, unit) res) (job_puts D js thread)"
    and anywhere: "puts_anywhere D js thread (job_puts D js thread) (Ok () :: (io_error, unit) res) w3"
    by (simp_all add: puts_anywhere_def job_puts_cap)
  note hear = job_is_heard_among_others[OF assms(8,10,9) js(1) _ vs anywhere, unfolded js(2), OF assms(4)]
  have "cn_out (w_cap w1) = cn_out (w_cap w) @ [Ev_Reply (sh_seq (cn_shared (w_cap w))) i (Some ?job) None]"
    "cn_spawned (w_cap w1) = cn_spawned (w_cap w) @ [js]" "js_destination_dir js = d"
    "js_options js = \<lparr>opt_checksum = checksum, opt_on_conflict = rule\<rparr>"
    "js_is_move js \<longleftrightarrow> req = Req_Move i sources d checksum rule"
    using told by (simp_all add: job_started_def js_def base_view_def mv_def)
  with js(2) anywhere hear show ?thesis by blast
qed

definition lab_link :: link where
  "lab_link = \<lparr>lk_shared = shared_new, lk_writer = \<lparr>wr_terminal_sent = {}, wr_last_revision = 0, wr_idle = 0, wr_pc = Asleep\<rparr>, lk_out = []\<rparr>"

lemma lab_job_moves: "(case lab_done of (r, w) \<Rightarrow> (r, sh_revision (w_cap w) = 0)) = (Ok (), False)"
  by code_simp

lemma client_hears_the_end_witness:
  "\<exists>n. heard lab_job ''1'' (lk_out (run_writer id n (lab_link\<lparr>lk_shared := w_cap (snd lab_done)\<rparr>)))"
proof -
  obtain r w where rw: "lab_done = (r, w)" by fastforce
  from lab_job_moves[unfolded rw prod.case prod.inject] have run: "lab_done = (Ok (), w)"
    and rev: "sh_revision (w_cap w) \<noteq> 0"
    by (simp_all add: rw)
  have link: "registry_ok (lk_shared lab_link)" "wr_pc (lk_writer lab_link) = Asleep"
    "''1'' \<notin> wr_terminal_sent (lk_writer lab_link)" "w_cap lab_daemon = lk_shared lab_link"
    "sh_revision (w_cap w) \<noteq> wr_last_revision (lk_writer lab_link)"
    using rev by (simp_all add: lab_link_def lab_daemon_def registry_ok_def shared_new_def)
  have job: "length (js_sources lab_job) < 2 ^ 32"
    "js_base lab_job = base_view ''1'' (js_sources lab_job) (js_destination_dir lab_job) (js_expected_total lab_job)"
    by (simp_all add: lab_job_def)
  have order: "a_hash_order (id :: (string \<times> job_view) list \<Rightarrow> _)"
    by (simp add: a_hash_order_def)
  from client_hears_the_end[OF link(1-4) run[unfolded lab_done_def] job link(5) order] show ?thesis
    by (simp add: run)
qed

definition lab_thread :: "shared world" where
  "lab_thread = lab_daemon\<lparr>w_env := lab_reading whole_read\<lparr>e_kill := job_ticks 1\<rparr>, w_cap := cn_shared (w_cap (snd lab_started))\<rparr>"

lemma request_is_carried_out_witness:
  "\<exists>job js end. cn_out (w_cap (snd lab_started)) = [Ev_Reply 0 5 (Some job) None]
    \<and> cn_spawned (w_cap (snd lab_started)) = [js] \<and> js_sources js = [''/src/a'']
    \<and> puts_anywhere lab_crates js lab_thread (job_puts lab_crates js lab_thread) (Ok () :: (io_error, unit) res) end"
proof -
  have run: "dispatch (Req_Copy 5 [''/src/a''] ''/dst'' False Skip) lab_client = (Ok (), snd lab_started)"
    using lab_start_ends by (simp add: lab_started_def prod_eq_iff)
  have c: "w_cap lab_client = lab_conn" "cn_out lab_conn = []" "cn_spawned lab_conn = []" "cn_shared lab_conn = shared_new"
    "registry_ok shared_new" "sh_seq shared_new = 0"
    by (simp_all add: lab_client_def lab_conn_def registry_ok_def shared_new_def)
  have t: "tame (w_env lab_thread)" "fits (w_fs lab_thread)" "w_tick lab_thread + job_ticks (length [''/src/a'']) \<le> e_kill (w_env lab_thread)"
    by (simp_all add: lab_thread_def lab_tame lab_fits lab_daemon_def)
  have l: "wr_pc (lk_writer lab_link) = Asleep" "wr_terminal_sent (lk_writer lab_link) = {}"
    by (simp_all add: lab_link_def)
  have order: "a_hash_order (id :: (string \<times> job_view) list \<Rightarrow> _)"
    by (simp add: a_hash_order_def)
  from request_is_carried_out[OF disjI1[OF refl] _ run _ t l(1) order _, where D = lab_crates]
  show ?thesis by (simp add: c l(2)) blast
qed

end
